(* ===== verification/Prelude.thy ===== *)
theory Prelude
  imports Main "HOL-Library.Word"
begin

text \<open>
  Shared vocabulary of the development: the machine integers of the sources as words, the
  \<^verbatim>\<open>?\<close> operator on \<^verbatim>\<open>Result\<close> values as \<open>and_then\<close>, the checked and saturating
  arithmetic the sources call, big-endian byte strings, and the generic lemmas on lists, options
  and maps that the component theories use.
\<close>

section \<open>Names of types\<close>

type_synonym u8 = "8 word"
type_synonym u16 = "16 word"
type_synonym u32 = "32 word"
type_synonym u64 = "64 word"
type_synonym u128 = "128 word"
type_synonym u256 = "256 word"
type_synonym bytes = "u8 list"

section \<open>Collections of facts\<close>

named_theorems res_simps \<open>evaluation of the result monad\<close>
named_theorems be_simps \<open>big-endian byte strings\<close>

section \<open>Results\<close>

text \<open>
  A \<^verbatim>\<open>Result<T, E>\<close> is a value of \<open>'e + 'a\<close>, the error on the left. \<open>and_then m f\<close> is the
  sequencing that the operator \<^verbatim>\<open>?\<close> performs: an error is returned at once, otherwise the
  rest of the function runs on the value.
\<close>

definition and_then :: "'e + 'a \<Rightarrow> ('a \<Rightarrow> 'e + 'b) \<Rightarrow> 'e + 'b" where
  "and_then m f = (case m of Inl e \<Rightarrow> Inl e | Inr x \<Rightarrow> f x)"

lemma and_then_Inl [simp, res_simps]: "and_then (Inl e) f = Inl e"
  by (simp add: and_then_def)

lemma and_then_Inr [simp, res_simps]: "and_then (Inr x) f = f x"
  by (simp add: and_then_def)

lemma and_then_eq_Inr: "(and_then m f = Inr y) = (\<exists>x. m = Inr x \<and> f x = Inr y)"
  by (cases m) auto

lemma and_then_eq_Inl:
  "(and_then m f = Inl e) = (m = Inl e \<or> (\<exists>x. m = Inr x \<and> f x = Inl e))"
  by (cases m) auto

lemma and_then_assoc: "and_then (and_then m f) g = and_then m (\<lambda>x. and_then (f x) g)"
  by (cases m) simp_all

lemma and_then_InrE:
  assumes "and_then m f = Inr y"
  obtains x where "m = Inr x" and "f x = Inr y"
  using assms by (auto simp: and_then_eq_Inr)

text \<open>
  Code that can also panic returns a \<open>'e fault\<close>: an error of the code or \<open>Panic\<close>. \<open>try_res\<close> embeds
  the result of a call that does not panic.
\<close>

datatype 'e fault = Err 'e | Panic

definition try_res :: "'e + 'a \<Rightarrow> 'e fault + 'a" where
  "try_res m = (case m of Inl e \<Rightarrow> Inl (Err e) | Inr x \<Rightarrow> Inr x)"

lemma try_res_simps [simp, res_simps]:
  "try_res (Inl e) = Inl (Err e)" "try_res (Inr x) = Inr x"
  by (simp_all add: try_res_def)

lemma try_res_eq_Inr [simp]: "try_res m = Inr x \<longleftrightarrow> m = Inr x"
  by (cases m) simp_all

lemma try_res_not_Panic [simp]: "try_res m \<noteq> Inl Panic"
  by (cases m) simp_all

definition ok_or :: "'a option \<Rightarrow> 'e \<Rightarrow> 'e + 'a" where
  "ok_or x e = (case x of None \<Rightarrow> Inl e | Some v \<Rightarrow> Inr v)"

lemma ok_or_simps [simp, res_simps]:
  "ok_or None e = Inl e"
  "ok_or (Some v) e = Inr v"
  by (simp_all add: ok_or_def)

lemma ok_or_eq_Inr [simp]: "(ok_or x e = Inr v) = (x = Some v)"
  by (cases x) auto

section \<open>Arithmetic of the machine integers\<close>

text \<open>
  The release profile compiles \<^verbatim>\<open>+\<close>, \<^verbatim>\<open>-\<close> and \<^verbatim>\<open>*\<close> on fixed-width integers to the
  wrapping operations, which are those of the type of words. The checked and saturating variants
  that the sources call by name are defined here.
\<close>

definition saturating_sub :: "'a::len word \<Rightarrow> 'a word \<Rightarrow> 'a word" where
  "saturating_sub a b = (if a < b then 0 else a - b)"

definition saturating_add_i32 :: "int \<Rightarrow> int \<Rightarrow> int" where
  "saturating_add_i32 a b = max (- (2 ^ 31)) (min (2 ^ 31 - 1) (a + b))"

lemma unat_decr: "0 < unat (w :: 'a::len word) \<Longrightarrow> unat (w - 1) = unat w - 1 \<and> w - 1 \<le> w"
  using unat_sub [of 1 w] by (simp add: word_le_nat_alt)

lemma unat_incr:
  assumes "w < (m :: 'a::len word)"
  shows "unat (w + 1) = unat w + 1 \<and> w + 1 \<le> m"
proof -
  have "unat m < 2 ^ LENGTH('a)"
    by (rule unsigned_less)
  then have "unat w + unat (1 :: 'a word) < 2 ^ LENGTH('a)"
    using assms unfolding word_less_nat_alt unat_1 by linarith
  then show ?thesis
    using assms unat_add_lem [of w 1] by (simp add: word_less_nat_alt word_le_nat_alt)
qed

lemma unat_saturating_sub: "unat (saturating_sub a b) = unat a - unat b"
  by (simp add: saturating_sub_def unat_sub_if' word_less_nat_alt word_le_nat_alt)

lemma saturating_sub_le: "saturating_sub a b \<le> a"
  by (simp add: word_le_nat_alt unat_saturating_sub)

lemma saturating_add_i32_range:
  "- (2 ^ 31) \<le> saturating_add_i32 a b" "saturating_add_i32 a b \<le> 2 ^ 31 - 1"
  by (simp_all add: saturating_add_i32_def)

text \<open>The number of bits of a number, and with it the \<^verbatim>\<open>leading_zeros\<close> of a fixed-width integer.\<close>

fun bit_len :: "nat \<Rightarrow> nat" where
  "bit_len n = (if n = 0 then 0 else Suc (bit_len (n div 2)))"

declare bit_len.simps [simp del]

lemma bit_len_0 [simp]: "bit_len 0 = 0"
  by (simp add: bit_len.simps)

lemma bit_len_le_iff: "bit_len n \<le> k \<longleftrightarrow> n < 2 ^ k"
proof (induction n arbitrary: k rule: bit_len.induct)
  case (1 n)
  show ?case
  proof (cases "n = 0")
    case True
    then show ?thesis by simp
  next
    case False
    show ?thesis
    proof (cases k)
      case 0
      with False show ?thesis by (simp add: bit_len.simps [of n])
    next
      case (Suc j)
      have "bit_len (n div 2) \<le> j \<longleftrightarrow> n div 2 < 2 ^ j"
        using "1.IH" [OF False] by simp
      also have "\<dots> \<longleftrightarrow> n < 2 ^ k"
        using Suc by (auto simp: less_mult_imp_div_less div_less_iff_less_mult mult.commute)
      finally show ?thesis
        using False Suc by (simp add: bit_len.simps [of n])
    qed
  qed
qed

definition leading_zeros :: "'a::len word \<Rightarrow> nat" where
  "leading_zeros w = LENGTH('a) - bit_len (unat w)"

text \<open>Casts between widths.\<close>

lemma unat_ucast_take: "unat (ucast (w :: 'a::len word) :: 'b::len word) = take_bit LENGTH('b) (unat w)"
  by (rule unsigned_ucast_eq)

lemma ucast_up_down: 
  assumes "LENGTH('a::len) \<le> LENGTH('b::len)"
  shows "(ucast (ucast (n :: 'a word) :: 'b word) :: 'a word) = n"
proof -
  have "unat n < 2 ^ LENGTH('b)"
    by (rule less_le_trans [OF unsigned_less]) (simp add: assms)
  then have "unat (ucast (ucast n :: 'b word) :: 'a word) = unat n"
    using unsigned_less [of n, where ?'a = nat] by (simp only: unat_ucast_take take_bit_nat_eq_self)
  then show ?thesis by (simp only: word_unat_eq_iff)
qed

lemma ucast_down_up: 
  assumes "unat (w :: 'b::len word) < 2 ^ LENGTH('a::len)"
  shows "(ucast (ucast w :: 'a word) :: 'b word) = w"
proof -
  have "unat (ucast (ucast w :: 'a word) :: 'b word) = unat w"
    using assms unsigned_less [of w, where ?'a = nat] by (simp only: unat_ucast_take take_bit_nat_eq_self)
  then show ?thesis by (simp only: word_unat_eq_iff)
qed
lemma unat_less_pow: "unat (w :: 'a::len word) < 2 ^ LENGTH('a)"
  by (rule unsigned_less)

lemma unat_max: "unat (max a b :: 'a::len word) = max (unat a) (unat b)"
  by (simp add: max_def word_le_nat_alt)

lemma conj_imp_absorb: "A \<and> (A \<longrightarrow> B) \<longleftrightarrow> A \<and> B"
  by blast

section \<open>Big-endian byte strings\<close>

fun nat_to_be :: "nat \<Rightarrow> nat \<Rightarrow> bytes" where
  "nat_to_be 0 x = []"
| "nat_to_be (Suc n) x = nat_to_be n (x div 256) @ [of_nat (x mod 256)]"

definition nat_from_be :: "bytes \<Rightarrow> nat" where
  "nat_from_be bs = foldl (\<lambda>a b. a * 256 + unat b) 0 bs"

definition to_be_bytes :: "'a::len word \<Rightarrow> bytes" where
  "to_be_bytes w = nat_to_be (LENGTH('a) div 8) (unat w)"

definition from_be_bytes :: "bytes \<Rightarrow> 'a::len word" where
  "from_be_bytes bs = of_nat (nat_from_be bs)"

lemma nat_to_be_numeral:
  "nat_to_be (numeral v) x = nat_to_be (pred_numeral v) (x div 256) @ [of_nat (x mod 256)]"
  unfolding numeral_eq_Suc [of v] nat_to_be.simps by (rule refl)

lemma length_nat_to_be [simp, be_simps]: "length (nat_to_be n x) = n"
  by (induction n arbitrary: x) auto

lemma length_to_be_bytes [simp, be_simps]:
  "length (to_be_bytes (w :: 'a::len word)) = LENGTH('a) div 8"
  by (simp add: to_be_bytes_def)

lemma nat_from_be_Nil [simp, be_simps]: "nat_from_be [] = 0"
  by (simp add: nat_from_be_def)

lemma nat_from_be_snoc [be_simps]: "nat_from_be (bs @ [b]) = nat_from_be bs * 256 + unat b"
  by (simp add: nat_from_be_def)

lemma nat_from_be_Cons: "nat_from_be (b # bs) = unat b * 256 ^ length bs + nat_from_be bs"
proof (induction bs rule: rev_induct)
  case Nil
  then show ?case by (simp add: nat_from_be_def)
next
  case (snoc x xs)
  have "nat_from_be (b # xs @ [x]) = nat_from_be (b # xs) * 256 + unat x"
    using nat_from_be_snoc [of "b # xs" x] by simp
  with snoc show ?case
    by (simp add: nat_from_be_snoc algebra_simps)
qed

lemma unat_u8_less [simp]: "unat (b :: u8) < 256"
  using unsigned_less [of b, where ?'a = nat] by simp

lemma unat_of_nat_mod_256 [simp]: "unat (of_nat (x mod 256) :: u8) = x mod 256"
  by (simp add: unat_of_nat)

lemma nat_from_be_less: "nat_from_be bs < 256 ^ length bs"
proof (induction bs rule: rev_induct)
  case Nil
  then show ?case by simp
next
  case (snoc x xs)
  have "nat_from_be xs * 256 + unat x < (nat_from_be xs + 1) * 256"
    using unat_u8_less [of x] by simp
  also have "\<dots> \<le> 256 ^ length xs * 256"
    using snoc by (simp add: Suc_le_eq)
  finally show ?case by (simp add: nat_from_be_snoc mult.commute)
qed

lemma nat_from_be_nat_to_be [be_simps]: "nat_from_be (nat_to_be n x) = x mod 256 ^ n"
proof (induction n arbitrary: x)
  case 0
  then show ?case by simp
next
  case (Suc n)
  then show ?case
    by (simp add: nat_from_be_snoc mod_mult2_eq mult.commute)
qed

lemma nat_to_be_nat_from_be [be_simps]: "nat_to_be (length bs) (nat_from_be bs) = bs"
proof (induction bs rule: rev_induct)
  case Nil
  then show ?case by simp
next
  case (snoc b bs)
  have "(nat_from_be bs * 256 + unat b) div 256 = nat_from_be bs"
    using unat_u8_less [of b] by (simp add: div_add1_eq)
  moreover have "(nat_from_be bs * 256 + unat b) mod 256 = unat b"
    using unat_u8_less [of b] by (simp add: mod_add_eq)
  ultimately show ?case
    using snoc by (simp add: nat_from_be_snoc)
qed

lemma nat_from_be_replicate_zero [simp]: "nat_from_be (replicate k 0 @ bs) = nat_from_be bs"
  by (induction k) (auto simp: nat_from_be_Cons)

lemma nat_from_be_inj:
  assumes "length xs = length ys" and "nat_from_be xs = nat_from_be ys"
  shows "xs = ys"
  by (metis assms nat_to_be_nat_from_be)

lemma from_be_bytes_to_be_bytes:
  assumes "8 dvd LENGTH('a)"
  shows "from_be_bytes (to_be_bytes (w :: 'a::len word)) = w"
proof -
  have "(256 :: nat) ^ (LENGTH('a) div 8) = 2 ^ LENGTH('a)"
    using assms power_mult [of "2 :: nat" 8 "LENGTH('a) div 8"] by simp
  moreover have "unat w < 2 ^ LENGTH('a)"
    by (rule unsigned_less)
  ultimately show ?thesis
    by (simp add: from_be_bytes_def to_be_bytes_def nat_from_be_nat_to_be)
qed

lemma to_be_bytes_from_be_bytes:
  assumes "8 * length bs = LENGTH('a)"
  shows "to_be_bytes (from_be_bytes bs :: 'a::len word) = bs"
proof -
  have "(256 :: nat) ^ length bs = 2 ^ LENGTH('a)"
    using power_mult [of "2 :: nat" 8 "length bs"] by (simp add: assms [symmetric])
  moreover have "LENGTH('a) div 8 = length bs"
    by (simp add: assms [symmetric])
  ultimately show ?thesis
    using nat_from_be_less [of bs]
    by (simp add: from_be_bytes_def to_be_bytes_def unat_of_nat nat_to_be_nat_from_be)
qed

section \<open>Leading zero bytes\<close>

text \<open>
  Dropping the zero bytes at the front of a big-endian byte string keeps its value, and the
  number of bytes that are left is the number of bits rounded up to whole bytes. The lemmas
  relate the three ways in which the sources trim an integer: counting the zero bytes, dividing
  \<^verbatim>\<open>leading_zeros\<close> by eight, and the byte length.
\<close>

definition strip_zeros :: "bytes \<Rightarrow> bytes" where
  "strip_zeros bs = drop (length (takeWhile (\<lambda>b. b = 0) bs)) bs"

lemma strip_zeros_dropWhile: "strip_zeros bs = dropWhile (\<lambda>b. b = 0) bs"
  by (simp add: strip_zeros_def dropWhile_eq_drop)

lemma strip_zeros_decomp:
  "bs = replicate (length bs - length (strip_zeros bs)) 0 @ strip_zeros bs"
proof (induction bs)
  case Nil
  then show ?case by (simp add: strip_zeros_def)
next
  case (Cons b bs)
  show ?case
  proof (cases "b = 0")
    case True
    have "length (strip_zeros bs) \<le> length bs"
      by (simp add: strip_zeros_dropWhile length_dropWhile_le)
    with Cons True show ?thesis
      by (simp add: strip_zeros_dropWhile Suc_diff_le)
  next
    case False
    then show ?thesis by (simp add: strip_zeros_dropWhile)
  qed
qed

lemma length_strip_zeros_le: "length (strip_zeros bs) \<le> length bs"
  by (simp add: strip_zeros_dropWhile length_dropWhile_le)

lemma strip_zeros_hd: "strip_zeros bs \<noteq> [] \<Longrightarrow> hd (strip_zeros bs) \<noteq> 0"
  unfolding strip_zeros_dropWhile by (rule hd_dropWhile)

lemma strip_zeros_replicate [simp]:
  "bs = [] \<or> hd bs \<noteq> 0 \<Longrightarrow> strip_zeros (replicate k 0 @ bs) = bs"
  by (induction k) (auto simp: strip_zeros_dropWhile dropWhile_eq_self_iff)

lemma nat_from_be_strip_zeros [simp, be_simps]: "nat_from_be (strip_zeros bs) = nat_from_be bs"
  using arg_cong [OF strip_zeros_decomp [of bs], of nat_from_be]
  by (simp only: nat_from_be_replicate_zero)

lemma nat_from_be_bounds:
  assumes "bs \<noteq> []" and "hd bs \<noteq> 0"
  shows "256 ^ (length bs - 1) \<le> nat_from_be bs" and "nat_from_be bs < 256 ^ length bs"
proof -
  obtain b cs where bs: "bs = b # cs"
    using assms(1) by (cases bs) auto
  with assms(2) have "1 \<le> unat b"
    by (simp add: Suc_le_eq unat_gt_0)
  then have "256 ^ length cs \<le> unat b * 256 ^ length cs"
    by simp
  then show "256 ^ (length bs - 1) \<le> nat_from_be bs"
    by (simp add: bs nat_from_be_Cons trans_le_add1)
qed (rule nat_from_be_less)

text \<open>A byte string without a leading zero byte is determined by its value.\<close>

lemma trimmed_unique:
  assumes "xs = [] \<or> hd xs \<noteq> 0" and "ys = [] \<or> hd ys \<noteq> 0"
    and "nat_from_be xs = nat_from_be ys"
  shows "xs = ys"
proof -
  have small: "length us \<le> length vs"
    if "us = [] \<or> hd us \<noteq> 0" and "nat_from_be us = nat_from_be vs" for us vs
  proof (cases "us = []")
    case False
    with that have "256 ^ (length us - 1) \<le> nat_from_be vs"
      using nat_from_be_bounds(1) [of us] by simp
    then have "256 ^ (length us - 1) < (256 :: nat) ^ length vs"
      using nat_from_be_less le_less_trans by blast
    then have "length us - 1 < length vs"
      by (simp add: power_strict_increasing_iff)
    then show ?thesis by simp
  qed simp
  have "length xs = length ys"
    using small [of xs ys] small [of ys xs] assms by simp
  then show ?thesis
    using assms(3) by (rule nat_from_be_inj)
qed

lemma strip_zeros_trimmed: "strip_zeros bs = [] \<or> hd (strip_zeros bs) \<noteq> 0"
  using strip_zeros_hd by blast

lemma length_trimmed:
  assumes "bs = [] \<or> hd bs \<noteq> 0"
  shows "length bs = (bit_len (nat_from_be bs) + 7) div 8"
proof (cases "bs = []")
  case False
  with assms have lo: "256 ^ (length bs - 1) \<le> nat_from_be bs"
    and hi: "nat_from_be bs < 256 ^ length bs"
    using nat_from_be_bounds by auto
  have pow: "(256 :: nat) ^ n = 2 ^ (8 * n)" for n
    by (simp add: power_mult)
  have "bit_len (nat_from_be bs) \<le> 8 * length bs"
    using hi by (simp add: bit_len_le_iff pow)
  moreover have "\<not> bit_len (nat_from_be bs) \<le> 8 * (length bs - 1)"
    using lo by (simp add: bit_len_le_iff pow)
  ultimately have "(bit_len (nat_from_be bs) + 7) div 8 = length bs"
    using False by (intro div_nat_eqI) (auto simp: neq_Nil_conv)
  then show ?thesis by simp
qed simp

lemma ceil_div8:
  assumes "b \<le> 8 * k"
  shows "k - (8 * k - b) div 8 = (b + 7) div (8 :: nat)"
proof -
  define m where "m = (b + 7) div 8"
  have m: "8 * m \<le> b + 7" "b + 7 < 8 * m + 8"
    unfolding m_def using times_div_less_eq_dividend [of 8 "b + 7"] dividend_less_times_div [of 8 "b + 7"]
    by linarith+
  with assms have "m \<le> k" by linarith
  then have "(8 * k - b) div 8 = k - m"
    using m assms by (intro div_nat_eqI) auto
  with \<open>m \<le> k\<close> show ?thesis
    by (simp add: m_def)
qed

lemma length_strip_to_be:
  assumes "8 dvd LENGTH('a)"
  shows "length (strip_zeros (to_be_bytes (w :: 'a::len word)))
           = LENGTH('a) div 8 - leading_zeros w div 8"
proof -
  have pow: "(256 :: nat) ^ (LENGTH('a) div 8) = 2 ^ LENGTH('a)"
    using assms power_mult [of "2 :: nat" 8 "LENGTH('a) div 8"] by simp
  have less: "unat w < 2 ^ LENGTH('a)"
    by (rule unsigned_less)
  then have "nat_from_be (strip_zeros (to_be_bytes w)) = unat w"
    by (simp add: to_be_bytes_def nat_from_be_nat_to_be pow)
  then have "length (strip_zeros (to_be_bytes w)) = (bit_len (unat w) + 7) div 8"
    using length_trimmed [OF strip_zeros_trimmed] by simp
  moreover have "bit_len (unat w) \<le> LENGTH('a)"
    using less by (simp add: bit_len_le_iff)
  moreover obtain k where k: "LENGTH('a) = 8 * k"
    using assms by (rule dvdE)
  ultimately show ?thesis
    by (simp add: leading_zeros_def ceil_div8)
qed

end
