(* ===== verification/Rlp.thy ===== *)
theory Rlp
  imports Prelude
begin

text \<open>
  The RLP codec of \<^verbatim>\<open>crates/rlp\<close>: headers, byte strings, fixed-size arrays, the unsigned
  integers, booleans, IP addresses and lists. An encoder appends to its \<^verbatim>\<open>BufMut\<close>, so it is a
  function to the bytes it appends. A decoder reads from a cursor \<^verbatim>\<open>&mut &[u8]\<close>, so it returns
  the value and the bytes that are left; after an error no caller reads the cursor again. The
  lemmas show that decoding inverts encoding, that every decoder accepts only the canonical
  encoding, that the announced lengths are the lengths of the encodings and that no slice
  expression of a decoder is out of range.
\<close>

section \<open>Headers\<close>

record rlp_header =
  list_flag :: bool
  payload_length :: nat

definition EMPTY_STRING_CODE :: u8 where
  "EMPTY_STRING_CODE = 0x80"

definition EMPTY_LIST_CODE :: u8 where
  "EMPTY_LIST_CODE = 0xC0"

datatype decode_error =
    Overflow
  | LeadingZero
  | InputTooShort
  | NonCanonicalSingleByte
  | NonCanonicalSize
  | UnexpectedLength
  | UnexpectedString
  | UnexpectedList
  | ListLengthMismatch nat nat
  | Custom string

definition zeroless_view :: "bytes \<Rightarrow> bytes" where
  "zeroless_view v = drop (length (takeWhile (\<lambda>b. b = 0) v)) v"

definition header_encode :: "rlp_header \<Rightarrow> bytes" where
  "header_encode h =
     (if payload_length h < 56 then
        (let code = (if list_flag h then EMPTY_LIST_CODE else EMPTY_STRING_CODE)
         in [code + of_nat (payload_length h)])
      else
        (let len_be = zeroless_view (nat_to_be 8 (payload_length h));
             code = (if list_flag h then 0xF7 else 0xB7)
         in (code + of_nat (length len_be)) # len_be))"

definition header_length :: "rlp_header \<Rightarrow> nat" where
  "header_length h = length (header_encode h)"

definition length_of_length :: "nat \<Rightarrow> nat" where
  "length_of_length n =
     (if n < 56 then 1 else 1 + 8 - leading_zeros (of_nat n :: u64) div 8)"

definition static_left_pad :: "nat \<Rightarrow> bytes \<Rightarrow> bytes option" where
  "static_left_pad LEN data =
     (if length data > LEN then None
      else if data = [] then Some (replicate LEN 0)
      else if hd data = 0 then None
      else Some (replicate (LEN - length data) 0 @ data))"

text \<open>
  The two long branches of \<^verbatim>\<open>Header::decode\<close> read the same length field and differ in the base
  of the code and the list flag. On a 64-bit target \<^verbatim>\<open>usize::try_from(u64)\<close> does not fail.
\<close>

definition long_length :: "nat \<Rightarrow> bytes \<Rightarrow> decode_error + nat \<times> bytes" where
  "long_length len_of_len buf =
     (if length buf < len_of_len then Inl InputTooShort
      else and_then (ok_or (static_left_pad 8 (take len_of_len buf)) LeadingZero) (\<lambda>arr.
        (let n = nat_from_be arr; buf = drop len_of_len buf
         in if n < 56 then Inl NonCanonicalSize else Inr (n, buf))))"

definition header_decode :: "bytes \<Rightarrow> decode_error + rlp_header \<times> bytes" where
  "header_decode buf =
     (case buf of
        [] \<Rightarrow> Inl InputTooShort
      | b # rest \<Rightarrow>
          and_then
            (if b < 0x80 then
               Inr (\<lparr>list_flag = False, payload_length = 1\<rparr>, buf)
             else if b < 0xB8 then
               (let h = \<lparr>list_flag = False, payload_length = unat b - 0x80\<rparr>
                in if payload_length h = 1 then
                     (case rest of
                        [] \<Rightarrow> Inl InputTooShort
                      | c # _ \<Rightarrow> if c < 0x80 then Inl NonCanonicalSingleByte else Inr (h, rest))
                   else Inr (h, rest))
             else if b < 0xC0 then
               and_then (long_length (unat b - 0xB7) rest)
                 (\<lambda>(n, buf). Inr (\<lparr>list_flag = False, payload_length = n\<rparr>, buf))
             else if b < 0xF8 then
               Inr (\<lparr>list_flag = True, payload_length = unat b - 0xC0\<rparr>, rest)
             else
               and_then (long_length (unat b - 0xF7) rest)
                 (\<lambda>(n, buf). Inr (\<lparr>list_flag = True, payload_length = n\<rparr>, buf)))
            (\<lambda>(h, buf).
               if length buf < payload_length h then Inl InputTooShort else Inr (h, buf)))"

section \<open>Byte strings and arrays\<close>

definition slice_length :: "bytes \<Rightarrow> nat" where
  "slice_length s =
     length s +
     (if length s \<noteq> 1 \<or> hd s \<ge> EMPTY_STRING_CODE then length_of_length (length s) else 0)"

definition encode_slice :: "bytes \<Rightarrow> bytes" where
  "encode_slice s =
     (if length s \<noteq> 1 \<or> hd s \<ge> EMPTY_STRING_CODE
      then header_encode \<lparr>list_flag = False, payload_length = length s\<rparr> else []) @ s"

definition decode_bytes :: "bytes \<Rightarrow> decode_error + bytes \<times> bytes" where
  "decode_bytes from =
     and_then (header_decode from) (\<lambda>(h, from).
       if list_flag h then Inl UnexpectedList
       else Inr (take (payload_length h) from, drop (payload_length h) from))"

definition decode_array :: "nat \<Rightarrow> bytes \<Rightarrow> decode_error + bytes \<times> bytes" where
  "decode_array N from =
     and_then (header_decode from) (\<lambda>(h, from).
       if list_flag h then Inl UnexpectedList
       else if payload_length h \<noteq> N then Inl UnexpectedLength
       else Inr (take N from, drop N from))"

section \<open>Unsigned integers and booleans\<close>

definition uint_length :: "'a::len word \<Rightarrow> nat" where
  "uint_length w =
     (if w < 0x80 then 1 else 1 + LENGTH('a) div 8 - leading_zeros w div 8)"

definition encode_uint :: "'a::len word \<Rightarrow> bytes" where
  "encode_uint w =
     (if w = 0 then [EMPTY_STRING_CODE]
      else if w < 0x80 then [ucast w]
      else (let be = zeroless_view (to_be_bytes w)
            in (EMPTY_STRING_CODE + of_nat (length be)) # be))"

definition decode_uint :: "bytes \<Rightarrow> decode_error + ('a::len word) \<times> bytes" where
  "decode_uint buf =
     and_then (header_decode buf) (\<lambda>(h, buf).
       if list_flag h then Inl UnexpectedList
       else if payload_length h > LENGTH('a) div 8 then Inl Overflow
       else if length buf < payload_length h then Inl InputTooShort
       else if payload_length h = 0 then Inr (0, buf)
       else and_then
              (ok_or (static_left_pad (LENGTH('a) div 8) (take (payload_length h) buf)) LeadingZero)
              (\<lambda>arr. Inr (from_be_bytes arr, drop (payload_length h) buf)))"

text \<open>The two other encoders of fixed-width integers, \<^verbatim>\<open>fixed_uint_impl\<close> and \<^verbatim>\<open>fixed_revm_uint_impl\<close>.\<close>

definition encode_fixed_uint :: "'a::len word \<Rightarrow> bytes" where
  "encode_fixed_uint w =
     (let temp_arr = to_be_bytes w; sliced = drop (leading_zeros w div 8) temp_arr
      in encode_slice sliced)"

definition to_be_bytes_trimmed :: "'a::len word \<Rightarrow> bytes" where
  "to_be_bytes_trimmed w = strip_zeros (to_be_bytes w)"

definition byte_len :: "'a::len word \<Rightarrow> nat" where
  "byte_len w = (bit_len (unat w) + 7) div 8"

definition encode_ruint :: "'a::len word \<Rightarrow> bytes" where
  "encode_ruint w = encode_slice (to_be_bytes_trimmed w)"

definition ruint_length :: "'a::len word \<Rightarrow> nat" where
  "ruint_length w = (if w < 0x80 then 1 else 1 + byte_len w)"

text \<open>Their decoders are written out again for each of the two kinds of type.\<close>

definition decode_fixed_uint :: "bytes \<Rightarrow> decode_error + ('a::len word) \<times> bytes" where
  "decode_fixed_uint buf =
     and_then (header_decode buf) (\<lambda>(h, buf).
       if list_flag h then Inl UnexpectedList
       else if payload_length h > LENGTH('a) div 8 then Inl Overflow
       else if length buf < payload_length h then Inl InputTooShort
       else if payload_length h = 0 then Inr (0, buf)
       else and_then
              (ok_or (static_left_pad (LENGTH('a) div 8) (take (payload_length h) buf)) LeadingZero)
              (\<lambda>arr. Inr (from_be_bytes arr, drop (payload_length h) buf)))"

definition decode_ruint :: "bytes \<Rightarrow> decode_error + ('a::len word) \<times> bytes" where
  "decode_ruint buf =
     and_then (header_decode buf) (\<lambda>(h, buf).
       if list_flag h then Inl UnexpectedList
       else if payload_length h > LENGTH('a) div 8 then Inl Overflow
       else if length buf < payload_length h then Inl InputTooShort
       else if payload_length h = 0 then Inr (0, buf)
       else and_then
              (ok_or (static_left_pad (LENGTH('a) div 8) (take (payload_length h) buf)) LeadingZero)
              (\<lambda>arr. Inr (from_be_bytes arr, drop (payload_length h) buf)))"

text \<open>
  The number of bytes that \<^verbatim>\<open>max_encoded_len_uint\<close> promises for an integer type, the one of an
  array, and \<^verbatim>\<open>encode_fixed_size\<close>, which encodes into a buffer of that size: writing past its end
  panics, which is \<^term>\<open>None\<close>.
\<close>

definition max_encoded_len_uint :: "'a::len itself \<Rightarrow> nat" where
  "max_encoded_len_uint _ =
     length_of_length (length (to_be_bytes (- 1 :: 'a word))) + length (to_be_bytes (- 1 :: 'a word))"

definition max_encoded_len_array :: "nat \<Rightarrow> nat" where
  "max_encoded_len_array LEN = LEN + length_of_length LEN"

definition encode_fixed_size :: "nat \<Rightarrow> ('a \<Rightarrow> bytes) \<Rightarrow> 'a \<Rightarrow> bytes option" where
  "encode_fixed_size LEN enc v = (let out = enc v in if LEN < length out then None else Some out)"

definition encode_bool :: "bool \<Rightarrow> bytes" where
  "encode_bool b = encode_uint (of_bool b :: u8)"

definition decode_bool :: "bytes \<Rightarrow> decode_error + bool \<times> bytes" where
  "decode_bool buf =
     and_then (decode_uint buf :: decode_error + u8 \<times> bytes) (\<lambda>(v, buf).
       if v = 0 then Inr (False, buf)
       else if v = 1 then Inr (True, buf)
       else Inl (Custom ''invalid bool value, must be 0 or 1''))"

section \<open>IP addresses\<close>

datatype ip_addr = V4 bytes | V6 bytes

definition encode_ip :: "ip_addr \<Rightarrow> bytes" where
  "encode_ip ip = (case ip of V4 o4 \<Rightarrow> encode_slice o4 | V6 o6 \<Rightarrow> encode_slice o6)"

definition decode_ip :: "bytes \<Rightarrow> decode_error + ip_addr \<times> bytes" where
  "decode_ip buf =
     and_then (header_decode buf) (\<lambda>(h, buf).
       if list_flag h then Inl UnexpectedList
       else if payload_length h = 4 then Inr (V4 (take 4 buf), drop (payload_length h) buf)
       else if payload_length h = 16 then Inr (V6 (take 16 buf), drop (payload_length h) buf)
       else Inl UnexpectedLength)"

section \<open>Lists\<close>

definition rlp_list_header :: "('a \<Rightarrow> nat) \<Rightarrow> 'a list \<Rightarrow> rlp_header" where
  "rlp_list_header len v =
     foldl (\<lambda>h x. h\<lparr>payload_length := payload_length h + len x\<rparr>)
       \<lparr>list_flag = True, payload_length = 0\<rparr> v"

definition list_length :: "('a \<Rightarrow> nat) \<Rightarrow> 'a list \<Rightarrow> nat" where
  "list_length len v =
     (let n = payload_length (rlp_list_header len v) in length_of_length n + n)"

definition encode_list :: "('a \<Rightarrow> nat) \<Rightarrow> ('a \<Rightarrow> bytes) \<Rightarrow> 'a list \<Rightarrow> bytes" where
  "encode_list len enc v = header_encode (rlp_list_header len v) @ concat (map enc v)"

definition encode_iter :: "('a \<Rightarrow> nat) \<Rightarrow> ('a \<Rightarrow> bytes) \<Rightarrow> 'a list \<Rightarrow> bytes" where
  "encode_iter len enc i =
     (let h = foldl (\<lambda>h x. h\<lparr>payload_length := payload_length h + len x\<rparr>)
                \<lparr>list_flag = True, payload_length = 0\<rparr> i
      in header_encode h @ concat (map enc i))"

text \<open>
  The loop of \<^verbatim>\<open>Vec::decode\<close> runs until its view is empty. For an element decoder that does not
  consume anything it never returns, which is the value \<^term>\<open>None\<close> of the model.
\<close>

partial_function (option) decode_items ::
    "(bytes \<Rightarrow> decode_error + 'a \<times> bytes) \<Rightarrow> bytes \<Rightarrow> (decode_error + 'a list) option" where
  "decode_items dec view =
     (if view = [] then Some (Inr [])
      else (case dec view of
              Inl e \<Rightarrow> Some (Inl e)
            | Inr xv \<Rightarrow>
                Option.bind (decode_items dec (snd xv))
                  (\<lambda>r. Some (and_then r (\<lambda>xs. Inr (fst xv # xs))))))"

definition decode_vec ::
    "(bytes \<Rightarrow> decode_error + 'a \<times> bytes) \<Rightarrow> bytes \<Rightarrow> (decode_error + 'a list \<times> bytes) option" where
  "decode_vec dec buf =
     (case header_decode buf of
        Inl e \<Rightarrow> Some (Inl e)
      | Inr (h, buf) \<Rightarrow>
          if \<not> list_flag h then Some (Inl UnexpectedString)
          else map_option
                 (\<lambda>r. and_then r (\<lambda>to. Inr (to, drop (payload_length h) buf)))
                 (decode_items dec (take (payload_length h) buf)))"

text \<open>The view of \<^verbatim>\<open>struct Rlp\<close> over the items of one list.\<close>

definition rlp_new :: "bytes \<Rightarrow> decode_error + bytes" where
  "rlp_new payload =
     and_then (header_decode payload) (\<lambda>(h, payload).
       if \<not> list_flag h then Inl UnexpectedString
       else Inr (take (payload_length h) payload))"

definition rlp_get_next ::
    "(bytes \<Rightarrow> decode_error + 'a \<times> bytes) \<Rightarrow> bytes \<Rightarrow> decode_error + 'a option \<times> bytes" where
  "rlp_get_next dec view =
     (if view = [] then Inr (None, view)
      else and_then (dec view) (\<lambda>(x, view). Inr (Some x, view)))"


section \<open>The header codec\<close>

lemma zeroless_view_strip_zeros: "zeroless_view = strip_zeros"
  by (simp add: fun_eq_iff zeroless_view_def strip_zeros_def)

lemma u8_add_of_nat:
  assumes "unat c + k < 256"
  shows "unat (c + of_nat k :: u8) = unat c + k"
  using assms by (simp add: unat_word_ariths unat_of_nat)

text \<open>The length field of the long forms: between one and eight bytes, without a leading zero.\<close>

lemma length_field:
  assumes "56 \<le> n" and "n < 2 ^ 64"
  defines "be \<equiv> strip_zeros (nat_to_be 8 n)"
  shows "be \<noteq> []" and "hd be \<noteq> 0" and "length be \<le> 8" and "nat_from_be be = n"
proof -
  have "n mod 256 ^ 8 = n"
    using assms(2) by simp
  then show val: "nat_from_be be = n"
    unfolding be_def nat_from_be_strip_zeros nat_from_be_nat_to_be .
  then show ne: "be \<noteq> []"
    using assms(1) by auto
  then show "hd be \<noteq> 0"
    unfolding be_def by (rule strip_zeros_hd)
  show "length be \<le> 8"
    using length_strip_zeros_le [of "nat_to_be 8 n"] unfolding be_def length_nat_to_be .
qed

lemma static_left_pad_Some:
  "data \<noteq> [] \<Longrightarrow> hd data \<noteq> 0 \<Longrightarrow> length data \<le> LEN \<Longrightarrow>
   static_left_pad LEN data = Some (replicate (LEN - length data) 0 @ data)"
  by (simp add: static_left_pad_def)

lemma static_left_padE:
  assumes "static_left_pad LEN data = Some arr"
  shows "length data \<le> LEN" and "data = [] \<or> hd data \<noteq> 0"
    and "arr = replicate (LEN - length data) 0 @ data"
  using assms by (auto simp: static_left_pad_def split: if_splits)

lemma long_length_encode:
  assumes "56 \<le> n" and "n < 2 ^ 64"
  defines "be \<equiv> strip_zeros (nat_to_be 8 n)"
  shows "long_length (length be) (be @ rest) = Inr (n, rest)"
  using length_field [OF assms(1,2)] assms(1)
  by (simp add: be_def long_length_def static_left_pad_Some Let_def)

lemma long_length_decode:
  assumes "long_length k buf = Inr (n, rest)" and "0 < k"
  shows "56 \<le> n" and "n < 2 ^ 64" and "k = length (strip_zeros (nat_to_be 8 n))"
    and "buf = strip_zeros (nat_to_be 8 n) @ rest"
proof -
  define data where "data = take k buf"
  from assms(1) obtain arr where pad: "static_left_pad 8 data = Some arr"
    and k: "k \<le> length buf" and n: "n = nat_from_be arr" "56 \<le> n" and rest: "rest = drop k buf"
    by (auto simp: long_length_def data_def Let_def and_then_eq_Inr split: if_splits)
  note d = static_left_padE [OF pad]
  have val: "n = nat_from_be data"
    by (simp add: n d(3))
  have "nat_from_be data < 256 ^ length data"
    by (rule nat_from_be_less)
  also have "\<dots> \<le> 256 ^ 8"
    using d(1) by (intro power_increasing) auto
  finally show less: "n < 2 ^ 64"
    by (simp add: val)
  show "56 \<le> n" by (rule n(2))
  have "data = strip_zeros (nat_to_be 8 n)"
    by (rule trimmed_unique [OF d(2) strip_zeros_trimmed])
      (use length_field(4) [OF n(2) less] val in simp)
  moreover have "length data = k"
    using k by (simp add: data_def)
  moreover have "buf = data @ rest"
    by (simp add: data_def rest)
  ultimately show "k = length (strip_zeros (nat_to_be 8 n))"
    and "buf = strip_zeros (nat_to_be 8 n) @ rest" by simp_all
qed


lemmas header_code_defs = header_encode_def header_decode_def EMPTY_STRING_CODE_def
  EMPTY_LIST_CODE_def zeroless_view_strip_zeros Let_def word_less_nat_alt word_le_nat_alt

lemma header_decode_encode:
  assumes "payload_length h < 2 ^ 64" and "payload_length h \<le> length rest"
    and "\<not> list_flag h \<Longrightarrow> payload_length h = 1 \<Longrightarrow> 0x80 \<le> hd rest"
  shows "header_decode (header_encode h @ rest) = Inr (h, rest)"
proof (cases "payload_length h < 56")
  case True
  obtain l n where h: "h = \<lparr>list_flag = l, payload_length = n\<rparr>"
    by (cases h) auto
  with True have n: "n < 56" by simp
  have str: "unat (0x80 + of_nat n :: u8) = 0x80 + n" and lst: "unat (0xC0 + of_nat n :: u8) = 0xC0 + n"
    using n by (simp_all add: u8_add_of_nat)
  show ?thesis
  proof (cases l)
    case True
    then show ?thesis
      using n assms(2) lst by (simp add: header_code_defs h)
  next
    case False
    show ?thesis
    proof (cases "n = 1")
      case True
      then obtain c cs where "rest = c # cs"
        using assms(2) h by (cases rest) auto
      with True False assms show ?thesis
        by (simp add: header_code_defs h)
    next
      case n1: False
      with False show ?thesis
        using n assms(2) str by (simp add: header_code_defs h)
    qed
  qed
next
  case False
  obtain l n where h: "h = \<lparr>list_flag = l, payload_length = n\<rparr>"
    by (cases h) auto
  define be where "be = strip_zeros (nat_to_be 8 n)"
  have be: "be \<noteq> []" "length be \<le> 8"
    and long: "long_length (length be) (be @ rest) = Inr (n, rest)"
    using False assms(1) length_field [of n] long_length_encode [of n rest] h
    by (simp_all add: be_def)
  have len: "0 < length be" using be(1) by simp
  have str: "unat (0xB7 + of_nat (length be) :: u8) = 0xB7 + length be"
    and lst: "unat (0xF7 + of_nat (length be) :: u8) = 0xF7 + length be"
    using be(2) by (simp_all add: u8_add_of_nat)
  show ?thesis
    using False be(2) len str lst long assms(2) h
    by (simp add: header_code_defs be_def [symmetric])
qed

text \<open>
  Every header that decodes is canonical: either the byte is its own encoding and the cursor has
  not moved, or the bytes consumed are the encoding of the header. In both cases the payload is
  contained in what is left, so the slices that the callers take are in range.
\<close>

lemma header_decode_strict:
  assumes "header_decode buf = Inr (h, rest)"
  shows "payload_length h < 2 ^ 64 \<and> payload_length h \<le> length rest \<and>
    (rest = buf \<and> h = \<lparr>list_flag = False, payload_length = 1\<rparr> \<and> hd buf < 0x80 \<or>
     buf = header_encode h @ rest \<and>
     (\<not> list_flag h \<longrightarrow> payload_length h = 1 \<longrightarrow> 0x80 \<le> hd rest))"
proof -
  obtain b bs where buf: "buf = b # bs"
    using assms by (cases buf) (auto simp: header_decode_def)
  have in_range: "payload_length h \<le> length rest"
    using assms by (auto simp: header_decode_def buf and_then_eq_Inr split: if_splits)
  have b: "unat b < 256" by simp
  consider "unat b < 0x80" | "0x80 \<le> unat b" "unat b < 0xB8" | "0xB8 \<le> unat b" "unat b < 0xC0"
    | "0xC0 \<le> unat b" "unat b < 0xF8" | "0xF8 \<le> unat b"
    by linarith
  then show ?thesis
  proof cases
    case 1
    with assms in_range show ?thesis
      by (auto simp: header_decode_def buf word_less_nat_alt split: if_splits)
  next
    case 2
    have "0x80 + of_nat (unat b - 0x80) = b"
      using 2 by (simp add: of_nat_diff)
    moreover have "unat b - 0x80 < 56"
      using 2 by linarith
    ultimately have enc: "header_encode \<lparr>list_flag = False, payload_length = unat b - 0x80\<rparr> = [b]"
      by (simp add: header_encode_def EMPTY_STRING_CODE_def)
    from assms 2 have "h = \<lparr>list_flag = False, payload_length = unat b - 0x80\<rparr>" "rest = bs"
      and "unat b - 0x80 = 1 \<Longrightarrow> 0x80 \<le> hd bs"
      by (auto simp: header_decode_def buf word_less_nat_alt word_le_nat_alt Let_def and_then_eq_Inr
        split: list.splits if_splits)
    with enc 2 in_range show ?thesis by (simp add: buf)
  next
    case 3
    from assms 3 have l: "\<not> list_flag h"
      and ll: "long_length (unat b - 0xB7) bs = Inr (payload_length h, rest)"
      by (auto simp: header_decode_def buf word_less_nat_alt and_then_eq_Inr split: if_splits)
    have pos: "0 < unat b - 0xB7"
      using 3 by simp
    note dec = long_length_decode [OF ll pos]
    have "0xB7 + of_nat (unat b - 0xB7) = b"
      using 3 by (simp add: of_nat_diff)
    with l in_range dec(1,2,4) show ?thesis
      by (simp add: header_encode_def buf zeroless_view_strip_zeros Let_def dec(3) [symmetric])
  next
    case 4
    have "b = 0xC0 + of_nat (unat b - 0xC0)"
      using 4 by (simp add: of_nat_diff)
    with 4 assms in_range show ?thesis
      by (auto simp: header_code_defs buf and_then_eq_Inr split: if_splits)
  next
    case 5
    from assms 5 have l: "list_flag h"
      and ll: "long_length (unat b - 0xF7) bs = Inr (payload_length h, rest)"
      by (auto simp: header_decode_def buf word_less_nat_alt and_then_eq_Inr split: if_splits)
    have pos: "0 < unat b - 0xF7"
      using 5 by simp
    note dec = long_length_decode [OF ll pos]
    have "0xF7 + of_nat (unat b - 0xF7) = b"
      using 5 by (simp add: of_nat_diff)
    with l in_range dec(1,2,4) show ?thesis
      by (simp add: header_encode_def buf zeroless_view_strip_zeros Let_def dec(3) [symmetric])
  qed
qed


text \<open>
  All decoders of string items read a header and then its payload. The next two lemmas are what
  they share: the header of an encoded string announces the string, and a string header that
  decodes stands in front of a canonically encoded string.
\<close>

abbreviation string_header :: "nat \<Rightarrow> rlp_header" where
  "string_header n \<equiv> \<lparr>list_flag = False, payload_length = n\<rparr>"

lemma header_decode_slice:
  assumes "length s < 2 ^ 64"
  shows "header_decode (encode_slice s @ rest) = Inr (string_header (length s), s @ rest)"
proof (cases "length s \<noteq> 1 \<or> hd s \<ge> EMPTY_STRING_CODE")
  case True
  then have "0x80 \<le> hd (s @ rest)" if "length s = 1"
    using that by (cases s) (auto simp: EMPTY_STRING_CODE_def)
  with True assms show ?thesis
    using header_decode_encode [of "string_header (length s)" "s @ rest"]
    by (simp add: encode_slice_def)
next
  case False
  then obtain b where "s = [b]" "b < 0x80" "\<not> 0x80 \<le> b"
    by (cases s) (auto simp: EMPTY_STRING_CODE_def not_le)
  then show ?thesis
    by (simp add: encode_slice_def EMPTY_STRING_CODE_def header_decode_def)
qed

lemma header_decode_string:
  assumes "header_decode buf = Inr (h, rest)" and "\<not> list_flag h"
  shows "payload_length h \<le> length rest" and "payload_length h < 2 ^ 64"
    and "buf = encode_slice (take (payload_length h) rest) @ drop (payload_length h) rest"
proof -
  note strict = header_decode_strict [OF assms(1)]
  show le: "payload_length h \<le> length rest" and "payload_length h < 2 ^ 64"
    using strict by simp_all
  have h: "h = string_header (payload_length h)"
    using assms(2) by (cases h) simp
  show "buf = encode_slice (take (payload_length h) rest) @ drop (payload_length h) rest"
  proof (cases "rest = buf \<and> payload_length h = 1 \<and> hd buf < 0x80")
    case True
    then show ?thesis
      using le by (cases buf) (auto simp: encode_slice_def EMPTY_STRING_CODE_def)
  next
    case False
    with strict have "buf = header_encode h @ rest"
      and one: "payload_length h = 1 \<longrightarrow> 0x80 \<le> hd rest"
      using assms(2) by auto
    moreover have "encode_slice (take (payload_length h) rest)
        = header_encode h @ take (payload_length h) rest"
      using le one h by (cases rest) (auto simp: encode_slice_def EMPTY_STRING_CODE_def min_absorb2)
    ultimately show ?thesis by simp
  qed
qed

lemma header_encode_not_Nil [simp]: "header_encode h \<noteq> []"
  by (simp add: header_encode_def Let_def)

lemma encode_slice_not_Nil [simp]: "encode_slice s \<noteq> []"
  by (auto simp: encode_slice_def)

lemma length_header_encode:
  assumes "n < 2 ^ 64"
  shows "length (header_encode \<lparr>list_flag = l, payload_length = n\<rparr>) = length_of_length n"
proof (cases "n < 56")
  case True
  then show ?thesis
    by (simp add: header_encode_def length_of_length_def)
next
  case False
  have "nat_to_be 8 n = to_be_bytes (of_nat n :: u64)"
    using assms by (simp add: to_be_bytes_def unat_of_nat)
  moreover have "length (strip_zeros (to_be_bytes (of_nat n :: u64)))
      = 8 - leading_zeros (of_nat n :: u64) div 8"
    using length_strip_to_be [of "of_nat n :: u64"] by simp
  moreover have "leading_zeros (of_nat n :: u64) div 8 \<le> 8"
    by (simp add: leading_zeros_def div_le_mono [where n = 64 and k = 8, simplified])
  ultimately show ?thesis
    using False
    by (simp add: header_encode_def length_of_length_def zeroless_view_strip_zeros Let_def Suc_diff_le)
qed

lemma length_encode_slice:
  assumes "length s < 2 ^ 64"
  shows "slice_length s = length (encode_slice s)"
  using assms by (simp add: slice_length_def encode_slice_def length_header_encode)


section \<open>The interface of an item codec\<close>

text \<open>
  What the list codec relies on: \<open>len\<close> is the length that the encoder announces, \<open>enc\<close> and
  \<open>dec\<close> are inverse to each other, and an item is never encoded by nothing. The lemmas about
  lists are proved from these laws once and hold for every item type.
\<close>

locale rlp_item =
  fixes enc :: "'a \<Rightarrow> bytes"
    and len :: "'a \<Rightarrow> nat"
    and dec :: "bytes \<Rightarrow> decode_error + 'a \<times> bytes"
    and wf :: "'a \<Rightarrow> bool"
  assumes len_enc: "wf x \<Longrightarrow> len x = length (enc x)"
    and dec_enc: "wf x \<Longrightarrow> dec (enc x @ rest) = Inr (x, rest)"
    and enc_not_Nil: "wf x \<Longrightarrow> enc x \<noteq> []"
    and dec_strict: "dec buf = Inr (x, rest) \<Longrightarrow> wf x \<and> buf = enc x @ rest"
begin

lemma bind_enc [simp]: "wf x \<Longrightarrow> and_then (dec (enc x @ rest)) f = f (x, rest)"
  by (simp add: dec_enc)

lemma bindE:
  assumes "and_then (dec buf) (case_prod f) = Inr y"
  obtains x rest where "wf x" and "buf = enc x @ rest" and "f x rest = Inr y"
  using assms by (auto simp: and_then_eq_Inr dest: dec_strict)

lemma enc_inj: "wf x \<Longrightarrow> wf y \<Longrightarrow> enc x @ r = enc y @ s \<longleftrightarrow> x = y \<and> r = s"
proof
  assume wf: "wf x" "wf y" and "enc x @ r = enc y @ s"
  then have "dec (enc x @ r) = dec (enc y @ s)" by (simp only:)
  with wf show "x = y \<and> r = s" by (simp add: dec_enc)
qed simp

lemma try_bind_enc [simp]: "wf x \<Longrightarrow> and_then (try_res (dec (enc x @ rest))) f = f (x, rest)"
  by (simp add: dec_enc)

lemma try_bindE:
  assumes "and_then (try_res (dec buf)) (case_prod f) = Inr y"
  obtains x rest where "wf x" and "buf = enc x @ rest" and "f x rest = Inr y"
  using assms by (auto simp: and_then_eq_Inr dest: dec_strict)

lemma rlp_list_header_eq:
  assumes "list_all wf xs"
  shows "rlp_list_header len xs = \<lparr>list_flag = True, payload_length = length (concat (map enc xs))\<rparr>"
proof -
  have "foldl (\<lambda>h x. h\<lparr>payload_length := payload_length h + len x\<rparr>) \<lparr>list_flag = l, payload_length = n\<rparr> xs
      = \<lparr>list_flag = l, payload_length = n + length (concat (map enc xs))\<rparr>" for l n
    using assms by (induction xs arbitrary: n) (auto simp: len_enc)
  then show ?thesis
    by (simp add: rlp_list_header_def)
qed

lemma decode_items_encode:
  assumes "list_all wf xs"
  shows "decode_items dec (concat (map enc xs)) = Some (Inr xs)"
  using assms
proof (induction xs)
  case Nil
  then show ?case by (simp add: decode_items.simps)
next
  case (Cons x xs)
  then show ?case
    by (simp add: decode_items.simps [of dec "enc x @ concat (map enc xs)"] dec_enc enc_not_Nil)
qed

text \<open>Every round of the loop consumes a byte, so the loop returns on every input.\<close>

lemma decode_items_returns: "\<exists>r. decode_items dec view = Some r"
proof (induction view rule: length_induct)
  case (1 view)
  show ?case
  proof (cases "view = []")
    case True
    then show ?thesis by (simp add: decode_items.simps)
  next
    case nonempty: False
    show ?thesis
    proof (cases "dec view")
      case (Inl e)
      with nonempty show ?thesis by (simp add: decode_items.simps)
    next
      case (Inr xv)
      obtain x v where xv: "xv = (x, v)" by (cases xv)
      with Inr have "wf x" and "view = enc x @ v"
        using dec_strict by blast+
      then have "length v < length view"
        using enc_not_Nil by simp
      with "1.IH" obtain r where "decode_items dec v = Some r" by blast
      with nonempty Inr xv show ?thesis
        by (simp add: decode_items.simps [of dec view])
    qed
  qed
qed

lemma decode_items_strict:
  assumes "decode_items dec view = Some (Inr xs)"
  shows "list_all wf xs \<and> view = concat (map enc xs)"
  using assms
proof (induction xs arbitrary: view)
  case Nil
  then show ?case
    by (auto simp: decode_items.simps [of dec view] and_then_eq_Inr Option.bind_eq_Some_conv
      split: if_splits sum.splits)
next
  case (Cons y ys)
  from Cons.prems obtain v where "dec view = Inr (y, v)" and "decode_items dec v = Some (Inr ys)"
    by (subst (asm) decode_items.simps)
      (auto simp: and_then_eq_Inr Option.bind_eq_Some_conv split: if_splits sum.splits)
  with Cons.IH [of v] dec_strict [of view y v] show ?case by simp
qed

lemma decode_vec_encode_list:
  assumes "list_all wf xs" and "length (concat (map enc xs)) < 2 ^ 64"
  shows "decode_vec dec (encode_list len enc xs @ rest) = Some (Inr (xs, rest))"
  using assms decode_items_encode [OF assms(1)]
    header_decode_encode [of "rlp_list_header len xs" "concat (map enc xs) @ rest"]
  by (simp add: decode_vec_def encode_list_def rlp_list_header_eq)

lemma decode_vec_returns: "\<exists>r. decode_vec dec buf = Some r"
proof (cases "header_decode buf")
  case (Inr hb)
  obtain h b where "hb = (h, b)" by (cases hb)
  then show ?thesis
    using Inr decode_items_returns [of "take (payload_length h) b"] by (auto simp: decode_vec_def)
qed (simp add: decode_vec_def)

lemma decode_vec_strict:
  assumes "decode_vec dec buf = Some (Inr (xs, rest))"
  shows "list_all wf xs \<and> buf = encode_list len enc xs @ rest"
proof -
  from assms obtain h b where hd: "header_decode buf = Inr (h, b)" and l: "list_flag h"
    and it: "decode_items dec (take (payload_length h) b) = Some (Inr xs)"
    and rest: "rest = drop (payload_length h) b"
    by (auto simp: decode_vec_def and_then_eq_Inr split: sum.splits if_splits)
  note items = decode_items_strict [OF it]
  have bounds: "payload_length h \<le> length b" and buf: "buf = header_encode h @ b"
    using header_decode_strict [OF hd] l by auto
  have view: "take (payload_length h) b = concat (map enc xs)"
    using items by blast
  have "payload_length h = length (concat (map enc xs))"
    using arg_cong [OF view, of length] bounds by simp
  with l have "h = \<lparr>list_flag = True, payload_length = length (concat (map enc xs))\<rparr>"
    by (cases h) simp
  with items have "header_encode (rlp_list_header len xs) = header_encode h"
    by (simp add: rlp_list_header_eq)
  moreover have "b = concat (map enc xs) @ rest"
    by (simp add: view [symmetric] rest)
  ultimately show ?thesis
    using items buf by (simp add: encode_list_def)
qed

lemma decode_vec_iff:
  "decode_vec dec buf = Some (Inr (xs, rest)) \<longleftrightarrow>
     list_all wf xs \<and> length (concat (map enc xs)) < 2 ^ 64 \<and> buf = encode_list len enc xs @ rest"
  (is "?dec \<longleftrightarrow> ?enc")
proof
  assume dec: ?dec
  note strict = decode_vec_strict [OF dec]
  from dec obtain h b where hd: "header_decode buf = Inr (h, b)" and l: "list_flag h"
    by (auto simp: decode_vec_def and_then_eq_Inr split: sum.splits if_splits)
  have "header_encode h @ b = header_encode (rlp_list_header len xs) @ concat (map enc xs) @ rest"
    using header_decode_strict [OF hd] l strict by (auto simp: encode_list_def)
  moreover have "length (concat (map enc xs)) = length (take (payload_length h) b)"
    using dec hd l decode_items_strict [of "take (payload_length h) b" xs]
    by (auto simp: decode_vec_def and_then_eq_Inr)
  ultimately show ?enc
    using strict header_decode_strict [OF hd] by auto
next
  assume ?enc
  then show ?dec by (simp add: decode_vec_encode_list)
qed

lemma list_length_encode_list:
  assumes "list_all wf xs" and "length (concat (map enc xs)) < 2 ^ 64"
  shows "list_length len xs = length (encode_list len enc xs)"
  using assms
  by (simp add: list_length_def encode_list_def rlp_list_header_eq length_header_encode Let_def)

text \<open>Reading the items of a list through the view of \<^verbatim>\<open>struct Rlp\<close>.\<close>

lemma rlp_get_next_encode:
  assumes "wf x"
  shows "rlp_get_next dec (enc x @ rest) = Inr (Some x, rest)"
  using assms by (simp add: rlp_get_next_def dec_enc enc_not_Nil)

end


section \<open>Codecs of the string items\<close>

lemma decode_bytes_encode:
  "length s < 2 ^ 64 \<Longrightarrow> decode_bytes (encode_slice s @ rest) = Inr (s, rest)"
  by (simp add: decode_bytes_def header_decode_slice)

lemma decode_bytes_strict:
  assumes "decode_bytes buf = Inr (s, rest)"
  shows "length s < 2 ^ 64 \<and> buf = encode_slice s @ rest"
proof -
  from assms obtain h b where hd: "header_decode buf = Inr (h, b)" and l: "\<not> list_flag h"
    and s: "s = take (payload_length h) b" "rest = drop (payload_length h) b"
    by (auto simp: decode_bytes_def and_then_eq_Inr split: if_splits)
  show ?thesis
    using header_decode_string [OF hd l] by (simp add: s)
qed

lemma decode_array_encode:
  "length s = N \<Longrightarrow> N < 2 ^ 64 \<Longrightarrow> decode_array N (encode_slice s @ rest) = Inr (s, rest)"
  by (simp add: decode_array_def header_decode_slice)

lemma decode_array_strict:
  assumes "decode_array N buf = Inr (s, rest)"
  shows "length s = N \<and> buf = encode_slice s @ rest"
proof -
  from assms obtain h b where hd: "header_decode buf = Inr (h, b)" and l: "\<not> list_flag h"
    and N: "payload_length h = N" and s: "s = take N b" "rest = drop N b"
    by (auto simp: decode_array_def and_then_eq_Inr split: if_splits)
  show ?thesis
    using header_decode_string [OF hd l] by (simp add: s N)
qed

interpretation rlp_bytes: rlp_item encode_slice slice_length decode_bytes "\<lambda>s. length s < 2 ^ 64"
  by unfold_locales
    (auto simp: length_encode_slice decode_bytes_encode dest: decode_bytes_strict)

interpretation rlp_h256: rlp_item encode_slice slice_length "decode_array 32" "\<lambda>s. length s = 32"
  by unfold_locales (simp_all add: length_encode_slice decode_array_encode decode_array_strict)

interpretation rlp_bloom: rlp_item encode_slice slice_length "decode_array 256" "\<lambda>s. length s = 256"
  by unfold_locales (simp_all add: length_encode_slice decode_array_encode decode_array_strict)

interpretation rlp_h64: rlp_item encode_slice slice_length "decode_array 8" "\<lambda>s. length s = 8"
  by unfold_locales (simp_all add: length_encode_slice decode_array_encode decode_array_strict)

interpretation rlp_h160: rlp_item encode_slice slice_length "decode_array 20" "\<lambda>s. length s = 20"
  by unfold_locales (simp_all add: length_encode_slice decode_array_encode decode_array_strict)

text \<open>
  The integers. An integer of at most 55 bytes is encoded as the string of its bytes without
  leading zeros, whichever of the three encoders is used.
\<close>

abbreviation rlp_width :: "nat \<Rightarrow> bool" where
  "rlp_width n \<equiv> 8 dvd n \<and> 8 \<le> n \<and> n < 448"

lemma uint_width_pow:
  assumes "8 dvd n"
  shows "(256 :: nat) ^ (n div 8) = 2 ^ n"
  using assms power_mult [of "2 :: nat" 8 "n div 8"] by simp

lemma nat_from_be_to_be_bytes [simp]:
  assumes "8 dvd LENGTH('a)"
  shows "nat_from_be (to_be_bytes (w :: 'a::len word)) = unat w"
  by (simp add: to_be_bytes_def nat_from_be_nat_to_be uint_width_pow assms)

lemma unat_less_0x80:
  assumes "8 \<le> LENGTH('a)"
  shows "(w :: 'a::len word) < 0x80 \<longleftrightarrow> unat w < 0x80"
proof -
  have "(0x80 :: nat) < 2 ^ 8" by simp
  also have "\<dots> \<le> 2 ^ LENGTH('a)"
    using assms by (intro power_increasing) auto
  finally have "unat (0x80 :: 'a word) = 0x80"
    by (simp add: unsigned_numeral take_bit_nat_eq_self)
  then show ?thesis
    by (simp add: word_less_nat_alt)
qed

lemma encode_uint_slice:
  assumes "rlp_width LENGTH('a)"
  shows "encode_uint (w :: 'a::len word) = encode_slice (strip_zeros (to_be_bytes w))"
proof -
  define be where "be = strip_zeros (to_be_bytes w)"
  have val: "nat_from_be be = unat w"
    using assms by (simp add: be_def)
  have trim: "be = [] \<or> hd be \<noteq> 0"
    unfolding be_def by (rule strip_zeros_trimmed)
  have "length be \<le> LENGTH('a) div 8"
    using length_strip_zeros_le [of "to_be_bytes w"] by (simp add: be_def)
  moreover have "LENGTH('a) div 8 < 56"
    using assms by (simp add: div_less_iff_less_mult)
  ultimately have len: "length be < 56" by simp
  consider "w = 0" | "w \<noteq> 0" "unat w < 0x80" | "0x80 \<le> unat w"
    by linarith
  then have "encode_uint w = encode_slice be"
  proof cases
    case 1
    then have "be = []"
      using trimmed_unique [OF trim, of "[]"] val by simp
    with 1 show ?thesis
      by (simp add: encode_uint_def encode_slice_def header_encode_def EMPTY_STRING_CODE_def)
  next
    case 2
    have uc: "unat (ucast w :: u8) = unat w"
      using 2 by (simp add: unsigned_ucast_eq take_bit_nat_eq_self)
    moreover have "(ucast w :: u8) \<noteq> 0"
      using 2 uc by (metis unat_0 unat_eq_zero)
    ultimately have "be = [ucast w]"
      using trimmed_unique [OF trim, of "[ucast w]"] val by (simp add: nat_from_be_Cons)
    with 2 uc assms show ?thesis
      by (simp add: encode_uint_def encode_slice_def unat_less_0x80 EMPTY_STRING_CODE_def word_le_nat_alt)
  next
    case 3
    have "0x80 \<le> hd be" if "length be = 1"
      using that val 3 by (cases be) (auto simp: nat_from_be_Cons word_le_nat_alt)
    with 3 len assms show ?thesis
      by (auto simp: encode_uint_def encode_slice_def unat_less_0x80 header_encode_def
          zeroless_view_strip_zeros be_def [symmetric] EMPTY_STRING_CODE_def Let_def)
  qed
  then show ?thesis by (simp add: be_def)
qed


lemma decode_uint_slice:
  assumes "s = [] \<or> hd s \<noteq> 0" and "length s \<le> LENGTH('a) div 8" and "length s < 2 ^ 64"
  shows "decode_uint (encode_slice s @ rest) = Inr (from_be_bytes s :: 'a::len word, rest)"
proof (cases "s = []")
  case True
  then show ?thesis
    using header_decode_slice [of s rest] by (simp add: decode_uint_def from_be_bytes_def)
next
  case False
  with assms show ?thesis
    using header_decode_slice [of s rest]
    by (simp add: decode_uint_def static_left_pad_Some from_be_bytes_def)
qed

lemma decode_uint_encode:
  assumes "rlp_width LENGTH('a)"
  shows "decode_uint (encode_uint w @ rest) = Inr (w :: 'a::len word, rest)"
proof -
  define be where "be = strip_zeros (to_be_bytes w)"
  have "be = [] \<or> hd be \<noteq> 0"
    unfolding be_def by (rule strip_zeros_trimmed)
  moreover have len: "length be \<le> LENGTH('a) div 8"
    using length_strip_zeros_le [of "to_be_bytes w"] by (simp add: be_def)
  moreover have "LENGTH('a) div 8 < 56"
    using assms by (simp add: div_less_iff_less_mult)
  then have "length be < 2 ^ 64"
    using len by simp
  moreover have "(from_be_bytes be :: 'a word) = w"
    using assms by (simp add: be_def from_be_bytes_def)
  ultimately show ?thesis
    using decode_uint_slice [of be rest, where 'a = 'a] assms
    by (simp add: encode_uint_slice be_def)
qed

lemma decode_uint_strict:
  assumes "rlp_width LENGTH('a)"
    and "decode_uint buf = Inr (w :: 'a::len word, rest)"
  shows "buf = encode_uint w @ rest"
proof -
  from assms(2) obtain h b where hd: "header_decode buf = Inr (h, b)" and l: "\<not> list_flag h"
    and small: "payload_length h \<le> LENGTH('a) div 8"
    and rest: "rest = drop (payload_length h) b"
    and w: "payload_length h = 0 \<and> w = 0 \<or>
      (\<exists>arr. static_left_pad (LENGTH('a) div 8) (take (payload_length h) b) = Some arr
        \<and> w = from_be_bytes arr)"
    by (auto simp: decode_uint_def and_then_eq_Inr split: if_splits)
  define s where "s = take (payload_length h) b"
  note str = header_decode_string [OF hd l]
  have trim: "s = [] \<or> hd s \<noteq> 0" and val: "w = from_be_bytes s"
    using w str(1) static_left_padE [of "LENGTH('a) div 8" s]
    by (auto simp: s_def from_be_bytes_def)
  have "nat_from_be s < 256 ^ length s"
    by (rule nat_from_be_less)
  also have "\<dots> \<le> 256 ^ (LENGTH('a) div 8)"
    using small by (intro power_increasing) (auto simp: s_def)
  finally have "nat_from_be s < 2 ^ LENGTH('a)"
    using assms(1) by (simp add: uint_width_pow)
  then have "unat w = nat_from_be s"
    by (simp add: val from_be_bytes_def unat_of_nat)
  then have "strip_zeros (to_be_bytes w) = s"
    using trimmed_unique [OF strip_zeros_trimmed trim, of "to_be_bytes w"] assms(1) by simp
  then show ?thesis
    using str(3) assms(1) by (simp add: encode_uint_slice s_def rest)
qed

lemma length_encode_uint:
  assumes "rlp_width LENGTH('a)"
  shows "uint_length (w :: 'a::len word) = length (encode_uint w)"
proof -
  have "leading_zeros w div 8 \<le> LENGTH('a) div 8"
    by (simp add: leading_zeros_def div_le_mono)
  then show ?thesis
    using assms length_strip_to_be [of w]
    by (simp add: uint_length_def encode_uint_def zeroless_view_strip_zeros unat_less_0x80 Let_def
        Suc_diff_le)
qed

lemma encode_uint_not_Nil [simp]: "encode_uint w \<noteq> []"
  by (simp add: encode_uint_def Let_def)

lemma uint_item:
  assumes "rlp_width LENGTH('a)"
  shows "rlp_item (encode_uint :: 'a::len word \<Rightarrow> bytes) uint_length decode_uint (\<lambda>_. True)"
  by unfold_locales
    (simp_all add: length_encode_uint [OF assms] decode_uint_encode [OF assms]
      decode_uint_strict [OF assms])

interpretation rlp_u64: rlp_item "encode_uint :: u64 \<Rightarrow> bytes" uint_length decode_uint "\<lambda>_. True"
  by (rule uint_item) simp

interpretation rlp_u128: rlp_item "encode_uint :: u128 \<Rightarrow> bytes" uint_length decode_uint "\<lambda>_. True"
  by (rule uint_item) simp

interpretation rlp_u8: rlp_item "encode_uint :: u8 \<Rightarrow> bytes" uint_length decode_uint "\<lambda>_. True"
  by (rule uint_item) simp

lemma encode_fixed_uint_eq:
  assumes "rlp_width LENGTH('a)"
  shows "encode_fixed_uint (w :: 'a::len word) = encode_uint w"
proof -
  have "drop (leading_zeros w div 8) (to_be_bytes w) = strip_zeros (to_be_bytes w)"
  proof -
    have le: "leading_zeros w div 8 \<le> LENGTH('a) div 8"
      by (simp add: leading_zeros_def div_le_mono)
    have "length (strip_zeros (to_be_bytes w)) = LENGTH('a) div 8 - leading_zeros w div 8"
      using assms by (simp add: length_strip_to_be)
    then have "length (to_be_bytes w) - length (strip_zeros (to_be_bytes w)) = leading_zeros w div 8"
      using le by simp
    then show ?thesis
      using arg_cong [OF strip_zeros_decomp [of "to_be_bytes w"], of "drop (leading_zeros w div 8)"]
      by simp
  qed
  then show ?thesis
    using assms by (simp add: encode_fixed_uint_def encode_uint_slice)
qed

lemma encode_ruint_eq:
  assumes "rlp_width LENGTH('a)"
  shows "encode_ruint (w :: 'a::len word) = encode_uint w"
  using assms by (simp add: encode_ruint_def to_be_bytes_trimmed_def encode_uint_slice)

lemma ruint_length_eq:
  assumes "rlp_width LENGTH('a)"
  shows "ruint_length (w :: 'a::len word) = uint_length w"
proof -
  have "length (strip_zeros (to_be_bytes w)) = byte_len w"
    using length_trimmed [OF strip_zeros_trimmed, of "to_be_bytes w"] assms
    by (simp add: byte_len_def)
  moreover have "leading_zeros w div 8 \<le> LENGTH('a) div 8"
    by (simp add: leading_zeros_def div_le_mono)
  ultimately show ?thesis
    using assms length_strip_to_be [of w]
    by (simp add: ruint_length_def uint_length_def Suc_diff_le)
qed

lemma decode_fixed_uint_eq: "decode_fixed_uint = decode_uint"
  by (simp add: fun_eq_iff decode_fixed_uint_def decode_uint_def)

lemma decode_ruint_eq: "decode_ruint = decode_uint"
  by (simp add: fun_eq_iff decode_ruint_def decode_uint_def)

lemma ruint_item:
  assumes "rlp_width LENGTH('a)"
  shows "rlp_item (encode_ruint :: 'a::len word \<Rightarrow> bytes) ruint_length decode_ruint (\<lambda>_. True)"
proof -
  have "encode_ruint = (encode_uint :: 'a word \<Rightarrow> bytes)"
    and "ruint_length = (uint_length :: 'a word \<Rightarrow> nat)"
    using assms by (simp_all add: fun_eq_iff encode_ruint_eq ruint_length_eq)
  with uint_item [OF assms] show ?thesis by (simp add: decode_ruint_eq)
qed

interpretation rlp_u256: rlp_item "encode_ruint :: u256 \<Rightarrow> bytes" ruint_length decode_ruint "\<lambda>_. True"
  by (rule ruint_item) simp


lemma uint_length_le: "uint_length (w :: 'a::len word) \<le> 1 + LENGTH('a) div 8"
  by (simp add: uint_length_def)

lemma max_encoded_len_uint_eq:
  "max_encoded_len_uint TYPE('a::len) = length_of_length (LENGTH('a) div 8) + LENGTH('a) div 8"
  by (simp add: max_encoded_len_uint_def)

lemma slice_length_le: "slice_length s \<le> max_encoded_len_array (length s)"
  by (simp add: slice_length_def max_encoded_len_array_def)

section \<open>Booleans and IP addresses\<close>

lemma decode_bool_encode: "decode_bool (encode_bool b @ rest) = Inr (b, rest)"
  by (simp add: decode_bool_def encode_bool_def decode_uint_encode)

lemma decode_bool_strict:
  assumes "decode_bool buf = Inr (b, rest)"
  shows "buf = encode_bool b @ rest"
proof -
  from assms obtain v :: u8 where dec: "decode_uint buf = Inr (v, rest)" and "v = of_bool b"
    by (auto simp: decode_bool_def and_then_eq_Inr split: if_splits)
  with decode_uint_strict [OF _ dec] show ?thesis
    by (simp add: encode_bool_def)
qed

definition ip_wf :: "ip_addr \<Rightarrow> bool" where
  "ip_wf ip = (case ip of V4 o4 \<Rightarrow> length o4 = 4 | V6 o6 \<Rightarrow> length o6 = 16)"

lemma decode_ip_encode: "ip_wf ip \<Longrightarrow> decode_ip (encode_ip ip @ rest) = Inr (ip, rest)"
  by (cases ip) (simp_all add: ip_wf_def decode_ip_def encode_ip_def header_decode_slice)

lemma decode_ip_strict:
  assumes "decode_ip buf = Inr (ip, rest)"
  shows "ip_wf ip \<and> buf = encode_ip ip @ rest"
proof -
  from assms obtain h b where hd: "header_decode buf = Inr (h, b)" and l: "\<not> list_flag h"
    and ip: "payload_length h = 4 \<and> ip = V4 (take 4 b) \<or> payload_length h = 16 \<and> ip = V6 (take 16 b)"
    and rest: "rest = drop (payload_length h) b"
    by (auto simp: decode_ip_def and_then_eq_Inr split: if_splits)
  show ?thesis
    using header_decode_string [OF hd l] ip rest by (auto simp: ip_wf_def encode_ip_def)
qed

section \<open>Properties\<close>

text \<open>C9. The header decoder accepts exactly the canonical headers: it returns \<open>h\<close> and the rest of
  the input if and only if the input is the encoding of \<open>h\<close> followed by that rest (or is a single
  byte below 0x80, which stands for itself and is not consumed), the payload is completely
  contained in the rest, and a one-byte string is not one that had to be encoded as itself.\<close>

theorem header_decode_iff:
  "header_decode buf = Inr (h, rest) \<longleftrightarrow>
     payload_length h < 2 ^ 64 \<and> payload_length h \<le> length rest \<and>
     (if h = \<lparr>list_flag = False, payload_length = 1\<rparr> \<and> hd rest < 0x80
      then buf = rest else buf = header_encode h @ rest)"
  (is "?dec \<longleftrightarrow> ?enc")
proof
  assume dec: ?dec
  have "\<not> (list_flag h = False \<and> payload_length h = 1 \<and> hd rest < 0x80)"
    if "\<not> list_flag h \<longrightarrow> payload_length h = 1 \<longrightarrow> 0x80 \<le> hd rest"
    using that by auto
  with header_decode_strict [OF dec] show ?enc
    by (cases h) auto
next
  assume enc: ?enc
  show ?dec
  proof (cases "h = \<lparr>list_flag = False, payload_length = 1\<rparr> \<and> hd rest < 0x80")
    case True
    with enc obtain b bs where "buf = b # bs" "rest = buf" "b < 0x80"
      by (cases rest) auto
    with True show ?thesis by (simp add: header_decode_def)
  next
    case False
    then have "0x80 \<le> hd rest" if "\<not> list_flag h" "payload_length h = 1"
      using that by (cases h) auto
    with False enc show ?thesis
      using header_decode_encode [of h rest] by auto
  qed
qed

text \<open>The codec of the 256-bit integers is a bijection between integers and accepted inputs:
  decoding gives \<open>w\<close> exactly on the canonical encoding of \<open>w\<close>, so no integer has a second encoding,
  with leading zeros or with an oversized header, that the decoder accepts.\<close>

theorem decode_u256_iff:
  "decode_ruint buf = Inr (w :: u256, rest) \<longleftrightarrow> buf = encode_ruint w @ rest"
  using rlp_u256.dec_enc [OF TrueI, of w rest] rlp_u256.dec_strict [of buf w rest] by blast

text \<open>The three codecs of integers, the one for the machine integers, the one for
  \<^verbatim>\<open>ethereum_types\<close> and the one for \<^verbatim>\<open>ruint\<close>, produce the same bytes and accept the same bytes, and
  the two length functions announce exactly their number.\<close>

theorem uint_codecs_agree:
  fixes w :: u256 and v :: u128
  shows "encode_ruint w = encode_uint w \<and> encode_fixed_uint w = encode_uint w \<and>
    ruint_length w = length (encode_ruint w) \<and> uint_length w = length (encode_fixed_uint w) \<and>
    encode_ruint v = encode_uint v \<and> encode_fixed_uint v = encode_uint v \<and>
    ruint_length v = length (encode_ruint v) \<and> uint_length v = length (encode_fixed_uint v) \<and>
    (decode_ruint buf :: decode_error + u256 \<times> bytes) = decode_uint buf \<and>
    (decode_fixed_uint buf :: decode_error + u256 \<times> bytes) = decode_uint buf"
  by (simp add: encode_ruint_eq encode_fixed_uint_eq ruint_length_eq length_encode_uint
      decode_ruint_eq decode_fixed_uint_eq)

text \<open>C20. The list decoder returns on every input, and it returns the list \<open>xs\<close> of byte strings
  exactly on the encoding of \<open>xs\<close>.\<close>

theorem decode_vec_bytes_iff:
  "(\<exists>r. decode_vec decode_bytes buf = Some r) \<and>
   (decode_vec decode_bytes buf = Some (Inr (xs, rest)) \<longleftrightarrow>
      list_all (\<lambda>s. length s < 2 ^ 64) xs \<and> length (concat (map encode_slice xs)) < 2 ^ 64 \<and>
      buf = encode_list slice_length encode_slice xs @ rest)"
  using rlp_bytes.decode_vec_returns rlp_bytes.decode_vec_iff by blast

text \<open>The size promised by \<^verbatim>\<open>MaxEncodedLen\<close> for the integers is enough for every value, so
  \<^verbatim>\<open>encode_fixed_size\<close> does not write past the end of its buffer and returns the encoding.\<close>

theorem encode_fixed_size_total:
  fixes w :: u64 and v :: u256
  shows "encode_fixed_size (max_encoded_len_uint TYPE(64)) encode_uint w = Some (encode_uint w) \<and>
    encode_fixed_size (max_encoded_len_uint TYPE(256)) encode_ruint v = Some (encode_ruint v)"
  using uint_length_le [of w] uint_length_le [of v]
  by (simp add: encode_fixed_size_def max_encoded_len_uint_eq encode_ruint_eq length_encode_uint
      length_of_length_def Let_def)

end
