(* ===== verification/Compact.thy ===== *)
theory Compact
  imports Prelude
begin

text \<open>
  The \<^verbatim>\<open>Compact\<close> codec of the database, \<^verbatim>\<open>crates/storage/codecs\<close>. \<^verbatim>\<open>to_compact\<close> appends to a buffer
  and returns a number that the caller stores beside the value: here it is a function to the bytes
  and that number. \<^verbatim>\<open>from_compact\<close> gets the buffer and the number and returns the value with the
  rest of the buffer; a slice out of range, an \<^verbatim>\<open>expect\<close> that fails or a short read panics, which
  is \<^term>\<open>None\<close>. The lemmas show when decoding inverts encoding.
\<close>

section \<open>Definitions\<close>

type_synonym 'a to_compact = "'a \<Rightarrow> bytes \<times> nat"
type_synonym 'a from_compact = "bytes \<Rightarrow> nat \<Rightarrow> ('a \<times> bytes) option"

text \<open>Fixed-width integers: \<^verbatim>\<open>u64\<close> and \<^verbatim>\<open>u128\<close> by the macro, and \<^verbatim>\<open>U256\<close>.\<close>

definition uint_to_compact :: "('a::len word) to_compact" where
  "uint_to_compact w =
     (let leading = leading_zeros w div 8
      in (drop leading (to_be_bytes w), LENGTH('a) div 8 - leading))"

definition uint_from_compact :: "('a::len word) from_compact" where
  "uint_from_compact buf len =
     (if len > 0 then
        (if LENGTH('a) div 8 < len \<or> length buf < len then None
         else Some (from_be_bytes (replicate (LENGTH('a) div 8 - len) 0 @ take len buf), drop len buf))
      else Some (0, buf))"

definition u256_to_compact :: "u256 to_compact" where
  "u256_to_compact w =
     (let inner = to_be_bytes w; size = 32 - leading_zeros w div 8
      in (drop (32 - size) inner, size))"

definition u256_from_compact :: "u256 from_compact" where
  "u256_from_compact buf len =
     (if len > 0 then
        (if 32 < len \<or> length buf < len then None
         else Some (from_be_bytes (replicate (32 - len) 0 @ take len buf), drop len buf))
      else Some (0, buf))"

text \<open>\<^verbatim>\<open>put_u16\<close> and \<^verbatim>\<open>get_u16\<close> of the buffer; a length is cast \<^verbatim>\<open>as u16\<close> before it is written.\<close>

definition put_u16 :: "nat \<Rightarrow> bytes" where
  "put_u16 n = to_be_bytes (of_nat n :: u16)"

definition get_u16 :: "bytes \<Rightarrow> (nat \<times> bytes) option" where
  "get_u16 buf =
     (if length buf < 2 then None
      else Some (unat (from_be_bytes (take 2 buf) :: u16), drop 2 buf))"

definition vec_to_compact :: "'a to_compact \<Rightarrow> 'a list to_compact" where
  "vec_to_compact to_c xs =
     (put_u16 (length xs) @
      concat (map (\<lambda>element. let (inner, len) = to_c element in put_u16 len @ inner) xs), 0)"

fun vec_from_loop :: "'a from_compact \<Rightarrow> nat \<Rightarrow> bytes \<Rightarrow> 'a list \<Rightarrow> ('a list \<times> bytes) option" where
  "vec_from_loop from_c 0 buf list = Some (list, buf)"
| "vec_from_loop from_c (Suc n) buf list =
     (case get_u16 buf of
        None \<Rightarrow> None
      | Some (len, buf) \<Rightarrow>
          if length buf < len then None
          else (case from_c (take len buf) len of
                  None \<Rightarrow> None
                | Some (element, _) \<Rightarrow> vec_from_loop from_c n (drop len buf) (list @ [element])))"

definition vec_from_compact :: "'a from_compact \<Rightarrow> 'a list from_compact" where
  "vec_from_compact from_c buf _ =
     (case get_u16 buf of
        None \<Rightarrow> None
      | Some (n, buf) \<Rightarrow> vec_from_loop from_c n buf [])"

definition vec_specialized_to_compact :: "'a to_compact \<Rightarrow> 'a list to_compact" where
  "vec_specialized_to_compact to_c xs =
     (put_u16 (length xs) @ concat (map (\<lambda>element. fst (to_c element)) xs), 0)"

fun vec_specialized_from_loop ::
    "'a from_compact \<Rightarrow> nat \<Rightarrow> nat \<Rightarrow> bytes \<Rightarrow> 'a list \<Rightarrow> ('a list \<times> bytes) option" where
  "vec_specialized_from_loop from_c len 0 buf list = Some (list, buf)"
| "vec_specialized_from_loop from_c len (Suc n) buf list =
     (case from_c buf len of
        None \<Rightarrow> None
      | Some (element, buf) \<Rightarrow> vec_specialized_from_loop from_c len n buf (list @ [element]))"

definition vec_specialized_from_compact :: "'a from_compact \<Rightarrow> 'a list from_compact" where
  "vec_specialized_from_compact from_c buf len =
     (case get_u16 buf of
        None \<Rightarrow> None
      | Some (n, buf) \<Rightarrow> vec_specialized_from_loop from_c len n buf [])"

definition option_to_compact :: "'a to_compact \<Rightarrow> 'a option to_compact" where
  "option_to_compact to_c x =
     (case x of
        Some element \<Rightarrow> (let (inner, len) = to_c element in (put_u16 len @ inner, 1))
      | None \<Rightarrow> ([], 0))"

definition option_from_compact :: "'a from_compact \<Rightarrow> 'a option from_compact" where
  "option_from_compact from_c buf len =
     (if len = 0 then Some (None, buf)
      else (case get_u16 buf of
              None \<Rightarrow> None
            | Some (len, buf) \<Rightarrow>
                if length buf < len then None
                else (case from_c (take len buf) len of
                        None \<Rightarrow> None
                      | Some (element, _) \<Rightarrow> Some (Some element, drop len buf))))"

definition option_specialized_to_compact :: "'a to_compact \<Rightarrow> 'a option to_compact" where
  "option_specialized_to_compact to_c x =
     (case x of Some element \<Rightarrow> (fst (to_c element), 1) | None \<Rightarrow> ([], 0))"

definition option_specialized_from_compact :: "'a from_compact \<Rightarrow> 'a option from_compact" where
  "option_specialized_from_compact from_c buf len =
     (if len = 0 then Some (None, buf)
      else (case from_c buf len of
              None \<Rightarrow> None
            | Some (element, buf) \<Rightarrow> Some (Some element, buf)))"

definition bytes_to_compact :: "bytes to_compact" where
  "bytes_to_compact s = (s, length s)"

definition bytes_from_compact :: "bytes from_compact" where
  "bytes_from_compact buf len = (if length buf < len then None else Some (take len buf, drop len buf))"

text \<open>Hash types of \<open>N\<close> bytes; the default is the all-zero hash.\<close>

definition hash_to_compact :: "nat \<Rightarrow> bytes to_compact" where
  "hash_to_compact N h = (h, N)"

definition hash_from_compact :: "nat \<Rightarrow> bytes from_compact" where
  "hash_from_compact N buf len =
     (if len = 0 then Some (replicate N 0, buf)
      else if length buf < N then None
      else Some (take N buf, drop N buf))"

definition bool_to_compact :: "bool to_compact" where
  "bool_to_compact b = ([], of_bool b)"

definition bool_from_compact :: "bool from_compact" where
  "bool_from_compact buf len = Some (len \<noteq> 0, buf)"

section \<open>The interface of an element codec\<close>

text \<open>
  \<open>compact_codec\<close> is the contract of the trait: the value is read back from the bytes and the
  number that were written, with any bytes after it. \<open>sized_codec\<close> adds what the vector and
  option codecs rely on, that the number is the number of bytes and fits into two bytes.
\<close>

locale compact_codec =
  fixes to_c :: "'a to_compact" and from_c :: "'a from_compact" and wf :: "'a \<Rightarrow> bool"
  assumes from_to: "wf x \<Longrightarrow> from_c (fst (to_c x) @ rest) (snd (to_c x)) = Some (x, rest)"

locale sized_codec = compact_codec +
  assumes size_to: "wf x \<Longrightarrow> snd (to_c x) = length (fst (to_c x))"
    and small_to: "wf x \<Longrightarrow> snd (to_c x) < 2 ^ 16"

lemma get_u16_put_u16 [simp]: "get_u16 (put_u16 n @ rest) = Some (n mod 2 ^ 16, rest)"
proof -
  have len: "length (to_be_bytes (of_nat n :: u16)) = 2" by simp
  have "(from_be_bytes (to_be_bytes (of_nat n :: u16)) :: u16) = of_nat n"
    by (rule from_be_bytes_to_be_bytes) simp
  then show ?thesis
    using len by (simp add: get_u16_def put_u16_def unat_of_nat)
qed

context sized_codec
begin

abbreviation item :: "'a \<Rightarrow> bytes" where
  "item \<equiv> \<lambda>x. put_u16 (snd (to_c x)) @ fst (to_c x)"

lemma vec_from_loop_items:
  assumes "list_all wf xs"
  shows "vec_from_loop from_c (length xs) (concat (map item xs) @ rest) acc = Some (acc @ xs, rest)"
  using assms
proof (induction xs arbitrary: acc)
  case (Cons x xs)
  then have "from_c (fst (to_c x)) (snd (to_c x)) = Some (x, [])"
    using from_to [of x "[]"] by simp
  with Cons show ?case
    using size_to [of x] small_to [of x] by simp
qed simp

lemma vec_from_loop_length:
  "vec_from_loop from_c n buf acc = Some (xs, rest) \<Longrightarrow> length xs = length acc + n"
  by (induction from_c n buf acc rule: vec_from_loop.induct)
    (auto split: option.splits if_splits)

lemma vec_to_compact_eq: "vec_to_compact to_c xs = (put_u16 (length xs) @ concat (map item xs), 0)"
  by (simp add: vec_to_compact_def case_prod_unfold Let_def)

text \<open>
  The length prefix is the length modulo \<open>2 ^ 16\<close>, so the vector is read back exactly when its
  length fits into two bytes.
\<close>

lemma vec_roundtrip_iff:
  assumes "list_all wf xs"
  shows "vec_from_compact from_c (fst (vec_to_compact to_c xs) @ rest) len = Some (xs, rest)
    \<longleftrightarrow> length xs < 2 ^ 16"
proof
  assume "vec_from_compact from_c (fst (vec_to_compact to_c xs) @ rest) len = Some (xs, rest)"
  then have "length xs = length xs mod 2 ^ 16"
    using vec_from_loop_length [of "length xs mod 2 ^ 16" "concat (map item xs) @ rest" "[]" xs rest]
    by (simp add: vec_from_compact_def vec_to_compact_eq)
  then show "length xs < 2 ^ 16"
    using mod_less_divisor [of "2 ^ 16" "length xs"] by simp
next
  assume "length xs < 2 ^ 16"
  then show "vec_from_compact from_c (fst (vec_to_compact to_c xs) @ rest) len = Some (xs, rest)"
    using vec_from_loop_items [OF assms, of rest "[]"]
    by (simp add: vec_from_compact_def vec_to_compact_eq)
qed

lemma option_roundtrip:
  assumes "case x of None \<Rightarrow> True | Some v \<Rightarrow> wf v"
  shows "option_from_compact from_c (fst (option_to_compact to_c x) @ rest) (snd (option_to_compact to_c x))
    = Some (x, rest)"
proof (cases x)
  case (Some v)
  with assms have "from_c (fst (to_c v)) (snd (to_c v)) = Some (v, [])"
    using from_to [of v "[]"] by simp
  with Some assms show ?thesis
    using size_to [of v] small_to [of v]
    by (simp add: option_from_compact_def option_to_compact_def case_prod_unfold Let_def)
qed (simp add: option_from_compact_def option_to_compact_def)

end

text \<open>
  The specialised codecs write the elements without their lengths: they need a decoder that
  finds the end of the element itself, whatever nonzero length it is given.
\<close>

locale fixed_codec = compact_codec +
  assumes any_len: "wf x \<Longrightarrow> 0 < len \<Longrightarrow> from_c (fst (to_c x) @ rest) len = Some (x, rest)"
begin

lemma vec_specialized_from_loop_items:
  assumes "list_all wf xs" and "0 < len"
  shows "vec_specialized_from_loop from_c len (length xs)
      (concat (map (\<lambda>x. fst (to_c x)) xs) @ rest) acc = Some (acc @ xs, rest)"
  using assms(1) by (induction xs arbitrary: acc) (simp_all add: any_len assms(2))

lemma vec_specialized_from_loop_length:
  "vec_specialized_from_loop from_c len n buf acc = Some (xs, rest) \<Longrightarrow> length xs = length acc + n"
  by (induction from_c len n buf acc rule: vec_specialized_from_loop.induct)
    (auto split: option.splits)

lemma vec_specialized_roundtrip_iff:
  assumes "list_all wf xs" and "0 < len"
  shows "vec_specialized_from_compact from_c (fst (vec_specialized_to_compact to_c xs) @ rest) len
      = Some (xs, rest) \<longleftrightarrow> length xs < 2 ^ 16"
proof
  assume "vec_specialized_from_compact from_c (fst (vec_specialized_to_compact to_c xs) @ rest) len
      = Some (xs, rest)"
  then have "length xs = length xs mod 2 ^ 16"
    by (auto simp: vec_specialized_from_compact_def vec_specialized_to_compact_def
        dest: vec_specialized_from_loop_length)
  then show "length xs < 2 ^ 16"
    using mod_less_divisor [of "2 ^ 16" "length xs"] by simp
next
  assume "length xs < 2 ^ 16"
  then show "vec_specialized_from_compact from_c (fst (vec_specialized_to_compact to_c xs) @ rest) len
      = Some (xs, rest)"
    using vec_specialized_from_loop_items [OF assms, of rest "[]"]
    by (simp add: vec_specialized_from_compact_def vec_specialized_to_compact_def)
qed

lemma option_specialized_roundtrip:
  assumes "case x of None \<Rightarrow> True | Some v \<Rightarrow> wf v"
  shows "option_specialized_from_compact from_c (fst (option_specialized_to_compact to_c x) @ rest)
      (snd (option_specialized_to_compact to_c x)) = Some (x, rest)"
  using assms any_len [of "the x" 1 rest]
  by (cases x) (simp_all add: option_specialized_from_compact_def option_specialized_to_compact_def)

end

section \<open>The codecs of the repository meet it\<close>

lemma uint_to_compact_eq:
  assumes "8 dvd LENGTH('a::len)"
  shows "uint_to_compact (w :: 'a word)
    = (strip_zeros (to_be_bytes w), length (strip_zeros (to_be_bytes w)))"
proof -
  define bs where "bs = to_be_bytes w"
  have "drop (length bs - length (strip_zeros bs)) bs = strip_zeros bs"
    using arg_cong [OF strip_zeros_decomp [of bs], of "drop (length bs - length (strip_zeros bs))"]
    by simp
  moreover have "length bs = LENGTH('a) div 8" by (simp add: bs_def)
  moreover have "leading_zeros w div 8 \<le> LENGTH('a) div 8"
    by (simp add: leading_zeros_def div_le_mono)
  ultimately show ?thesis
    using length_strip_to_be [OF assms, of w] by (simp add: uint_to_compact_def Let_def bs_def)
qed

lemma uint_codec:
  assumes "8 dvd LENGTH('a::len)" and "LENGTH('a) < 2 ^ 16"
  shows "sized_codec (uint_to_compact :: 'a word to_compact) uint_from_compact (\<lambda>_. True)"
proof
  fix w :: "'a word" and rest
  define bs where "bs = strip_zeros (to_be_bytes w)"
  have to: "uint_to_compact w = (bs, length bs)"
    using assms(1) by (simp add: bs_def uint_to_compact_eq)
  have le: "length bs \<le> LENGTH('a) div 8"
    using length_strip_zeros_le [of "to_be_bytes w"] by (simp add: bs_def)
  have from_eq: "(of_nat (nat_from_be bs) :: 'a word) = w"
    using from_be_bytes_to_be_bytes [OF assms(1), of w] by (simp add: bs_def from_be_bytes_def)
  show "uint_from_compact (fst (uint_to_compact w) @ rest) (snd (uint_to_compact w)) = Some (w, rest)"
    using le from_eq by (auto simp: uint_from_compact_def from_be_bytes_def to)
  show "snd (uint_to_compact w) = length (fst (uint_to_compact w))"
    by (simp add: to)
  show "snd (uint_to_compact w) < 2 ^ 16"
    using le assms(2) by (simp add: to)
qed

interpretation compact_u64: sized_codec "uint_to_compact :: u64 to_compact" uint_from_compact "\<lambda>_. True"
  by (rule uint_codec) simp_all

interpretation compact_u128: sized_codec "uint_to_compact :: u128 to_compact" uint_from_compact "\<lambda>_. True"
  by (rule uint_codec) simp_all

lemma u256_compact_eq: "u256_to_compact = uint_to_compact" "u256_from_compact = uint_from_compact"
proof -
  have "leading_zeros w div 8 \<le> 32" for w :: u256
    by (simp add: leading_zeros_def div_le_mono [of _ 256 8, simplified])
  then show "u256_to_compact = uint_to_compact"
    by (simp add: fun_eq_iff u256_to_compact_def uint_to_compact_def Let_def)
  show "u256_from_compact = uint_from_compact"
    by (simp add: fun_eq_iff u256_from_compact_def uint_from_compact_def)
qed

interpretation compact_u256: sized_codec u256_to_compact u256_from_compact "\<lambda>_. True"
  unfolding u256_compact_eq by (rule uint_codec) simp_all

interpretation compact_bytes: sized_codec bytes_to_compact bytes_from_compact "\<lambda>s. length s < 2 ^ 16"
  by unfold_locales (simp_all add: bytes_to_compact_def bytes_from_compact_def)

interpretation compact_bool: compact_codec bool_to_compact bool_from_compact "\<lambda>_. True"
  by unfold_locales (simp add: bool_to_compact_def bool_from_compact_def)

lemma hash_sized:
  assumes "0 < N" and "N < 2 ^ 16"
  shows "sized_codec (hash_to_compact N) (hash_from_compact N) (\<lambda>h. length h = N)"
  using assms by unfold_locales (simp_all add: hash_to_compact_def hash_from_compact_def)

lemma hash_fixed:
  assumes "0 < N"
  shows "fixed_codec (hash_to_compact N) (hash_from_compact N) (\<lambda>h. length h = N)"
  using assms by unfold_locales (simp_all add: hash_to_compact_def hash_from_compact_def)

interpretation compact_h256: sized_codec "hash_to_compact 32" "hash_from_compact 32" "\<lambda>h. length h = 32"
  by (rule hash_sized) simp_all

interpretation compact_h160: sized_codec "hash_to_compact 20" "hash_from_compact 20" "\<lambda>h. length h = 20"
  by (rule hash_sized) simp_all

interpretation fixed_h256: fixed_codec "hash_to_compact 32" "hash_from_compact 32" "\<lambda>h. length h = 32"
  by (rule hash_fixed) simp

interpretation fixed_h160: fixed_codec "hash_to_compact 20" "hash_from_compact 20" "\<lambda>h. length h = 20"
  by (rule hash_fixed) simp

section \<open>Properties\<close>

text \<open>C32. a vector of \<^verbatim>\<open>U256\<close> values is read back from what \<^verbatim>\<open>to_compact\<close> wrote, with any bytes
  after it, exactly when it has fewer than \<open>2 ^ 16\<close> elements: the length prefix is cast to
  \<^verbatim>\<open>u16\<close> without a check.\<close>

theorem vec_u256_roundtrip_iff:
  "vec_from_compact u256_from_compact (fst (vec_to_compact u256_to_compact xs) @ rest) len
     = Some (xs, rest) \<longleftrightarrow> length xs < 2 ^ 16"
  by (rule compact_u256.vec_roundtrip_iff) (simp add: list_all_def)

text \<open>the integer codec returns the number of bytes it wrote, writes no leading zero byte, and
  decoding with that number gives the value back and leaves what follows it.\<close>

theorem compact_u64_canonical:
  "(case uint_to_compact (w :: u64) of (bs, n) \<Rightarrow>
      n = length bs \<and> n \<le> 8 \<and> strip_zeros bs = bs \<and> uint_from_compact (bs @ rest) n = Some (w, rest))"
  using compact_u64.from_to [of w rest] length_strip_zeros_le [of "to_be_bytes w"]
    strip_zeros_replicate [OF strip_zeros_trimmed [of "to_be_bytes w"], of 0]
  by (simp add: uint_to_compact_eq)

text \<open>a list of 32-byte hashes that the specialised codec wrote, without a length per element, is
  read back for every nonzero length argument exactly when the list has fewer than \<open>2 ^ 16\<close>
  elements.\<close>

theorem vec_h256_specialized_roundtrip_iff:
  assumes "list_all (\<lambda>h. length h = 32) hs" and "0 < len"
  shows "vec_specialized_from_compact (hash_from_compact 32)
      (fst (vec_specialized_to_compact (hash_to_compact 32) hs) @ rest) len = Some (hs, rest)
    \<longleftrightarrow> length hs < 2 ^ 16"
  using assms by (rule fixed_h256.vec_specialized_roundtrip_iff)

theorem vec_h256_specialized_roundtrip_witness:
  "vec_specialized_from_compact (hash_from_compact 32)
     (fst (vec_specialized_to_compact (hash_to_compact 32) [replicate 32 1, replicate 32 2]) @ [9]) 66
   = Some ([replicate 32 1, replicate 32 2], [9])"
  using vec_h256_specialized_roundtrip_iff [of "[replicate 32 1, replicate 32 2]" 66 "[9]"] by simp

text \<open>the vector codec is offered for every element type, but it is not one for itself: a vector
  returns 0 as its length, so a nested vector is written with length 0 for each inner vector and
  reading it panics.\<close>

theorem vec_vec_panics:
  "vec_from_compact (vec_from_compact uint_from_compact)
     (fst (vec_to_compact (vec_to_compact uint_to_compact) [xs :: u64 list]) @ rest) len = None"
  by (simp add: vec_from_compact_def vec_to_compact_def get_u16_def [of "[]"] Let_def)

end
