(* ===== verification/BTree.thy ===== *)
theory BTree
  imports Prelude
begin

text \<open>
  Ordered maps and sets. A \<^verbatim>\<open>BTreeMap\<close> is the list of its entries in ascending order of the keys,
  which is the order in which the sources iterate over it, and a \<^verbatim>\<open>BTreeSet\<close> the ascending list of
  its elements. The locale states what a client relies on and carries the lemmas on repeated
  insertion; it is interpreted on the list operations.
\<close>

section \<open>Operations\<close>

type_synonym ('k, 'v) btree = "('k \<times> 'v) list"

fun btree_insert :: "'k::linorder \<Rightarrow> 'v \<Rightarrow> ('k, 'v) btree \<Rightarrow> ('k, 'v) btree" where
  "btree_insert k v [] = [(k, v)]"
| "btree_insert k v ((a, b) # m) =
     (if k < a then (k, v) # (a, b) # m
      else if k = a then (k, v) # m
      else (a, b) # btree_insert k v m)"

definition btree_get :: "('k, 'v) btree \<Rightarrow> 'k \<Rightarrow> 'v option" where
  "btree_get m k = map_of m k"

definition btree_remove :: "'k \<Rightarrow> ('k, 'v) btree \<Rightarrow> ('k, 'v) btree" where
  "btree_remove k m = filter (\<lambda>e. fst e \<noteq> k) m"

definition btree_wf :: "('k::linorder, 'v) btree \<Rightarrow> bool" where
  "btree_wf m \<longleftrightarrow> sorted_wrt (<) (map fst m)"

text \<open>\<^verbatim>\<open>collect\<close> into a \<^verbatim>\<open>BTreeSet\<close>.\<close>

definition btree_set :: "'a::linorder list \<Rightarrow> 'a list" where
  "btree_set xs = sort (remdups xs)"

text \<open>
  A \<^verbatim>\<open>BTreeSet\<close> whose elements are compared by a key is the map from the keys to the elements;
  inserting an element that compares equal to one that is present changes nothing.
\<close>

definition btree_set_insert :: "'k::linorder \<Rightarrow> 'v \<Rightarrow> ('k, 'v) btree \<Rightarrow> ('k, 'v) btree" where
  "btree_set_insert k v m = (case btree_get m k of Some _ \<Rightarrow> m | None \<Rightarrow> btree_insert k v m)"

section \<open>The interface\<close>

locale ordered_map =
  fixes empty :: 'm
    and get :: "'m \<Rightarrow> 'k \<Rightarrow> 'v option"
    and ins :: "'k \<Rightarrow> 'v \<Rightarrow> 'm \<Rightarrow> 'm"
    and del :: "'k \<Rightarrow> 'm \<Rightarrow> 'm"
    and inv :: "'m \<Rightarrow> bool"
  assumes inv_empty: "inv empty"
    and inv_ins: "inv m \<Longrightarrow> inv (ins k v m)"
    and inv_del: "inv m \<Longrightarrow> inv (del k m)"
    and get_empty: "get empty = Map.empty"
    and get_ins: "inv m \<Longrightarrow> get (ins k v m) = (get m)(k \<mapsto> v)"
    and get_del: "inv m \<Longrightarrow> get (del k m) = (get m)(k := None)"
begin

lemma inv_fold_ins: "inv m \<Longrightarrow> inv (fold (\<lambda>(k, v). ins k v) kvs m)"
  by (induction kvs arbitrary: m) (auto simp: inv_ins)

lemma get_fold_ins: "inv m \<Longrightarrow> get (fold (\<lambda>(k, v). ins k v) kvs m) = get m ++ map_of (rev kvs)"
  by (induction kvs arbitrary: m) (auto simp: inv_ins get_ins)

lemma get_fold_del:
  "inv m \<Longrightarrow> get (fold del ks m) = (\<lambda>k. if k \<in> set ks then None else get m k)"
  by (induction ks arbitrary: m) (auto simp: inv_del get_del fun_eq_iff)

lemma dom_get_fold_ins:
  "inv m \<Longrightarrow> dom (get (fold (\<lambda>(k, v). ins k v) kvs m)) = dom (get m) \<union> fst ` set kvs"
  by (auto simp: get_fold_ins dom_map_of_conv_image_fst)

end

lemma map_of_btree_insert: "map_of (btree_insert k v m) = (map_of m)(k \<mapsto> v)"
  by (induction k v m rule: btree_insert.induct) (auto simp: fun_eq_iff)

lemma set_btree_insert: "fst ` set (btree_insert k v m) = insert k (fst ` set m)"
  by (induction k v m rule: btree_insert.induct) auto

lemma btree_wf_insert: "btree_wf m \<Longrightarrow> btree_wf (btree_insert k v m)"
proof (induction k v m rule: btree_insert.induct)
  case (2 k v a b m)
  have "x \<in> fst ` set (btree_insert k v m) \<Longrightarrow> x = k \<or> x \<in> fst ` set m" for x
    by (simp add: set_btree_insert)
  with 2 show ?case
    by (fastforce simp: btree_wf_def)
qed (simp add: btree_wf_def)

lemma btree_wf_filter: "btree_wf m \<Longrightarrow> btree_wf (filter P m)"
  by (induction m) (auto simp: btree_wf_def)

lemma map_of_filter_neq: "map_of (filter (\<lambda>e. fst e \<noteq> k) m) = (map_of m)(k := None)"
  by (induction m) (auto simp: fun_eq_iff)

interpretation btree: ordered_map "[]" btree_get btree_insert btree_remove btree_wf
  by unfold_locales
    (simp_all add: btree_wf_insert btree_get_def fun_eq_iff map_of_btree_insert btree_remove_def
      btree_wf_filter map_of_filter_neq, simp add: btree_wf_def)

lemma btree_wf_set_insert: "btree_wf m \<Longrightarrow> btree_wf (btree_set_insert k v m)"
  by (simp add: btree_set_insert_def btree_wf_insert split: option.splits)

lemma btree_get_set_insert:
  "btree_get (btree_set_insert k v m) j =
     (if j = k then Some (case btree_get m k of Some w \<Rightarrow> w | None \<Rightarrow> v) else btree_get m j)"
  by (auto simp: btree_set_insert_def btree_get_def map_of_btree_insert split: option.splits)

lemma btree_get_Some_iff: "btree_wf m \<Longrightarrow> btree_get m k = Some v \<longleftrightarrow> (k, v) \<in> set m"
  by (simp add: btree_get_def map_of_eq_Some_iff btree_wf_def strict_sorted_iff)

lemma set_btree_insert_fresh:
  "btree_get m k = None \<Longrightarrow> set (btree_insert k v m) = insert (k, v) (set m)"
  by (induction k v m rule: btree_insert.induct) (auto simp: btree_get_def split: if_splits)

lemma set_btree_remove: "set (btree_remove k m) = {e \<in> set m. fst e \<noteq> k}"
  by (simp add: btree_remove_def)

lemma btree_wf_remove: "btree_wf m \<Longrightarrow> btree_wf (btree_remove k m)"
  by (simp add: btree_remove_def btree_wf_filter)

lemma btree_get_None_iff: "btree_get m k = None \<longleftrightarrow> k \<notin> fst ` set m"
  by (simp add: btree_get_def map_of_eq_None_iff)

lemma length_btree_remove:
  "btree_wf m \<Longrightarrow> btree_get m k = Some v \<Longrightarrow> Suc (length (btree_remove k m)) = length m"
proof (induction m)
  case (Cons e m)
  show ?case
  proof (cases "fst e = k")
    case True
    with Cons.prems have "k \<notin> fst ` set m"
      by (auto simp: btree_wf_def)
    then have "filter (\<lambda>e. fst e \<noteq> k) m = m"
      by (force simp: filter_id_conv)
    with True show ?thesis
      by (simp add: btree_remove_def)
  next
    case False
    with Cons show ?thesis
      by (cases e) (auto simp: btree_remove_def btree_wf_def btree_get_def)
  qed
qed (simp add: btree_get_def)

lemma length_btree_insert:
  "btree_get m k = None \<Longrightarrow> length (btree_insert k v m) = Suc (length m)"
  by (induction k v m rule: btree_insert.induct) (auto simp: btree_get_def split: if_splits)

lemma btree_insert_last:
  assumes "\<And>a. a \<in> fst ` set m \<Longrightarrow> a < k"
  shows "btree_insert k v m = m @ [(k, v)]"
  using assms by (induction k v m rule: btree_insert.induct) (auto dest: order.asym)

lemma btree_insert_first:
  assumes "\<And>a. a \<in> fst ` set m \<Longrightarrow> k < a"
  shows "btree_insert k v m = (k, v) # m"
  using assms by (cases m) auto

lemma btree_insert_remove: "btree_wf m \<Longrightarrow> btree_insert k v (btree_remove k m) = btree_insert k v m"
proof (induction m)
  case (Cons e m)
  have less: "\<And>a. a \<in> fst ` set m \<Longrightarrow> fst e < a" and wf: "btree_wf m"
    using Cons.prems by (auto simp: btree_wf_def)
  consider "k < fst e" | "k = fst e" | "fst e < k"
    by fastforce
  then show ?case
  proof cases
    case 1
    with less have "btree_remove k (e # m) = e # m"
      unfolding btree_remove_def by (fastforce simp: filter_id_conv)
    then show ?thesis
      by simp
  next
    case 2
    with less have "btree_remove k m = m"
      unfolding btree_remove_def by (fastforce simp: filter_id_conv)
    with 2 less show ?thesis
      by (cases e) (simp add: btree_remove_def btree_insert_first)
  next
    case 3
    with Cons.IH [OF wf] show ?thesis
      by (cases e) (auto simp: btree_remove_def)
  qed
qed (simp add: btree_remove_def)

lemma btree_wf_distinct: "btree_wf m \<Longrightarrow> distinct (map fst m)"
  by (simp add: btree_wf_def strict_sorted_iff)

lemma sorted_btree_set [simp]: "sorted_wrt (<) (btree_set xs)"
  by (simp add: btree_set_def strict_sorted_iff)

lemma set_btree_set [simp]: "set (btree_set xs) = set xs"
  by (simp add: btree_set_def)

lemma btree_set_id: "sorted_wrt (<) xs \<Longrightarrow> btree_set xs = xs"
  by (simp add: btree_set_def strict_sorted_iff sorted_sort_id distinct_remdups_id)

end
