(* ===== verification/BlockHeader.thy ===== *)
theory BlockHeader
  imports Rlp
begin

text \<open>
  The block header of \<^verbatim>\<open>crates/primitives/src/header.rs\<close>: its RLP codec, its hash and the sealed
  header, and the direction of a header request. Hashes are byte strings and \<^verbatim>\<open>keccak256\<close> is a
  parameter. \<^verbatim>\<open>Uint::to::<u64>\<close> panics on a value that does not fit, so the
  decoder returns a \<^typ>\<open>decode_error fault\<close>.
\<close>

section \<open>Definitions\<close>

type_synonym h256 = bytes
type_synonym h160 = bytes

record header =
  h_parent_hash :: h256
  h_ommers_hash :: h256
  h_beneficiary :: h160
  h_state_root :: h256
  h_transactions_root :: h256
  h_receipts_root :: h256
  h_withdrawals_root :: "h256 option"
  h_logs_bloom :: bytes
  h_difficulty :: u256
  h_number :: u64
  h_gas_limit :: u64
  h_gas_used :: u64
  h_timestamp :: u64
  h_mix_hash :: h256
  h_nonce :: u64
  h_base_fee_per_gas :: "u64 option"
  h_extra_data :: bytes

record sealed_header =
  sh_header :: header
  sh_hash :: h256

definition header_payload_length :: "header \<Rightarrow> nat" where
  "header_payload_length h =
     slice_length (h_parent_hash h) +
     slice_length (h_ommers_hash h) +
     slice_length (h_beneficiary h) +
     slice_length (h_state_root h) +
     slice_length (h_transactions_root h) +
     slice_length (h_receipts_root h) +
     slice_length (h_logs_bloom h) +
     ruint_length (h_difficulty h) +
     ruint_length (ucast (h_number h) :: u256) +
     ruint_length (ucast (h_gas_limit h) :: u256) +
     ruint_length (ucast (h_gas_used h) :: u256) +
     uint_length (h_timestamp h) +
     slice_length (h_extra_data h) +
     slice_length (h_mix_hash h) +
     slice_length (to_be_bytes (h_nonce h)) +
     (case h_base_fee_per_gas h of
        Some base_fee \<Rightarrow> ruint_length (ucast base_fee :: u256)
      | None \<Rightarrow> if h_withdrawals_root h \<noteq> None then 1 else 0) +
     (case h_withdrawals_root h of Some root \<Rightarrow> slice_length root | None \<Rightarrow> 0)"

definition encode_header :: "header \<Rightarrow> bytes" where
  "encode_header h =
     header_encode \<lparr>list_flag = True, payload_length = header_payload_length h\<rparr> @
     encode_slice (h_parent_hash h) @
     encode_slice (h_ommers_hash h) @
     encode_slice (h_beneficiary h) @
     encode_slice (h_state_root h) @
     encode_slice (h_transactions_root h) @
     encode_slice (h_receipts_root h) @
     encode_slice (h_logs_bloom h) @
     encode_ruint (h_difficulty h) @
     encode_ruint (ucast (h_number h) :: u256) @
     encode_ruint (ucast (h_gas_limit h) :: u256) @
     encode_ruint (ucast (h_gas_used h) :: u256) @
     encode_uint (h_timestamp h) @
     encode_slice (h_extra_data h) @
     encode_slice (h_mix_hash h) @
     encode_slice (to_be_bytes (h_nonce h)) @
     (case h_base_fee_per_gas h of
        Some base_fee \<Rightarrow> encode_ruint (ucast base_fee :: u256)
      | None \<Rightarrow> if h_withdrawals_root h \<noteq> None then [EMPTY_STRING_CODE] else []) @
     (case h_withdrawals_root h of Some root \<Rightarrow> encode_slice root | None \<Rightarrow> [])"

definition encoded_header_length :: "header \<Rightarrow> nat" where
  "encoded_header_length h = header_payload_length h + length_of_length (header_payload_length h)"

text \<open>\<^verbatim>\<open>U256::decode(buf)?.to::<u64>()\<close>\<close>

definition decode_to_u64 :: "bytes \<Rightarrow> decode_error fault + u64 \<times> bytes" where
  "decode_to_u64 buf =
     and_then (try_res (decode_ruint buf :: decode_error + u256 \<times> bytes)) (\<lambda>(w, buf).
       if unat w < 2 ^ 64 then Inr (ucast w, buf) else Inl Panic)"

text \<open>
  The decoder after the fixed fields, in a list of \<open>n\<close> bytes that began when the buffer had
  \<open>started_len\<close> bytes: the base fee, then the withdrawals root and the check of the length.
\<close>

definition decode_base_fee ::
    "nat \<Rightarrow> nat \<Rightarrow> header \<Rightarrow> bytes \<Rightarrow> decode_error fault + header \<times> bytes" where
  "decode_base_fee started_len n this buf =
     (if started_len - length buf < n then
        (if (case buf of b # _ \<Rightarrow> b = EMPTY_STRING_CODE | [] \<Rightarrow> False) then Inr (this, drop 1 buf)
         else and_then (decode_to_u64 buf) (\<lambda>(base_fee, buf).
                Inr (this\<lparr>h_base_fee_per_gas := Some base_fee\<rparr>, buf)))
      else Inr (this, buf))"

definition decode_withdrawals_root ::
    "nat \<Rightarrow> nat \<Rightarrow> header \<Rightarrow> bytes \<Rightarrow> decode_error fault + header \<times> bytes" where
  "decode_withdrawals_root started_len n this buf =
     and_then
       (if started_len - length buf < n then
          and_then (try_res (decode_array 32 buf)) (\<lambda>(root, buf).
            Inr (this\<lparr>h_withdrawals_root := Some root\<rparr>, buf))
        else Inr (this, buf)) (\<lambda>(this, buf).
     (let consumed = started_len - length buf
      in if consumed \<noteq> n then Inl (Err (ListLengthMismatch n consumed)) else Inr (this, buf)))"

definition decode_header :: "bytes \<Rightarrow> decode_error fault + header \<times> bytes" where
  "decode_header buf =
     and_then (try_res (header_decode buf)) (\<lambda>(rlp_head, buf).
     if \<not> list_flag rlp_head then Inl (Err UnexpectedString)
     else (let started_len = length buf in
     and_then (try_res (decode_array 32 buf)) (\<lambda>(parent_hash, buf).
     and_then (try_res (decode_array 32 buf)) (\<lambda>(ommers_hash, buf).
     and_then (try_res (decode_array 20 buf)) (\<lambda>(beneficiary, buf).
     and_then (try_res (decode_array 32 buf)) (\<lambda>(state_root, buf).
     and_then (try_res (decode_array 32 buf)) (\<lambda>(transactions_root, buf).
     and_then (try_res (decode_array 32 buf)) (\<lambda>(receipts_root, buf).
     and_then (try_res (decode_array 256 buf)) (\<lambda>(logs_bloom, buf).
     and_then (try_res (decode_ruint buf)) (\<lambda>(difficulty, buf).
     and_then (decode_to_u64 buf) (\<lambda>(number, buf).
     and_then (decode_to_u64 buf) (\<lambda>(gas_limit, buf).
     and_then (decode_to_u64 buf) (\<lambda>(gas_used, buf).
     and_then (try_res (decode_uint buf)) (\<lambda>(timestamp, buf).
     and_then (try_res (decode_bytes buf)) (\<lambda>(extra_data, buf).
     and_then (try_res (decode_array 32 buf)) (\<lambda>(mix_hash, buf).
     and_then (try_res (decode_array 8 buf)) (\<lambda>(nonce, buf).
     (let this = \<lparr>h_parent_hash = parent_hash, h_ommers_hash = ommers_hash,
                  h_beneficiary = beneficiary, h_state_root = state_root,
                  h_transactions_root = transactions_root, h_receipts_root = receipts_root,
                  h_withdrawals_root = None, h_logs_bloom = logs_bloom,
                  h_difficulty = difficulty, h_number = number, h_gas_limit = gas_limit,
                  h_gas_used = gas_used, h_timestamp = timestamp, h_mix_hash = mix_hash,
                  h_nonce = from_be_bytes nonce, h_base_fee_per_gas = None,
                  h_extra_data = extra_data\<rparr>
      in and_then (decode_base_fee started_len (payload_length rlp_head) this buf) (\<lambda>(this, buf).
         decode_withdrawals_root started_len (payload_length rlp_head) this buf)))))))))))))))))))"

definition hash_slow :: "(bytes \<Rightarrow> h256) \<Rightarrow> header \<Rightarrow> h256" where
  "hash_slow keccak256 h = keccak256 (encode_header h)"

definition seal :: "header \<Rightarrow> h256 \<Rightarrow> sealed_header" where
  "seal h hash = \<lparr>sh_header = h, sh_hash = hash\<rparr>"

definition seal_slow :: "(bytes \<Rightarrow> h256) \<Rightarrow> header \<Rightarrow> sealed_header" where
  "seal_slow keccak256 h = (let hash = hash_slow keccak256 h in seal h hash)"

definition unseal :: "sealed_header \<Rightarrow> header" where
  "unseal s = sh_header s"

definition num_hash :: "sealed_header \<Rightarrow> u64 \<times> h256" where
  "num_hash s = (h_number (sh_header s), sh_hash s)"

definition encode_sealed_header :: "sealed_header \<Rightarrow> bytes" where
  "encode_sealed_header s = encode_header (sh_header s)"

definition decode_sealed_header ::
    "(bytes \<Rightarrow> h256) \<Rightarrow> bytes \<Rightarrow> decode_error fault + sealed_header \<times> bytes" where
  "decode_sealed_header keccak256 buf =
     (let started_len = length buf in
      and_then (decode_header buf) (\<lambda>(h, b).
        let consumed = started_len - length b;
            hash = keccak256 (take consumed buf)
        in Inr (\<lparr>sh_header = h, sh_hash = hash\<rparr>, b)))"

definition EMPTY_LIST_HASH :: h256 where
  "EMPTY_LIST_HASH = nat_to_be 32 0x1dcc4de8dec75d7aab85b567b6ccd41ad312451b948a7413f0a142fd40d49347"

definition EMPTY_ROOT :: h256 where
  "EMPTY_ROOT = nat_to_be 32 0x56e81f171bcc55a6ff8345e692c0f86e5b48e01b996cadc001622fb5e363b421"

definition ommers_hash_is_empty :: "header \<Rightarrow> bool" where
  "ommers_hash_is_empty h \<longleftrightarrow> h_ommers_hash h = EMPTY_LIST_HASH"

definition transaction_root_is_empty :: "header \<Rightarrow> bool" where
  "transaction_root_is_empty h \<longleftrightarrow> h_transactions_root h = EMPTY_ROOT"

definition header_is_empty :: "header \<Rightarrow> bool" where
  "header_is_empty h =
     (let txs_and_ommers_empty = transaction_root_is_empty h \<and> ommers_hash_is_empty h
      in case h_withdrawals_root h of
           Some withdrawals_root \<Rightarrow> txs_and_ommers_empty \<and> withdrawals_root = EMPTY_ROOT
         | None \<Rightarrow> txs_and_ommers_empty)"

definition default_header :: header where
  "default_header = \<lparr>h_parent_hash = replicate 32 0, h_ommers_hash = EMPTY_LIST_HASH,
     h_beneficiary = replicate 20 0, h_state_root = EMPTY_ROOT,
     h_transactions_root = EMPTY_ROOT, h_receipts_root = EMPTY_ROOT,
     h_withdrawals_root = None, h_logs_bloom = replicate 256 0, h_difficulty = 0,
     h_number = 0, h_gas_limit = 0, h_gas_used = 0, h_timestamp = 0,
     h_mix_hash = replicate 32 0, h_nonce = 0, h_base_fee_per_gas = None, h_extra_data = []\<rparr>"

text \<open>The direction of a header request.\<close>

datatype headers_direction = Falling | Rising

definition headers_direction_new :: "bool \<Rightarrow> headers_direction" where
  "headers_direction_new reverse = (if reverse then Falling else Rising)"

definition headers_direction_to_bool :: "headers_direction \<Rightarrow> bool" where
  "headers_direction_to_bool d = (case d of Rising \<Rightarrow> False | Falling \<Rightarrow> True)"

definition encode_headers_direction :: "headers_direction \<Rightarrow> bytes" where
  "encode_headers_direction d = encode_bool (headers_direction_to_bool d)"

definition decode_headers_direction :: "bytes \<Rightarrow> decode_error + headers_direction \<times> bytes" where
  "decode_headers_direction buf =
     and_then (decode_bool buf) (\<lambda>(value, buf). Inr (headers_direction_new value, buf))"

section \<open>Well-formed headers\<close>

text \<open>The sizes that the Rust types fix, and a total size that fits into a \<^verbatim>\<open>usize\<close>.\<close>

definition header_sizes :: "header \<Rightarrow> bool" where
  "header_sizes h \<longleftrightarrow>
     length (h_parent_hash h) = 32 \<and> length (h_ommers_hash h) = 32 \<and>
     length (h_beneficiary h) = 20 \<and> length (h_state_root h) = 32 \<and>
     length (h_transactions_root h) = 32 \<and> length (h_receipts_root h) = 32 \<and>
     length (h_logs_bloom h) = 256 \<and> length (h_mix_hash h) = 32 \<and>
     (case h_withdrawals_root h of Some root \<Rightarrow> length root = 32 | None \<Rightarrow> True) \<and>
     length (h_extra_data h) < 2 ^ 64"

definition header_wf :: "header \<Rightarrow> bool" where
  "header_wf h \<longleftrightarrow> header_sizes h \<and> header_payload_length h < 2 ^ 64"

definition zero_header :: header where
  "zero_header = \<lparr>h_parent_hash = replicate 32 0, h_ommers_hash = replicate 32 0,
     h_beneficiary = replicate 20 0, h_state_root = replicate 32 0,
     h_transactions_root = replicate 32 0, h_receipts_root = replicate 32 0,
     h_withdrawals_root = None, h_logs_bloom = replicate 256 0, h_difficulty = 0,
     h_number = 0, h_gas_limit = 0, h_gas_used = 0, h_timestamp = 0,
     h_mix_hash = replicate 32 0, h_nonce = 0, h_base_fee_per_gas = None, h_extra_data = []\<rparr>"

text \<open>The header that the decoder makes of an encoded header: a base fee of zero is lost.\<close>

definition drop_zero_fee :: "header \<Rightarrow> header" where
  "drop_zero_fee h = (if h_base_fee_per_gas h = Some 0 then h\<lparr>h_base_fee_per_gas := None\<rparr> else h)"

section \<open>Decoding inverts encoding\<close>

abbreviation enc_u64 :: "u64 \<Rightarrow> bytes" where
  "enc_u64 n \<equiv> encode_ruint (ucast n :: u256)"

lemma decode_to_u64_encode [simp]: "and_then (decode_to_u64 (enc_u64 n @ rest)) f = f (n, rest)"
proof -
  have "unat (ucast n :: u256) < 2 ^ 64"
    using unsigned_less [of n, where ?'a = nat] by (simp add: unsigned_ucast_eq take_bit_nat_eq_self)
  then show ?thesis
    by (simp add: decode_to_u64_def rlp_u256.dec_enc ucast_up_down)
qed

lemma decode_to_u64E:
  assumes "and_then (decode_to_u64 buf) (case_prod f) = Inr y"
  obtains n rest where "buf = enc_u64 n @ rest" and "f n rest = Inr y"
proof -
  from assms obtain w rest where w: "decode_ruint buf = Inr (w :: u256, rest)" "unat w < 2 ^ 64"
    and f: "f (ucast w) rest = Inr y"
    by (auto simp: decode_to_u64_def and_then_eq_Inr split: if_splits)
  from w(2) have "(ucast (ucast w :: u64) :: u256) = w"
    by (intro ucast_down_up) simp
  with rlp_u256.dec_strict [OF w(1)] f show thesis
    by (intro that [of "ucast w" rest]) simp_all
qed

text \<open>The fields after the list header, without the two optional ones.\<close>

definition fixed_fields :: "header \<Rightarrow> bytes" where
  "fixed_fields h =
     encode_slice (h_parent_hash h) @ encode_slice (h_ommers_hash h) @
     encode_slice (h_beneficiary h) @ encode_slice (h_state_root h) @
     encode_slice (h_transactions_root h) @ encode_slice (h_receipts_root h) @
     encode_slice (h_logs_bloom h) @ encode_ruint (h_difficulty h) @
     enc_u64 (h_number h) @ enc_u64 (h_gas_limit h) @ enc_u64 (h_gas_used h) @
     encode_uint (h_timestamp h) @ encode_slice (h_extra_data h) @ encode_slice (h_mix_hash h) @
     encode_slice (to_be_bytes (h_nonce h))"

definition optional_fields :: "header \<Rightarrow> bytes" where
  "optional_fields h =
     (case h_base_fee_per_gas h of
        Some base_fee \<Rightarrow> enc_u64 base_fee
      | None \<Rightarrow> if h_withdrawals_root h \<noteq> None then [EMPTY_STRING_CODE] else []) @
     (case h_withdrawals_root h of Some root \<Rightarrow> encode_slice root | None \<Rightarrow> [])"

lemma encode_header_eq:
  "encode_header h =
     header_encode \<lparr>list_flag = True, payload_length = header_payload_length h\<rparr> @
     fixed_fields h @ optional_fields h"
  by (simp add: encode_header_def fixed_fields_def optional_fields_def)

lemma enc_u64_code: "hd (enc_u64 n) = EMPTY_STRING_CODE \<longleftrightarrow> n = 0"
proof -
  define w where "w = (ucast n :: u256)"
  have w0: "w = 0 \<longleftrightarrow> n = 0"
    using ucast_up_down [of n, where ?'b = 256] by (auto simp: w_def)
  define be where "be = zeroless_view (to_be_bytes w)"
  have "length be < 128"
    using length_strip_zeros_le [of "to_be_bytes w"] by (simp add: be_def zeroless_view_strip_zeros)
  moreover have "nat_from_be be = unat w"
    by (simp add: be_def zeroless_view_strip_zeros)
  then have "be \<noteq> []" if "w \<noteq> 0"
    using that by (auto simp: unat_eq_0 [symmetric])
  ultimately have "EMPTY_STRING_CODE + of_nat (length be) \<noteq> EMPTY_STRING_CODE" if "w \<noteq> 0"
    using that word_unat_eq_iff [of "of_nat (length be) :: u8" 0] by (simp add: unat_of_nat)
  moreover have "(ucast w :: u8) \<noteq> EMPTY_STRING_CODE" if "w < 0x80"
    using that unat_ucast_take [of w, where ?'b = 8]
    by (auto simp: EMPTY_STRING_CODE_def word_less_nat_alt take_bit_nat_eq_self)
  ultimately have "hd (encode_uint w) = EMPTY_STRING_CODE \<longleftrightarrow> w = 0"
    by (simp add: encode_uint_def be_def Let_def)
  then show ?thesis
    using w0 by (simp add: w_def encode_ruint_eq)
qed

lemma enc_u64_not_Nil [simp]: "enc_u64 n \<noteq> []"
  by (simp add: rlp_u256.enc_not_Nil)

lemma header_payload_length_eq:
  assumes "header_sizes h"
  shows "header_payload_length h = length (fixed_fields h @ optional_fields h)"
  using assms
  by (simp add: header_sizes_def header_payload_length_def fixed_fields_def optional_fields_def
      length_encode_slice rlp_u256.len_enc rlp_u64.len_enc split: option.splits)

lemma from_be_to_be_nonce [simp]: "from_be_bytes (to_be_bytes (n :: u64)) = n"
  by (rule from_be_bytes_to_be_bytes) simp

definition decode_optional :: "nat \<Rightarrow> nat \<Rightarrow> header \<Rightarrow> bytes \<Rightarrow> decode_error fault + header \<times> bytes" where
  "decode_optional s n this buf =
     and_then (decode_base_fee s n this buf) (\<lambda>(this, buf). decode_withdrawals_root s n this buf)"

lemmas decode_optional_defs = decode_optional_def decode_base_fee_def decode_withdrawals_root_def Let_def

lemma decode_header_fixed:
  assumes sz: "header_sizes h" and hd: "header_decode buf = Inr (\<lparr>list_flag = True, payload_length = n\<rparr>, fixed_fields h @ tail)"
  shows "decode_header buf = decode_optional (length (fixed_fields h @ tail)) n
    (h\<lparr>h_base_fee_per_gas := None, h_withdrawals_root := None\<rparr>) tail"
proof -
  define s where "s = length (fixed_fields h @ tail)"
  have *: "(let started_len = length (fixed_fields h @ tail) in f started_len) = f s" for f :: "nat \<Rightarrow> 'z"
    by (simp add: s_def)
  show ?thesis
    using sz unfolding decode_header_def hd try_res_simps and_then_Inr prod.case rlp_header.simps if_True not_True_eq_False if_False * s_def [symmetric]
    unfolding fixed_fields_def append_assoc header_sizes_def Let_def decode_optional_def
    by (cases h) simp
qed

lemma enc_u64_first [simp]:
  "(case enc_u64 v @ bs of b # _ \<Rightarrow> b = EMPTY_STRING_CODE | [] \<Rightarrow> False) \<longleftrightarrow> v = 0"
  using enc_u64_code [of v] by (cases "enc_u64 v") auto

lemma enc_u64_0: "encode_ruint (0 :: u256) = [EMPTY_STRING_CODE]"
  by (simp add: encode_ruint_eq encode_uint_def)

lemma decode_optional_encode:
  assumes "header_sizes h"
  shows "decode_optional (k + length (optional_fields h @ rest)) (k + length (optional_fields h))
      (h\<lparr>h_base_fee_per_gas := None, h_withdrawals_root := None\<rparr>) (optional_fields h @ rest)
    = Inr (drop_zero_fee h, rest)"
proof -
  define this0 where "this0 = h\<lparr>h_base_fee_per_gas := None, h_withdrawals_root := None\<rparr>"
  have this0: "drop_zero_fee h =
      (case h_base_fee_per_gas h of None \<Rightarrow> id | Some v \<Rightarrow> if v = 0 then id else h_base_fee_per_gas_update (\<lambda>_. Some v))
      ((case h_withdrawals_root h of None \<Rightarrow> id | Some r \<Rightarrow> h_withdrawals_root_update (\<lambda>_. Some r)) this0)"
    by (cases h) (simp add: drop_zero_fee_def this0_def split: option.split)
  have root: "length r = 32" if "h_withdrawals_root h = Some r" for r
    using assms that by (simp add: header_sizes_def)
  show ?thesis
  proof (cases "h_base_fee_per_gas h")
    case None
    with root show ?thesis
      unfolding this0 unfolding this0_def [symmetric]
      by (cases "h_withdrawals_root h") (simp_all add: decode_optional_defs optional_fields_def)
  next
    case (Some v)
    show ?thesis
    proof (cases "v = 0")
      case True
      with Some root show ?thesis
        unfolding this0 unfolding this0_def [symmetric]
        by (cases "h_withdrawals_root h")
          (simp_all add: decode_optional_defs optional_fields_def enc_u64_0)
    next
      case False
      with Some root show ?thesis
        unfolding this0 unfolding this0_def [symmetric]
        by (cases "h_withdrawals_root h") (simp_all add: decode_optional_defs optional_fields_def)
    qed
  qed
qed

lemma decode_header_encode:
  assumes "header_wf h"
  shows "decode_header (encode_header h @ rest) = Inr (drop_zero_fee h, rest)"
proof -
  define n where "n = header_payload_length h"
  have n: "n = length (fixed_fields h) + length (optional_fields h)"
    using assms by (simp add: n_def header_wf_def header_payload_length_eq)
  have hd: "header_decode (encode_header h @ rest)
      = Inr (\<lparr>list_flag = True, payload_length = n\<rparr>, fixed_fields h @ optional_fields h @ rest)"
    unfolding encode_header_eq append_assoc n_def [symmetric]
    by (rule header_decode_encode) (use assms n in \<open>simp_all add: header_wf_def n_def\<close>)
  have sz: "header_sizes h" using assms by (simp add: header_wf_def)
  show ?thesis
    unfolding decode_header_fixed [OF sz hd] n length_append [of "fixed_fields h"]
    by (rule decode_optional_encode [OF sz])
qed

lemma decode_base_feeE:
  assumes "decode_base_fee s n this buf = Inr (th, b1)" and "s - length buf < n"
    and "h_base_fee_per_gas this = None"
  obtains base where "base \<noteq> Some 0" and "th = this\<lparr>h_base_fee_per_gas := base\<rparr>"
    and "buf = (case base of Some v \<Rightarrow> enc_u64 v | None \<Rightarrow> [EMPTY_STRING_CODE]) @ b1"
proof (cases "case buf of b # _ \<Rightarrow> b = EMPTY_STRING_CODE | [] \<Rightarrow> False")
  case True
  with assms show thesis
    by (intro that [of None]) (auto simp: decode_base_fee_def split: list.splits)
next
  case False
  with assms obtain v where v: "buf = enc_u64 v @ b1" "th = this\<lparr>h_base_fee_per_gas := Some v\<rparr>"
    by (auto simp: decode_base_fee_def elim!: decode_to_u64E)
  with False show thesis
    by (intro that [of "Some v"]) auto
qed

lemma decode_withdrawals_rootE:
  assumes "decode_withdrawals_root s n th b1 = Inr (h, rest)" and "h_withdrawals_root th = None"
  obtains root where "h = th\<lparr>h_withdrawals_root := root\<rparr>" and "s - length rest = n"
    and "case root of Some r \<Rightarrow> length r = 32 \<and> s - length b1 < n | None \<Rightarrow> True"
    and "b1 = (case root of Some r \<Rightarrow> encode_slice r | None \<Rightarrow> []) @ rest"
proof (cases "s - length b1 < n")
  case True
  with assms(1) obtain r where "length r = 32" "b1 = encode_slice r @ rest"
    "h = th\<lparr>h_withdrawals_root := Some r\<rparr>" "s - length rest = n"
    by (auto simp: decode_withdrawals_root_def and_then_eq_Inr Let_def split: if_splits
        dest: rlp_h256.dec_strict)
  with True show thesis by (intro that [of "Some r"]) auto
next
  case False
  with assms show thesis
    by (intro that [of None]) (auto simp: decode_withdrawals_root_def Let_def split: if_splits)
qed

lemma decode_optional_strict:
  assumes dec: "decode_optional s n this buf = Inr (h, rest)"
    and none: "h_base_fee_per_gas this = None" "h_withdrawals_root this = None"
  obtains base root where "case root of Some r \<Rightarrow> length r = 32 | None \<Rightarrow> True"
    and "h = drop_zero_fee (this\<lparr>h_base_fee_per_gas := base, h_withdrawals_root := root\<rparr>)"
    and "buf = optional_fields (this\<lparr>h_base_fee_per_gas := base, h_withdrawals_root := root\<rparr>) @ rest"
    and "s - length rest = n"
proof -
  from dec obtain th b1 where fee: "decode_base_fee s n this buf = Inr (th, b1)"
    and root: "decode_withdrawals_root s n th b1 = Inr (h, rest)"
    by (auto simp: decode_optional_def and_then_eq_Inr)
  show thesis
  proof (cases "s - length buf < n")
    case True
    from decode_base_feeE [OF fee True none(1)] obtain base where base: "base \<noteq> Some 0"
      "th = this\<lparr>h_base_fee_per_gas := base\<rparr>"
      "buf = (case base of Some v \<Rightarrow> enc_u64 v | None \<Rightarrow> [EMPTY_STRING_CODE]) @ b1" .
    with none have "h_withdrawals_root th = None" by simp
    from decode_withdrawals_rootE [OF root this] obtain r where r:
      "h = th\<lparr>h_withdrawals_root := r\<rparr>" "s - length rest = n"
      "case r of Some r \<Rightarrow> length r = 32 \<and> s - length b1 < n | None \<Rightarrow> True"
      "b1 = (case r of Some r \<Rightarrow> encode_slice r | None \<Rightarrow> []) @ rest" .
    show thesis
      using base r none
      by (intro that [of r "if base = None \<and> r = None then Some 0 else base"])
        (auto simp: drop_zero_fee_def optional_fields_def enc_u64_0 split: option.splits)
  next
    case False
    with fee have "th = this" "b1 = buf" by (simp_all add: decode_base_fee_def)
    with False root none have "h = this" "rest = buf" "s - length rest = n"
      by (auto simp: decode_withdrawals_root_def Let_def split: if_splits)
    with none show thesis
      by (intro that [of None None]) (simp_all add: drop_zero_fee_def optional_fields_def)
  qed
qed

lemma decode_header_fixed_strict:
  assumes "decode_header buf = Inr (h, rest)"
  obtains n this tail b where "decode_optional (length b) n this tail = Inr (h, rest)"
    and "header_sizes this" and "h_base_fee_per_gas this = None" and "h_withdrawals_root this = None"
    and "b = fixed_fields this @ tail"
    and "header_decode buf = Inr (\<lparr>list_flag = True, payload_length = n\<rparr>, b)"
proof -
  from assms obtain hd b where hd: "header_decode buf = Inr (hd, b)" "list_flag hd"
    by (auto simp: decode_header_def and_then_eq_Inr split: if_splits)
  obtain n where n: "hd = \<lparr>list_flag = True, payload_length = n\<rparr>"
    using hd(2) by (cases hd) simp
  have nonce: "\<exists>m. bs = to_be_bytes (m :: u64)" if "length bs = 8" for bs
    using that nat_to_be_nat_from_be [of bs] nat_from_be_less [of bs]
    by (intro exI [of _ "from_be_bytes bs"])
      (simp add: to_be_bytes_def from_be_bytes_def unat_of_nat)
  show thesis
    using assms
    unfolding decode_header_def hd(1) n try_res_simps and_then_Inr prod.case Let_def
      rlp_header.simps not_True_eq_False if_False decode_optional_def [symmetric]
    by - (elim rlp_h256.try_bindE rlp_h160.try_bindE rlp_bloom.try_bindE rlp_u256.try_bindE
        decode_to_u64E rlp_u64.try_bindE rlp_bytes.try_bindE rlp_h64.try_bindE, rule that, assumption,
        auto simp: header_sizes_def fixed_fields_def hd(1) n dest!: nonce)
qed

lemma decode_header_strict:
  assumes "decode_header buf = Inr (h, rest)"
  shows "\<exists>h0. header_wf h0 \<and> h = drop_zero_fee h0 \<and> buf = encode_header h0 @ rest"
proof -
  from decode_header_fixed_strict [OF assms] obtain n this tail b where
    opt: "decode_optional (length b) n this tail = Inr (h, rest)"
    and th: "header_sizes this" "h_base_fee_per_gas this = None" "h_withdrawals_root this = None"
    and b: "b = fixed_fields this @ tail"
    and hd: "header_decode buf = Inr (\<lparr>list_flag = True, payload_length = n\<rparr>, b)" .
  from decode_optional_strict [OF opt th(2,3)] obtain base root where
    root: "case root of Some r \<Rightarrow> length r = 32 | None \<Rightarrow> True"
    and h: "h = drop_zero_fee (this\<lparr>h_base_fee_per_gas := base, h_withdrawals_root := root\<rparr>)"
    and tail: "tail = optional_fields (this\<lparr>h_base_fee_per_gas := base, h_withdrawals_root := root\<rparr>) @ rest"
    and n: "length b - length rest = n" .
  define h0 where "h0 = this\<lparr>h_base_fee_per_gas := base, h_withdrawals_root := root\<rparr>"
  have fixed: "fixed_fields this = fixed_fields h0" by (simp add: h0_def fixed_fields_def)
  have sizes: "header_sizes h0"
    using th(1) root by (simp add: header_sizes_def h0_def)
  have "n = header_payload_length h0"
    using n b tail [folded h0_def] fixed by (simp add: header_payload_length_eq [OF sizes])
  moreover have "n < 2 ^ 64" and "buf = header_encode \<lparr>list_flag = True, payload_length = n\<rparr> @ fixed_fields this @ tail"
    using header_decode_strict [OF hd] b by simp_all
  ultimately have "header_wf h0" "buf = encode_header h0 @ rest"
    using sizes fixed tail [folded h0_def] by (simp_all add: header_wf_def encode_header_eq)
  with h show ?thesis by (auto simp: h0_def)
qed

lemma length_encode_header:
  assumes "header_wf h"
  shows "encoded_header_length h = length (encode_header h)"
proof -
  have n: "header_payload_length h < 2 ^ 64" and "header_sizes h"
    using assms by (simp_all add: header_wf_def)
  then have "length (fixed_fields h @ optional_fields h) = header_payload_length h"
    by (simp only: header_payload_length_eq)
  then show ?thesis
    unfolding encoded_header_length_def encode_header_eq length_append [of "header_encode _"]
    by (simp only: length_header_encode [OF n] add.commute)
qed

lemma decode_headers_direction_iff:
  "decode_headers_direction buf = Inr (d, rest) \<longleftrightarrow> buf = encode_headers_direction d @ rest"
proof -
  have "decode_bool buf = Inr (v, rest) \<longleftrightarrow> buf = encode_bool v @ rest" for v
    using decode_bool_encode decode_bool_strict by blast
  then have "decode_headers_direction buf = Inr (d, rest) \<longleftrightarrow>
      (\<exists>v. buf = encode_bool v @ rest \<and> headers_direction_new v = d)"
    by (auto simp: decode_headers_direction_def and_then_eq_Inr)
  also have "\<dots> \<longleftrightarrow> buf = encode_headers_direction d @ rest"
    by (cases d) (auto simp: encode_headers_direction_def headers_direction_new_def
        headers_direction_to_bool_def split: if_splits)
  finally show ?thesis .
qed

lemma zero_header_wf [simp]: "header_wf zero_header"
proof -
  have "header_payload_length zero_header < 2 ^ 64"
    by (simp add: zero_header_def header_payload_length_def slice_length_def length_of_length_def
        leading_zeros_def ruint_length_def uint_length_def EMPTY_STRING_CODE_def)
  then show ?thesis
    by (simp add: header_wf_def header_sizes_def zero_header_def)
qed

lemma zero_header_sizes [simp]: "header_sizes zero_header"
  using zero_header_wf by (simp add: header_wf_def del: zero_header_wf)

lemma zero_header_fee [simp]: "h_base_fee_per_gas zero_header = None"
  by (simp add: zero_header_def)

lemma length_encode_slice_bound:
  assumes "length s = n"
    and "n < 1000"
  shows "length (encode_slice s) \<le> n + 9"
proof -
  have "length_of_length n \<le> 9" by (simp add: length_of_length_def)
  then show ?thesis
    using assms length_encode_slice [of s] by (simp add: slice_length_def split: if_splits)
qed

lemma length_encode_u256_le: "length (encode_ruint (w :: u256)) \<le> 33"
  using uint_length_le [of w] by (simp add: encode_ruint_eq length_encode_uint)

section \<open>Properties\<close>

text \<open>C8. The header decoder returns the header \<open>h\<close> exactly on an encoding of a header \<open>h0\<close> that is
  \<open>h\<close> up to a base fee of zero: every accepted input is an encoding (there is no other form of
  the fields or of the list header), and of the two encodings that differ in a trailing base fee
  \<open>Some 0\<close> the decoder makes the same header without a base fee.\<close>

theorem decode_header_iff:
  "decode_header buf = Inr (h, rest) \<longleftrightarrow>
     (\<exists>h0. header_wf h0 \<and> h = drop_zero_fee h0 \<and> buf = encode_header h0 @ rest)"
  using decode_header_strict decode_header_encode by blast

text \<open>C31. A sealed header survives the codec, with its hash, exactly when its base fee is not
  \<open>Some 0\<close>: the hash is that of the bytes received, so it is the hash of the header that was
  sent in any case, but a zero base fee is dropped from the header that it seals.\<close>

theorem sealed_header_roundtrip_iff:
  assumes "header_wf h"
  shows "decode_sealed_header keccak256 (encode_sealed_header (seal_slow keccak256 h) @ rest)
      = Inr (seal (drop_zero_fee h) (hash_slow keccak256 h), rest) \<and>
    (decode_sealed_header keccak256 (encode_sealed_header (seal_slow keccak256 h) @ rest)
      = Inr (seal_slow keccak256 h, rest) \<longleftrightarrow> h_base_fee_per_gas h \<noteq> Some 0)"
proof -
  have dec: "decode_sealed_header keccak256 (encode_sealed_header (seal_slow keccak256 h) @ rest)
      = Inr (seal (drop_zero_fee h) (hash_slow keccak256 h), rest)"
    using assms
    by (simp add: decode_sealed_header_def encode_sealed_header_def seal_slow_def seal_def
        decode_header_encode hash_slow_def Let_def)
  have "drop_zero_fee h = h \<longleftrightarrow> h_base_fee_per_gas h \<noteq> Some 0"
    by (cases h) (auto simp: drop_zero_fee_def)
  with dec show ?thesis
    by (auto simp: seal_slow_def seal_def Let_def)
qed

theorem sealed_header_roundtrip_witness:
  "decode_sealed_header id (encode_sealed_header (seal_slow id zero_header) @ [7])
     = Inr (seal_slow id zero_header, [7])"
  using sealed_header_roundtrip_iff [of zero_header id "[7]"] zero_header_wf zero_header_fee
  by (metis option.distinct(1))

text \<open>A header from the network whose number field is a canonical integer of more than 64 bits
  makes the decoder panic instead of returning an error.\<close>

theorem decode_header_number_panics:
  assumes sizes: "header_sizes h" and big: "2 ^ 64 \<le> unat (w :: u256)"
    and payload: "payload = encode_slice (h_parent_hash h) @ encode_slice (h_ommers_hash h) @
      encode_slice (h_beneficiary h) @ encode_slice (h_state_root h) @
      encode_slice (h_transactions_root h) @ encode_slice (h_receipts_root h) @
      encode_slice (h_logs_bloom h) @ encode_ruint (h_difficulty h) @ encode_ruint w @ extra"
    and len: "length payload < 2 ^ 64"
  shows "decode_header (header_encode \<lparr>list_flag = True, payload_length = length payload\<rparr> @ payload)
    = Inl Panic"
proof -
  have hd: "header_decode (header_encode \<lparr>list_flag = True, payload_length = length payload\<rparr> @ payload)
      = Inr (\<lparr>list_flag = True, payload_length = length payload\<rparr>, payload)"
    using len by (intro header_decode_encode) simp_all
  have "decode_to_u64 (encode_ruint w @ extra) = Inl Panic"
    using big by (simp add: decode_to_u64_def rlp_u256.dec_enc)
  then show ?thesis
    using sizes unfolding decode_header_def hd try_res_simps and_then_Inr prod.case Let_def
    unfolding header_sizes_def payload
    by simp
qed

theorem decode_header_number_panics_witness:
  "(let h = zero_header;
        payload = encode_slice (h_parent_hash h) @ encode_slice (h_ommers_hash h) @
          encode_slice (h_beneficiary h) @ encode_slice (h_state_root h) @
          encode_slice (h_transactions_root h) @ encode_slice (h_receipts_root h) @
          encode_slice (h_logs_bloom h) @ encode_ruint (h_difficulty h) @
          encode_ruint (0x10000000000000000 :: u256)
    in decode_header (header_encode \<lparr>list_flag = True, payload_length = length payload\<rparr> @ payload)
       = Inl Panic)"
proof -
  have len: "length (h_parent_hash zero_header) = 32" "length (h_ommers_hash zero_header) = 32"
    "length (h_beneficiary zero_header) = 20" "length (h_state_root zero_header) = 32"
    "length (h_transactions_root zero_header) = 32" "length (h_receipts_root zero_header) = 32"
    "length (h_logs_bloom zero_header) = 256"
    using zero_header_sizes by (simp_all add: header_sizes_def del: zero_header_sizes)
  have slices: "length (encode_slice s) \<le> 265" if "length s \<in> {32, 20, 256}" for s
    using that length_encode_slice_bound [OF refl, of s] by auto
  note slices [of "h_parent_hash zero_header"] slices [of "h_ommers_hash zero_header"]
    slices [of "h_beneficiary zero_header"] slices [of "h_state_root zero_header"]
    slices [of "h_transactions_root zero_header"] slices [of "h_receipts_root zero_header"]
    slices [of "h_logs_bloom zero_header"]
  note bounds = this [unfolded len, simplified]
  have big: "2 ^ 64 \<le> unat (0x10000000000000000 :: u256)"
    by (simp add: unsigned_numeral)
  show ?thesis
    unfolding Let_def
    by (rule decode_header_number_panics [OF zero_header_sizes big, of _ "[]"])
      (use bounds length_encode_u256_le [of "h_difficulty zero_header"]
        length_encode_u256_le [of "0x10000000000000000"] in simp_all)
qed

end
