(* ===== verification/ForkId.thy ===== *)
theory ForkId
  imports BTree BlockHeader
begin

text \<open>
  Fork identifiers (EIP-2124), \<^verbatim>\<open>crates/primitives/src/forkid.rs\<close>. The CRC-32 of the third-party
  crate is a parameter: \<open>crc_checksum bs\<close> is \<^verbatim>\<open>Crc::checksum\<close> and \<open>crc_digest init bs\<close> is
  \<^verbatim>\<open>digest_with_initial(init)\<close>, \<^verbatim>\<open>update(bs)\<close>, \<^verbatim>\<open>finalize\<close>. The lemmas show that the filter never
  panics, that its cache is what recomputation gives, and that two nodes with the same forks
  accept each other's identifiers wherever their heads are.
\<close>

section \<open>Definitions\<close>

record head =
  head_number :: u64
  head_hash :: h256
  head_difficulty :: u256
  head_total_difficulty :: u256
  head_timestamp :: u64

record crc32 =
  crc_checksum :: "bytes \<Rightarrow> u32"
  crc_digest :: "u32 \<Rightarrow> bytes \<Rightarrow> u32"

type_synonym fork_hash = bytes

definition fork_hash_from :: "crc32 \<Rightarrow> h256 \<Rightarrow> fork_hash" where
  "fork_hash_from crc genesis = to_be_bytes (crc_checksum crc genesis)"

definition fork_hash_add :: "crc32 \<Rightarrow> fork_hash \<Rightarrow> u64 \<Rightarrow> fork_hash" where
  "fork_hash_add crc h v =
     (let blob = to_be_bytes v;
          val = crc_digest crc (from_be_bytes h) []
      in to_be_bytes (crc_digest crc val blob))"

datatype fork_filter_key = Key_Block u64 | Key_Time u64

fun fork_filter_key_cmp :: "fork_filter_key \<Rightarrow> fork_filter_key \<Rightarrow> bool" where
  "fork_filter_key_cmp (Key_Block a) (Key_Block b) \<longleftrightarrow> a \<le> b"
| "fork_filter_key_cmp (Key_Time a) (Key_Time b) \<longleftrightarrow> a \<le> b"
| "fork_filter_key_cmp (Key_Block _) (Key_Time _) \<longleftrightarrow> True"
| "fork_filter_key_cmp (Key_Time _) (Key_Block _) \<longleftrightarrow> False"

instantiation fork_filter_key :: linorder
begin

definition less_eq_fork_filter_key :: "fork_filter_key \<Rightarrow> fork_filter_key \<Rightarrow> bool" where
  "less_eq_fork_filter_key = fork_filter_key_cmp"

definition less_fork_filter_key :: "fork_filter_key \<Rightarrow> fork_filter_key \<Rightarrow> bool" where
  "less_fork_filter_key x y \<longleftrightarrow> fork_filter_key_cmp x y \<and> \<not> fork_filter_key_cmp y x"

instance
proof
  fix x y z :: fork_filter_key
  show "x < y \<longleftrightarrow> x \<le> y \<and> \<not> y \<le> x"
    by (simp add: less_eq_fork_filter_key_def less_fork_filter_key_def)
  show "x \<le> x"
    by (cases x) (simp_all add: less_eq_fork_filter_key_def)
  show "x \<le> z" if "x \<le> y" "y \<le> z"
    using that by (cases x; cases y; cases z) (auto simp: less_eq_fork_filter_key_def)
  show "x = y" if "x \<le> y" "y \<le> x"
    using that by (cases x; cases y) (auto simp: less_eq_fork_filter_key_def)
  show "x \<le> y \<or> y \<le> x"
    by (cases x; cases y) (auto simp: less_eq_fork_filter_key_def)
qed

end

lemma fork_filter_key_le_simps [simp]:
  "Key_Block a \<le> Key_Block b \<longleftrightarrow> a \<le> b" "Key_Time a \<le> Key_Time b \<longleftrightarrow> a \<le> b"
  "Key_Block a \<le> Key_Time b" "\<not> Key_Time a \<le> Key_Block b"
  "Key_Block a < Key_Block b \<longleftrightarrow> a < b" "Key_Time a < Key_Time b \<longleftrightarrow> a < b"
  "Key_Block a < Key_Time b" "\<not> Key_Time a < Key_Block b"
  by (auto simp: less_eq_fork_filter_key_def less_fork_filter_key_def)

definition key_u64 :: "fork_filter_key \<Rightarrow> u64" where
  "key_u64 k = (case k of Key_Block block \<Rightarrow> block | Key_Time time \<Rightarrow> time)"

record fork_id =
  fid_hash :: fork_hash
  fid_next :: u64

datatype validation_error =
    RemoteStale fork_id fork_id
  | LocalIncompatibleOrStale fork_id fork_id

record fork_cache =
  fc_epoch_start :: fork_filter_key
  fc_epoch_end :: "fork_filter_key option"
  fc_past :: "(fork_filter_key \<times> fork_hash) list"
  fc_future :: "fork_hash list"
  fc_fork_id :: fork_id

record fork_filter =
  ff_forks :: "(fork_filter_key, fork_hash) btree"
  ff_head :: head
  ff_cache :: fork_cache

record fork_transition =
  ft_current :: fork_id
  ft_past :: fork_id

definition key_active :: "fork_filter_key \<Rightarrow> head \<Rightarrow> bool" where
  "key_active key head =
     (case key of
        Key_Block block \<Rightarrow> block \<le> head_number head
      | Key_Time time \<Rightarrow> time \<le> head_timestamp head)"

text \<open>The loop of \<^verbatim>\<open>compute_cache\<close> over the forks, with its four variables.\<close>

fun cache_loop ::
    "head \<Rightarrow> (fork_filter_key \<times> fork_hash) list \<Rightarrow>
     fork_filter_key \<times> fork_filter_key option \<times> (fork_filter_key \<times> fork_hash) list \<times> fork_hash list \<Rightarrow>
     fork_filter_key \<times> fork_filter_key option \<times> (fork_filter_key \<times> fork_hash) list \<times> fork_hash list" where
  "cache_loop head [] s = s"
| "cache_loop head ((key, hash) # forks) (epoch_start, epoch_end, past, future) =
     cache_loop head forks
       (if key_active key head then (key, epoch_end, past @ [(key, hash)], future)
        else (epoch_start, (if epoch_end = None then Some key else epoch_end), past, future @ [hash]))"

text \<open>\<^verbatim>\<open>past.last().expect(..)\<close> panics on an empty list, which is \<^term>\<open>None\<close>.\<close>

definition compute_cache :: "(fork_filter_key, fork_hash) btree \<Rightarrow> head \<Rightarrow> fork_cache option" where
  "compute_cache forks head =
     (let (epoch_start, epoch_end, past, future) = cache_loop head forks (Key_Block 0, None, [], [])
      in if past = [] then None
         else Some \<lparr>fc_epoch_start = epoch_start, fc_epoch_end = epoch_end, fc_past = past,
                fc_future = future,
                fc_fork_id = \<lparr>fid_hash = snd (last past),
                  fid_next = key_u64 (case epoch_end of Some k \<Rightarrow> k | None \<Rightarrow> Key_Block 0)\<rparr>\<rparr>)"

definition fork_filter_forks ::
    "crc32 \<Rightarrow> h256 \<Rightarrow> fork_filter_key list \<Rightarrow> (fork_filter_key, fork_hash) btree" where
  "fork_filter_forks crc genesis fs =
     (let genesis_fork_hash = fork_hash_from crc genesis;
          forks = btree_set fs;
          forks = filter (\<lambda>k. k \<noteq> Key_Time 0) forks;
          forks = filter (\<lambda>k. k \<noteq> Key_Block 0) forks
      in fst (foldl (\<lambda>(acc, base_hash) key.
                let fork_hash = fork_hash_add crc base_hash (key_u64 key)
                in (btree_insert key fork_hash acc, fork_hash))
              ([(Key_Block 0, genesis_fork_hash)], genesis_fork_hash) forks))"

definition fork_filter_new ::
    "crc32 \<Rightarrow> head \<Rightarrow> h256 \<Rightarrow> fork_filter_key list \<Rightarrow> fork_filter option" where
  "fork_filter_new crc head genesis fs =
     (let forks = fork_filter_forks crc genesis fs
      in map_option (\<lambda>cache. \<lparr>ff_forks = forks, ff_head = head, ff_cache = cache\<rparr>)
           (compute_cache forks head))"

definition filter_current :: "fork_filter \<Rightarrow> fork_id" where
  "filter_current f = fc_fork_id (ff_cache f)"

definition recompute_cache :: "fork_cache \<Rightarrow> head \<Rightarrow> bool" where
  "recompute_cache cache head =
     (let head_in_past =
            (case fc_epoch_start cache of
               Key_Block epoch_start_block \<Rightarrow> head_number head < epoch_start_block
             | Key_Time epoch_start_time \<Rightarrow> head_timestamp head < epoch_start_time);
          head_in_future =
            (case fc_epoch_end cache of
               Some (Key_Block epoch_end_block) \<Rightarrow> head_number head \<ge> epoch_end_block
             | Some (Key_Time epoch_end_time) \<Rightarrow> head_timestamp head \<ge> epoch_end_time
             | None \<Rightarrow> False)
      in head_in_past \<or> head_in_future)"

definition set_head :: "head \<Rightarrow> fork_filter \<Rightarrow> (fork_filter \<times> fork_transition option) option" where
  "set_head head f =
     (if recompute_cache (ff_cache f) head then
        (let past = filter_current f
         in map_option (\<lambda>cache.
              let f = f\<lparr>ff_cache := cache\<rparr>
              in (f\<lparr>ff_head := head\<rparr>, Some \<lparr>ft_current = filter_current f, ft_past = past\<rparr>))
              (compute_cache (ff_forks f) head))
      else Some (f\<lparr>ff_head := head\<rparr>, None))"

text \<open>The scan of the past forks: \<open>Some r\<close> is a return from inside the loop.\<close>

fun validate_past ::
    "fork_id \<Rightarrow> fork_id \<Rightarrow> (fork_filter_key \<times> fork_hash) list \<Rightarrow> (validation_error + unit) option" where
  "validate_past current fork_id [] = None"
| "validate_past current fork_id ((_, hash) # it) =
     (if hash = fid_hash fork_id then
        (case it of
           (actual_key, _) # _ \<Rightarrow>
             if key_u64 actual_key = fid_next fork_id then Some (Inr ())
             else Some (Inl (RemoteStale current fork_id))
         | [] \<Rightarrow> None)
      else validate_past current fork_id it)"

definition validate :: "fork_filter \<Rightarrow> fork_id \<Rightarrow> validation_error + unit" where
  "validate f fork_id =
     (if fid_hash (filter_current f) = fid_hash fork_id then
        (if fid_next fork_id = 0 then Inr ()
         else (let head_block_or_time =
                     (case fc_epoch_start (ff_cache f) of
                        Key_Block _ \<Rightarrow> head_number (ff_head f)
                      | Key_Time _ \<Rightarrow> head_timestamp (ff_head f))
               in if head_block_or_time \<ge> fid_next fork_id
                  then Inl (LocalIncompatibleOrStale (filter_current f) fork_id)
                  else Inr ()))
      else (case validate_past (filter_current f) fork_id (fc_past (ff_cache f)) of
              Some r \<Rightarrow> r
            | None \<Rightarrow>
                if fid_hash fork_id \<in> set (fc_future (ff_cache f)) then Inr ()
                else Inl (LocalIncompatibleOrStale (filter_current f) fork_id)))"

section \<open>The cache\<close>

definition cache_of :: "(fork_filter_key \<times> fork_hash) list \<Rightarrow> (fork_filter_key \<times> fork_hash) list \<Rightarrow> fork_cache" where
  "cache_of past future =
     \<lparr>fc_epoch_start = fst (last past),
      fc_epoch_end = (case future of [] \<Rightarrow> None | e # _ \<Rightarrow> Some (fst e)),
      fc_past = past, fc_future = map snd future,
      fc_fork_id = \<lparr>fid_hash = snd (last past),
        fid_next = (case future of [] \<Rightarrow> 0 | e # _ \<Rightarrow> key_u64 (fst e))\<rparr>\<rparr>"

lemma cache_loop_eq:
  "cache_loop head forks (st, en, past, future) =
     (let act = filter (\<lambda>e. key_active (fst e) head) forks;
          inact = filter (\<lambda>e. \<not> key_active (fst e) head) forks
      in (if act = [] then st else fst (last act),
          (if en = None then (case inact of [] \<Rightarrow> None | e # _ \<Rightarrow> Some (fst e)) else en),
          past @ act, future @ map snd inact))"
proof (induction forks arbitrary: st en past future)
  case (Cons e forks)
  obtain k h where e: "e = (k, h)" by (cases e)
  show ?case
    by (simp add: e Cons Let_def split: list.split)
qed simp

lemma compute_cache_eq:
  "compute_cache forks head =
     (let act = filter (\<lambda>e. key_active (fst e) head) forks;
          inact = filter (\<lambda>e. \<not> key_active (fst e) head) forks
      in if act = [] then None else Some (cache_of act inact))"
  by (simp add: compute_cache_def cache_loop_eq cache_of_def Let_def key_u64_def split: list.split)

text \<open>
  A head is consistent with the forks when the active forks are an initial part of them: no
  time-based fork is active before a block-based one, as on every chain that activates its forks
  in order.
\<close>

definition prefix_active :: "fork_filter_key list \<Rightarrow> head \<Rightarrow> bool" where
  "prefix_active ks head \<longleftrightarrow>
     list_all (\<lambda>k2. key_active k2 head \<longrightarrow> list_all (\<lambda>k1. k1 \<le> k2 \<longrightarrow> key_active k1 head) ks) ks"

lemma prefix_activeD:
  "prefix_active ks head \<Longrightarrow> k1 \<in> set ks \<Longrightarrow> k2 \<in> set ks \<Longrightarrow> k1 \<le> k2 \<Longrightarrow> key_active k2 head
    \<Longrightarrow> key_active k1 head"
  unfolding prefix_active_def list_all_iff by blast

lemma prefix_active_subset: "prefix_active ks' head \<Longrightarrow> set ks \<subseteq> set ks' \<Longrightarrow> prefix_active ks head"
  unfolding prefix_active_def list_all_iff by blast

text \<open>What every list of forks of a filter satisfies: ascending, and it begins with the genesis.\<close>

definition forks_ok :: "(fork_filter_key, fork_hash) btree \<Rightarrow> bool" where
  "forks_ok forks \<longleftrightarrow> btree_wf forks \<and> forks \<noteq> [] \<and> fst (hd forks) = Key_Block 0"

lemma Key_Block_0_le: "Key_Block 0 \<le> k"
  by (cases k) simp_all

lemma Key_Block_0_active [simp]: "key_active (Key_Block 0) head"
  by (simp add: key_active_def)

lemma keys_nth_le:
  assumes "sorted_wrt (<) (map fst (xs :: ('k::linorder \<times> 'v) list))" and "i \<le> j" and "j < length xs"
  shows "fst (xs ! i) \<le> fst (xs ! j)"
  using assms sorted_wrt_nth_less [of "(<)" "map fst xs" i j] by (cases "i = j") auto

lemma compute_cache_split:
  assumes ok: "forks_ok forks" and p: "prefix_active (map fst forks) head"
  shows "\<exists>n. 0 < n \<and> n \<le> length forks \<and>
    compute_cache forks head = Some (cache_of (take n forks) (drop n forks)) \<and>
    (\<forall>i < length forks. key_active (fst (forks ! i)) head \<longleftrightarrow> i < n)"
proof -
  define P where "P = (\<lambda>e :: fork_filter_key \<times> fork_hash. key_active (fst e) head)"
  have sorted: "sorted_wrt (<) (map fst forks)"
    using ok by (simp add: forks_ok_def btree_wf_def)
  have down: "P (forks ! i)" if "i \<le> j" "j < length forks" "P (forks ! j)" for i j
    unfolding P_def
  proof (rule prefix_activeD [OF p _ _ keys_nth_le [OF sorted that(1,2)]])
    show "fst (forks ! i) \<in> set (map fst forks)" "fst (forks ! j) \<in> set (map fst forks)"
      using that by simp_all
    show "key_active (fst (forks ! j)) head"
      using that(3) by (simp only: P_def)
  qed
  define n where "n = length (takeWhile P forks)"
  have n: "take n forks = takeWhile P forks" "drop n forks = dropWhile P forks" "n \<le> length forks"
    by (simp_all add: n_def takeWhile_eq_take [symmetric] dropWhile_eq_drop [symmetric] length_takeWhile_le)
  have less: "P (forks ! i)" if "i < n" for i
    using that takeWhile_nth [of i P forks] nth_mem [of i "takeWhile P forks"]
    by (auto simp: n_def dest: set_takeWhileD)
  have nless: "\<not> P (forks ! i)" if "n \<le> i" "i < length forks" for i
    using that down [of n i] nth_length_takeWhile [of P forks] by (auto simp: n_def)
  have iff: "\<forall>i < length forks. P (forks ! i) \<longleftrightarrow> i < n"
  proof (intro allI impI iffI)
    show "i < n" if "i < length forks" "P (forks ! i)" for i
      using that nless [of i] by (cases "i < n") auto
  qed (rule less)
  have "\<forall>e \<in> set (take n forks). P e"
    unfolding n(1) by (auto dest: set_takeWhileD)
  moreover have "\<forall>e \<in> set (drop n forks). \<not> P e"
  proof
    fix e assume "e \<in> set (drop n forks)"
    then obtain i where "i < length forks - n" "e = forks ! (n + i)"
      by (auto simp: in_set_conv_nth)
    with nless [of "n + i"] show "\<not> P e" by simp
  qed
  ultimately have "filter P (take n forks @ drop n forks) = take n forks"
    "filter (\<lambda>e. \<not> P e) (take n forks @ drop n forks) = drop n forks"
    unfolding filter_append by (simp_all add: filter_id_conv filter_empty_conv)
  moreover have "0 < n"
    using ok iff by (cases forks) (auto simp: forks_ok_def P_def)
  ultimately show ?thesis
    using n(3) iff unfolding append_take_drop_id
    by (intro exI [of _ n]) (auto simp: compute_cache_eq P_def Let_def)
qed

lemma not_recompute:
  assumes ok: "forks_ok forks" and p0: "prefix_active (map fst forks) head0"
    and p: "prefix_active (map fst forks) head"
    and cache: "compute_cache forks head0 = Some cache" and keep: "\<not> recompute_cache cache head"
  shows "compute_cache forks head = Some cache"
proof -
  from compute_cache_split [OF ok p0] cache obtain n where n: "0 < n" "n \<le> length forks"
    and c: "cache = cache_of (take n forks) (drop n forks)" by auto
  from compute_cache_split [OF ok p] obtain m where m: "0 < m" "m \<le> length forks"
    "compute_cache forks head = Some (cache_of (take m forks) (drop m forks))"
    "\<forall>i < length forks. key_active (fst (forks ! i)) head \<longleftrightarrow> i < m" by auto
  have "last (take n forks) = forks ! (n - 1)"
    using n by (subst last_conv_nth) auto
  then have "key_active (fst (forks ! (n - 1))) head"
    using keep by (auto simp: c recompute_cache_def cache_of_def key_active_def Let_def
        split: fork_filter_key.splits option.splits list.splits)
  with m n have "n \<le> m" by auto
  moreover have "\<not> key_active (fst (forks ! n)) head" if "n < length forks"
    using keep that Cons_nth_drop_Suc [OF that, symmetric]
    by (auto simp: c recompute_cache_def cache_of_def key_active_def Let_def
        split: fork_filter_key.splits)
  with m have "m \<le> n" using n by (cases "n < length forks") auto
  ultimately show ?thesis
    using m c by simp
qed

section \<open>The filter\<close>

text \<open>The forks of a filter are the genesis and a chain of hashes over the keys.\<close>

fun hash_chain :: "crc32 \<Rightarrow> fork_hash \<Rightarrow> fork_filter_key list \<Rightarrow> (fork_filter_key \<times> fork_hash) list" where
  "hash_chain crc h [] = []"
| "hash_chain crc h (k # ks) =
     (let h' = fork_hash_add crc h (key_u64 k) in (k, h') # hash_chain crc h' ks)"

lemma map_fst_hash_chain [simp]: "map fst (hash_chain crc h ks) = ks"
  by (induction crc h ks rule: hash_chain.induct) (simp_all add: Let_def)

lemma fold_hash_chain:
  fixes acc :: "(fork_filter_key, fork_hash) btree"
  assumes "sorted_wrt (<) ks" and "\<And>k a. k \<in> set ks \<Longrightarrow> a \<in> fst ` set acc \<Longrightarrow> a < k"
  shows "fst (foldl (\<lambda>(acc, base_hash) key.
           let fork_hash = fork_hash_add crc base_hash (key_u64 key)
           in (btree_insert key fork_hash acc, fork_hash)) (acc, h) ks) = acc @ hash_chain crc h ks"
  using assms
proof (induction ks arbitrary: acc h)
  case (Cons k ks)
  have ins: "btree_insert k v acc = acc @ [(k, v)]" for v
    using Cons.prems(2) by (intro btree_insert_last) auto
  have "fst (foldl (\<lambda>(acc, base_hash) key.
           let fork_hash = fork_hash_add crc base_hash (key_u64 key)
           in (btree_insert key fork_hash acc, fork_hash)) (acc @ [(k, v)], v) ks)
        = (acc @ [(k, v)]) @ hash_chain crc v ks" for v
    by (rule Cons.IH) (use Cons.prems in auto)
  then show ?case
    by (simp add: ins Let_def)
qed simp

definition filter_keys :: "fork_filter_key list \<Rightarrow> fork_filter_key list" where
  "filter_keys fs = filter (\<lambda>k. k \<noteq> Key_Block 0) (filter (\<lambda>k. k \<noteq> Key_Time 0) (btree_set fs))"

lemma sorted_filter_keys: "sorted_wrt (<) (filter_keys fs)"
  by (simp add: filter_keys_def sorted_wrt_filter)

lemma filter_keys_pos: "k \<in> set (filter_keys fs) \<Longrightarrow> Key_Block 0 < k"
proof -
  assume "k \<in> set (filter_keys fs)"
  then have "k \<noteq> Key_Block 0" by (simp add: filter_keys_def)
  then show ?thesis by (cases k) (auto simp: word_gt_0)
qed

lemma fork_filter_forks_chain:
  "fork_filter_forks crc genesis fs =
     (Key_Block 0, fork_hash_from crc genesis) # hash_chain crc (fork_hash_from crc genesis) (filter_keys fs)"
  using fold_hash_chain [OF sorted_filter_keys, of fs "[(Key_Block 0, fork_hash_from crc genesis)]" crc
      "fork_hash_from crc genesis"] filter_keys_pos [of _ fs]
  by (simp add: fork_filter_forks_def filter_keys_def Let_def)

lemma map_fst_fork_filter_forks:
  "map fst (fork_filter_forks crc genesis fs) = Key_Block 0 # filter_keys fs"
  by (simp add: fork_filter_forks_chain)

lemma forks_ok_new [simp]: "forks_ok (fork_filter_forks crc genesis fs)"
  using sorted_filter_keys [of fs] filter_keys_pos [of _ fs]
  by (simp add: forks_ok_def fork_filter_forks_chain btree_wf_def)

definition heads_ok :: "crc32 \<Rightarrow> h256 \<Rightarrow> fork_filter_key list \<Rightarrow> head \<Rightarrow> bool" where
  "heads_ok crc genesis fs = prefix_active (map fst (fork_filter_forks crc genesis fs))"

fun set_heads :: "head list \<Rightarrow> fork_filter \<Rightarrow> fork_filter option" where
  "set_heads [] f = Some f"
| "set_heads (h # hs) f = (case set_head h f of None \<Rightarrow> None | Some (f, _) \<Rightarrow> set_heads hs f)"

lemma fork_filter_new_Some:
  "fork_filter_new crc head genesis fs = Some f \<longleftrightarrow>
     (\<exists>cache. compute_cache (fork_filter_forks crc genesis fs) head = Some cache \<and>
        f = \<lparr>ff_forks = fork_filter_forks crc genesis fs, ff_head = head, ff_cache = cache\<rparr>)"
  by (auto simp: fork_filter_new_def Let_def)

lemma set_head_new:
  assumes "heads_ok crc genesis fs h0" and "heads_ok crc genesis fs h"
    and "fork_filter_new crc h0 genesis fs = Some f"
  shows "map_option fst (set_head h f) = fork_filter_new crc h genesis fs"
proof -
  define forks where "forks = fork_filter_forks crc genesis fs"
  from assms(3) obtain cache where cache: "compute_cache forks h0 = Some cache"
    and f: "f = \<lparr>ff_forks = forks, ff_head = h0, ff_cache = cache\<rparr>"
    by (auto simp: fork_filter_new_Some forks_def)
  have p: "prefix_active (map fst forks) h0" "prefix_active (map fst forks) h"
    using assms(1,2) by (simp_all add: heads_ok_def forks_def)
  have ok: "forks_ok forks" by (simp add: forks_def)
  show ?thesis
  proof (cases "recompute_cache cache h")
    case True
    then show ?thesis
      by (simp add: set_head_def f fork_filter_new_def Let_def forks_def option.map_comp o_def)
  next
    case False
    with not_recompute [OF ok p cache False] show ?thesis
      by (simp add: set_head_def f fork_filter_new_def Let_def forks_def [symmetric])
  qed
qed

lemma fork_filter_new_returns: "heads_ok crc genesis fs h \<Longrightarrow> \<exists>f. fork_filter_new crc h genesis fs = Some f"
  using compute_cache_split [OF forks_ok_new, of crc genesis fs h]
  by (auto simp: heads_ok_def fork_filter_new_Some)

lemma set_heads_new:
  assumes "list_all (heads_ok crc genesis fs) (h0 # hs)"
    and "fork_filter_new crc h0 genesis fs = Some f"
  shows "set_heads hs f = fork_filter_new crc (last (h0 # hs)) genesis fs"
  using assms
proof (induction hs arbitrary: h0 f)
  case (Cons h hs)
  then have ok: "heads_ok crc genesis fs h0" "heads_ok crc genesis fs h" by simp_all
  from fork_filter_new_returns [OF ok(2)] obtain f' where f': "fork_filter_new crc h genesis fs = Some f'" ..
  with set_head_new [OF ok Cons.prems(2)] obtain tr where "set_head h f = Some (f', tr)"
    by auto
  with Cons.IH [OF _ f'] Cons.prems(1) show ?case by simp
qed simp

section \<open>Validation\<close>

lemma validate_past_nth:
  assumes "distinct (map snd ps)" and "n < length ps" and "snd (ps ! n) = fid_hash fid"
  shows "validate_past cur fid ps =
    (if Suc n < length ps then
       Some (if key_u64 (fst (ps ! Suc n)) = fid_next fid then Inr () else Inl (RemoteStale cur fid))
     else None)"
  using assms
proof (induction ps arbitrary: n)
  case (Cons e ps)
  obtain k h where e: "e = (k, h)" by (cases e)
  show ?case
  proof (cases n)
    case 0
    with Cons.prems show ?thesis by (cases ps) (auto simp: e)
  next
    case (Suc m)
    with Cons.prems have m: "m < length ps" "snd (ps ! m) = fid_hash fid" "h \<noteq> fid_hash fid"
      using nth_mem [of m "map snd ps"] by (auto simp: e)
    with Suc Cons.IH [of m] Cons.prems show ?thesis by (simp add: e)
  qed
qed simp

lemma validate_past_notin:
  "fid_hash fid \<notin> snd ` set ps \<Longrightarrow> validate_past cur fid ps = None"
  by (induction cur fid ps rule: validate_past.induct) auto

text \<open>
  The comparison in step 1 uses the kind of the last passed fork to choose between the block number
  and the timestamp of the head, so it needs that no fork time is below a block number.
\<close>

definition times_above :: "fork_filter_key list \<Rightarrow> u64 \<Rightarrow> bool" where
  "times_above fs n \<longleftrightarrow> list_all (\<lambda>k. case k of Key_Time t \<Rightarrow> t = 0 \<or> n < t | Key_Block _ \<Rightarrow> True) fs"

definition head_value :: "fork_filter \<Rightarrow> u64" where
  "head_value f =
     (case fc_epoch_start (ff_cache f) of
        Key_Block _ \<Rightarrow> head_number (ff_head f)
      | Key_Time _ \<Rightarrow> head_timestamp (ff_head f))"

text \<open>
  The rules of EIP-2124 on the list of all forks, of which the first \<open>n\<close> are passed: the remote
  identifier is that of the first \<open>j\<close> forks for some \<open>j\<close>; for \<open>j = n\<close> a remotely announced fork is
  not passed locally, and for \<open>j < n\<close> it is the fork that follows.
\<close>

definition eip2124_accepts ::
    "(fork_filter_key, fork_hash) btree \<Rightarrow> nat \<Rightarrow> u64 \<Rightarrow> fork_id \<Rightarrow> bool" where
  "eip2124_accepts forks n cur fid \<longleftrightarrow>
     (\<exists>j. 0 < j \<and> j \<le> length forks \<and> fid_hash fid = snd (forks ! (j - 1)) \<and>
        (if j = n then fid_next fid = 0 \<or> cur < fid_next fid
         else if j < n then fid_next fid = key_u64 (fst (forks ! j)) else True))"

lemma validate_iff:
  assumes dist: "distinct (map snd forks)" and n: "0 < n" "n \<le> length forks"
    and forks: "ff_forks f = forks" and cache: "ff_cache f = cache_of (take n forks) (drop n forks)"
  shows "validate f fid = Inr () \<longleftrightarrow> eip2124_accepts forks n (head_value f) fid"
proof -
  define hash where "hash k = snd (forks ! k)" for k
  have inj: "hash k = hash l \<longleftrightarrow> k = l" if "k < length forks" "l < length forks" for k l
    using that dist by (simp add: hash_def nth_eq_iff_index_eq [OF dist, symmetric])
  have last: "last (take n forks) = forks ! (n - 1)"
    using n by (subst last_conv_nth) auto
  have parts: "fid_hash (filter_current f) = hash (n - 1)" "fc_past (ff_cache f) = take n forks"
    "fc_future (ff_cache f) = map snd (drop n forks)"
    by (simp_all add: filter_current_def cache cache_of_def last hash_def)
  show ?thesis
  proof (cases "\<exists>j. 0 < j \<and> j \<le> length forks \<and> fid_hash fid = hash (j - 1)")
    case False
    have not: "fid_hash fid \<noteq> hash k" if "k < length forks" for k
      using False that by (metis Suc_leI diff_Suc_1 zero_less_Suc)
    have "fid_hash fid \<notin> set (map snd forks)"
      unfolding in_set_conv_nth using not by (metis hash_def length_map nth_map)
    then have "fid_hash fid \<notin> snd ` set forks" by simp
    then have "fid_hash fid \<notin> snd ` set (take n forks)" "fid_hash fid \<notin> snd ` set (drop n forks)"
      by (auto dest: in_set_takeD in_set_dropD)
    moreover have "hash (n - 1) \<noteq> fid_hash fid"
      using not [of "n - 1"] n by fastforce
    ultimately have "validate f fid \<noteq> Inr ()"
      by (simp add: validate_def parts validate_past_notin)
    moreover have "\<not> eip2124_accepts forks n (head_value f) fid"
      unfolding eip2124_accepts_def hash_def [symmetric] using False by blast
    ultimately show ?thesis by simp
  next
    case True
    then obtain j where j: "0 < j" "j \<le> length forks" and h: "fid_hash fid = hash (j - 1)" by auto
    have uniq: "fid_hash fid = hash (k - 1) \<longleftrightarrow> k = j" if "0 < k" "k \<le> length forks" for k
      using that j inj [of "j - 1" "k - 1"] by (auto simp: h)
    have spec: "eip2124_accepts forks n (head_value f) fid \<longleftrightarrow>
        (if j = n then fid_next fid = 0 \<or> head_value f < fid_next fid
         else if j < n then fid_next fid = key_u64 (fst (forks ! j)) else True)"
    proof -
      have "(\<exists>k. 0 < k \<and> k \<le> length forks \<and> fid_hash fid = hash (k - 1) \<and> Q k) \<longleftrightarrow> Q j" for Q
        using uniq j by blast
      then show ?thesis
        unfolding eip2124_accepts_def hash_def [symmetric] .
    qed
    consider "j = n" | "j < n" | "n < j" by linarith
    then show ?thesis
    proof cases
      case 1
      then show ?thesis
        unfolding spec by (auto simp: validate_def parts h head_value_def Let_def not_le)
    next
      case 2
      have "validate_past cur fid (take n forks) =
          Some (if key_u64 (fst (forks ! j)) = fid_next fid then Inr () else Inl (RemoteStale cur fid))" for cur
        using 2 n j dist validate_past_nth [of "take n forks" "j - 1" fid cur]
        by (simp add: h hash_def take_map [symmetric])
      then show ?thesis
        using 2 n j unfolding spec by (auto simp: validate_def parts h inj)
    next
      case 3
      have "hash (j - 1) \<notin> set (map snd (take n forks))"
      proof
        assume "hash (j - 1) \<in> set (map snd (take n forks))"
        then obtain k where k: "k < length (map snd (take n forks))" "map snd (take n forks) ! k = hash (j - 1)"
          unfolding in_set_conv_nth by blast
        then have "hash k = hash (j - 1)" "k < n" using n by (simp_all add: hash_def)
        with inj [of k "j - 1"] 3 n j show False by simp
      qed
      then have "hash (j - 1) \<notin> snd ` set (take n forks)" by simp
      moreover have "hash (j - 1) \<in> set (map snd (drop n forks))"
      proof -
        have "drop n forks ! (j - 1 - n) \<in> set (drop n forks)" using 3 j by (intro nth_mem) simp
        moreover have "drop n forks ! (j - 1 - n) = forks ! (j - 1)" using 3 j by simp
        ultimately show ?thesis by (auto simp: hash_def)
      qed
      moreover have "hash (n - 1) \<noteq> hash (j - 1)"
        using 3 n j inj [of "n - 1" "j - 1"] by auto
      ultimately show ?thesis
        using 3 validate_past_notin [of fid "take n forks"]
        unfolding spec by (simp add: validate_def parts h)
    qed
  qed
qed

lemma validate_same_forks:
  assumes ok: "forks_ok forks" and dist: "distinct (map snd forks)"
    and p1: "prefix_active (map fst forks) h1" and p2: "prefix_active (map fst forks) h2"
    and above: "times_above (map fst forks) (head_number h1)"
    and c1: "compute_cache forks h1 = Some cache1" and c2: "compute_cache forks h2 = Some cache2"
  shows "validate \<lparr>ff_forks = forks, ff_head = h1, ff_cache = cache1\<rparr> (fc_fork_id cache2) = Inr ()"
    (is "validate ?f _ = _")
proof -
  from compute_cache_split [OF ok p1] c1 obtain i where i: "0 < i" "i \<le> length forks"
    and cache1: "cache1 = cache_of (take i forks) (drop i forks)"
    and act1: "\<forall>k < length forks. key_active (fst (forks ! k)) h1 \<longleftrightarrow> k < i" by auto
  from compute_cache_split [OF ok p2] c2 obtain j where j: "0 < j" "j \<le> length forks"
    and cache2: "cache2 = cache_of (take j forks) (drop j forks)" by auto
  have last: "last (take n forks) = forks ! (n - 1)" if "0 < n" "n \<le> length forks" for n
    using that by (subst last_conv_nth) auto
  have fid2: "fid_hash (fc_fork_id cache2) = snd (forks ! (j - 1))"
    "fid_next (fc_fork_id cache2) = (if j < length forks then key_u64 (fst (forks ! j)) else 0)"
    using last [OF j]
    by (cases "j < length forks"; simp add: cache2 cache_of_def Cons_nth_drop_Suc [symmetric])+
  have cur: "head_value ?f < key_u64 (fst (forks ! i))"
    if "i < length forks" "key_u64 (fst (forks ! i)) \<noteq> 0"
  proof -
    have "\<not> key_active (fst (forks ! i)) h1" using act1 that by simp
    moreover have "fst (forks ! (i - 1)) \<le> fst (forks ! i)"
      using ok that by (intro keys_nth_le) (auto simp: forks_ok_def btree_wf_def)
    moreover have "case fst (forks ! i) of Key_Time t \<Rightarrow> t = 0 \<or> head_number h1 < t | Key_Block _ \<Rightarrow> True"
      using above that(1) by (simp add: times_above_def list_all_length)
    ultimately show ?thesis
      using that(2) by (cases "fst (forks ! i)"; cases "fst (forks ! (i - 1))")
        (auto simp: key_active_def key_u64_def head_value_def cache1 cache_of_def last [OF i])
  qed
  have "eip2124_accepts forks i (head_value ?f) (fc_fork_id cache2)"
    unfolding eip2124_accepts_def using cur i j by (intro exI [of _ j]) (auto simp: fid2)
  then show ?thesis
    using validate_iff [OF dist i, of ?f] by (simp add: cache1)
qed

section \<open>Concrete instances\<close>

text \<open>A checksum without collisions on short lists, three forks and two heads.\<close>

definition ex_crc :: crc32 where
  "ex_crc = \<lparr>crc_checksum = (\<lambda>bs. of_nat (length bs)), crc_digest = (\<lambda>i bs. i + of_nat (length bs) + 1)\<rparr>"

definition ex_head :: "u64 \<Rightarrow> u64 \<Rightarrow> head" where
  "ex_head n t = \<lparr>head_number = n, head_hash = [], head_difficulty = 0, head_total_difficulty = 0,
     head_timestamp = t\<rparr>"

definition ex_forks :: "fork_filter_key list" where
  "ex_forks = [Key_Block 0, Key_Time 100, Key_Block 20, Key_Block 10, Key_Block 20]"

lemma ex_keys: "filter_keys ex_forks = [Key_Block 10, Key_Block 20, Key_Time 100]"
  by (simp add: filter_keys_def btree_set_def ex_forks_def)

lemma ex_heads_ok:
  "heads_ok ex_crc [] ex_forks (ex_head 5 50)" "heads_ok ex_crc [] ex_forks (ex_head 15 60)"
  "heads_ok ex_crc [] ex_forks (ex_head 25 70)" "heads_ok ex_crc [] ex_forks (ex_head 30 120)"
  "heads_ok ex_crc [] ex_forks (ex_head 12 55)"
  by (simp_all add: heads_ok_def map_fst_fork_filter_forks ex_keys prefix_active_def key_active_def ex_head_def)

lemma ex_distinct: "distinct (map snd (fork_filter_forks ex_crc [] ex_forks))"
  by code_simp

section \<open>Properties\<close>







end
