(* ===== verification/ChainSpec.thy ===== *)
theory ChainSpec
  imports ForkId
begin

text \<open>
  Hardforks, their activation conditions and the chain specification:
  \<^verbatim>\<open>crates/primitives/src/hardfork.rs\<close>, \<^verbatim>\<open>chain/spec.rs\<close> and \<^verbatim>\<open>genesis.rs\<close>. The state root of the
  genesis allocation is computed by a third-party trie and is a parameter. The lemmas relate the
  fork identifier that a specification computes to the one of its fork filter.
\<close>

section \<open>Hardforks and conditions\<close>

datatype hardfork =
    Frontier | Homestead | Dao | Tangerine | SpuriousDragon | Byzantium | Constantinople
  | Petersburg | Istanbul | MuirGlacier | Berlin | London | ArrowGlacier | GrayGlacier | Paris
  | Shanghai

text \<open>The derived order of the enumeration is the order of its constructors.\<close>

primrec hardfork_index :: "hardfork \<Rightarrow> nat" where
  "hardfork_index Frontier = 0"
| "hardfork_index Homestead = 1"
| "hardfork_index Dao = 2"
| "hardfork_index Tangerine = 3"
| "hardfork_index SpuriousDragon = 4"
| "hardfork_index Byzantium = 5"
| "hardfork_index Constantinople = 6"
| "hardfork_index Petersburg = 7"
| "hardfork_index Istanbul = 8"
| "hardfork_index MuirGlacier = 9"
| "hardfork_index Berlin = 10"
| "hardfork_index London = 11"
| "hardfork_index ArrowGlacier = 12"
| "hardfork_index GrayGlacier = 13"
| "hardfork_index Paris = 14"
| "hardfork_index Shanghai = 15"

instantiation hardfork :: linorder
begin

definition less_eq_hardfork :: "hardfork \<Rightarrow> hardfork \<Rightarrow> bool" where
  "less_eq_hardfork x y \<longleftrightarrow> hardfork_index x \<le> hardfork_index y"

definition less_hardfork :: "hardfork \<Rightarrow> hardfork \<Rightarrow> bool" where
  "less_hardfork x y \<longleftrightarrow> hardfork_index x < hardfork_index y"

instance
proof
  fix x y :: hardfork
  show "x = y" if "x \<le> y" "y \<le> x"
    using that by (cases x; cases y) (simp_all add: less_eq_hardfork_def)
qed (auto simp: less_eq_hardfork_def less_hardfork_def)

end

datatype fork_condition =
    Fork_Block u64
  | Fork_TTD "u64 option" u256
  | Fork_Timestamp u64
  | Fork_Never

fun active_at_block :: "fork_condition \<Rightarrow> u64 \<Rightarrow> bool" where
  "active_at_block (Fork_Block block) current_block \<longleftrightarrow> current_block \<ge> block"
| "active_at_block (Fork_TTD (Some block) _) current_block \<longleftrightarrow> current_block \<ge> block"
| "active_at_block _ _ \<longleftrightarrow> False"

fun transitions_at_block :: "fork_condition \<Rightarrow> u64 \<Rightarrow> bool" where
  "transitions_at_block (Fork_Block block) current_block \<longleftrightarrow> current_block = block"
| "transitions_at_block _ _ \<longleftrightarrow> False"

fun active_at_ttd :: "fork_condition \<Rightarrow> u256 \<Rightarrow> u256 \<Rightarrow> bool" where
  "active_at_ttd (Fork_TTD _ total_difficulty) ttd difficulty
     \<longleftrightarrow> saturating_sub ttd difficulty \<ge> total_difficulty"
| "active_at_ttd _ _ _ \<longleftrightarrow> False"

fun active_at_timestamp :: "fork_condition \<Rightarrow> u64 \<Rightarrow> bool" where
  "active_at_timestamp (Fork_Timestamp time) timestamp \<longleftrightarrow> timestamp \<ge> time"
| "active_at_timestamp _ _ \<longleftrightarrow> False"

definition active_at_head :: "fork_condition \<Rightarrow> head \<Rightarrow> bool" where
  "active_at_head c head \<longleftrightarrow>
     active_at_block c (head_number head) \<or>
     active_at_timestamp c (head_timestamp head) \<or>
     active_at_ttd c (head_total_difficulty head) (head_difficulty head)"

fun fork_ttd :: "fork_condition \<Rightarrow> u256 option" where
  "fork_ttd (Fork_TTD _ total_difficulty) = Some total_difficulty"
| "fork_ttd _ = None"

definition default_head :: head where
  "default_head = \<lparr>head_number = 0, head_hash = replicate 32 0, head_difficulty = 0,
     head_total_difficulty = 0, head_timestamp = 0\<rparr>"

text \<open>\<^verbatim>\<open>unreachable!()\<close> on a condition that is never satisfied is \<^term>\<open>None\<close>.\<close>

fun satisfy :: "fork_condition \<Rightarrow> head option" where
  "satisfy (Fork_Block number) = Some (default_head\<lparr>head_number := number\<rparr>)"
| "satisfy (Fork_Timestamp timestamp) = Some (default_head\<lparr>head_timestamp := timestamp\<rparr>)"
| "satisfy (Fork_TTD _ total_difficulty) = Some (default_head\<lparr>head_total_difficulty := total_difficulty\<rparr>)"
| "satisfy Fork_Never = None"

section \<open>The chain specification\<close>

record genesis_account =
  ga_nonce :: "u64 option"
  ga_balance :: u256
  ga_code :: "bytes option"
  ga_storage :: "(h256 \<rightharpoonup> h256) option"

record genesis =
  g_nonce :: u64
  g_timestamp :: u64
  g_extra_data :: bytes
  g_gas_limit :: u64
  g_difficulty :: u256
  g_mix_hash :: h256
  g_coinbase :: h160
  g_alloc :: "h160 \<rightharpoonup> genesis_account"

record chain_spec =
  cs_chain :: u64
  cs_genesis_hash :: "h256 option"
  cs_genesis :: genesis
  cs_hardforks :: "(hardfork, fork_condition) btree"

definition EIP1559_INITIAL_BASE_FEE :: u64 where
  "EIP1559_INITIAL_BASE_FEE = 1000000000"

definition EMPTY_WITHDRAWALS :: h256 where
  "EMPTY_WITHDRAWALS = nat_to_be 32 0x56e81f171bcc55a6ff8345e692c0f86e5b48e01b996cadc001622fb5e363b421"

definition spec_fork :: "chain_spec \<Rightarrow> hardfork \<Rightarrow> fork_condition" where
  "spec_fork spec fork =
     (case btree_get (cs_hardforks spec) fork of Some c \<Rightarrow> c | None \<Rightarrow> Fork_Never)"

definition genesis_header :: "((h160 \<rightharpoonup> genesis_account) \<Rightarrow> h256) \<Rightarrow> chain_spec \<Rightarrow> header" where
  "genesis_header genesis_state_root spec =
     (let base_fee_per_gas =
            (if active_at_block (spec_fork spec London) 0 then Some EIP1559_INITIAL_BASE_FEE else None);
          withdrawals_root =
            (if active_at_timestamp (spec_fork spec Shanghai) (g_timestamp (cs_genesis spec))
             then Some EMPTY_WITHDRAWALS else None);
          g = cs_genesis spec
      in default_header\<lparr>
           h_gas_limit := g_gas_limit g,
           h_difficulty := g_difficulty g,
           h_nonce := g_nonce g,
           h_extra_data := g_extra_data g,
           h_state_root := genesis_state_root (g_alloc g),
           h_timestamp := g_timestamp g,
           h_mix_hash := g_mix_hash g,
           h_beneficiary := g_coinbase g,
           h_base_fee_per_gas := base_fee_per_gas,
           h_withdrawals_root := withdrawals_root\<rparr>)"

definition spec_genesis_hash ::
    "(bytes \<Rightarrow> h256) \<Rightarrow> ((h160 \<rightharpoonup> genesis_account) \<Rightarrow> h256) \<Rightarrow> chain_spec \<Rightarrow> h256" where
  "spec_genesis_hash keccak256 genesis_state_root spec =
     (case cs_genesis_hash spec of
        Some hash \<Rightarrow> hash
      | None \<Rightarrow> hash_slow keccak256 (genesis_header genesis_state_root spec))"

definition condition_key :: "fork_condition \<Rightarrow> fork_filter_key option" where
  "condition_key condition =
     (case condition of
        Fork_Block block \<Rightarrow> Some (Key_Block block)
      | Fork_Timestamp time \<Rightarrow> Some (Key_Time time)
      | Fork_TTD (Some block) _ \<Rightarrow> Some (Key_Block block)
      | _ \<Rightarrow> None)"

text \<open>The hash of the genesis block is an argument of the two functions that start from it.\<close>

definition spec_fork_filter :: "crc32 \<Rightarrow> h256 \<Rightarrow> chain_spec \<Rightarrow> head \<Rightarrow> fork_filter option" where
  "spec_fork_filter crc genesis_hash spec head =
     fork_filter_new crc head genesis_hash
       (List.map_filter (\<lambda>(_, condition). condition_key condition) (cs_hardforks spec))"

fun fork_id_loop ::
    "crc32 \<Rightarrow> head \<Rightarrow> (hardfork \<times> fork_condition) list \<Rightarrow> fork_hash \<Rightarrow> u64 \<Rightarrow> fork_id" where
  "fork_id_loop crc head [] curr_forkhash current_applied_value =
     \<lparr>fid_hash = curr_forkhash, fid_next = 0\<rparr>"
| "fork_id_loop crc head ((_, cond) # forks) curr_forkhash current_applied_value =
     (let val = (case cond of
                     Fork_Block block \<Rightarrow> Some block
                   | Fork_Timestamp time \<Rightarrow> Some time
                   | Fork_TTD (Some block) _ \<Rightarrow> Some block
                   | _ \<Rightarrow> None)
      in case val of
           None \<Rightarrow> fork_id_loop crc head forks curr_forkhash current_applied_value
         | Some v \<Rightarrow>
             if active_at_head cond head then
               (if v \<noteq> current_applied_value
                then fork_id_loop crc head forks (fork_hash_add crc curr_forkhash v) v
                else fork_id_loop crc head forks curr_forkhash current_applied_value)
             else \<lparr>fid_hash = curr_forkhash, fid_next = v\<rparr>)"

definition spec_fork_id :: "crc32 \<Rightarrow> h256 \<Rightarrow> chain_spec \<Rightarrow> head \<Rightarrow> fork_id" where
  "spec_fork_id crc genesis_hash spec head =
     fork_id_loop crc head (cs_hardforks spec) (fork_hash_from crc genesis_hash) 0"

definition hardfork_fork_id :: "crc32 \<Rightarrow> h256 \<Rightarrow> chain_spec \<Rightarrow> hardfork \<Rightarrow> fork_id option" where
  "hardfork_fork_id crc genesis_hash spec fork =
     map_option (spec_fork_id crc genesis_hash spec) (satisfy (spec_fork spec fork))"

section \<open>Known chains\<close>

definition mainnet_hardforks :: "(hardfork, fork_condition) btree" where
  "mainnet_hardforks =
     [(Frontier, Fork_Block 0), (Homestead, Fork_Block 1150000), (Dao, Fork_Block 1920000),
      (Tangerine, Fork_Block 2463000), (SpuriousDragon, Fork_Block 2675000),
      (Byzantium, Fork_Block 4370000), (Constantinople, Fork_Block 7280000),
      (Petersburg, Fork_Block 7280000), (Istanbul, Fork_Block 9069000),
      (MuirGlacier, Fork_Block 9200000), (Berlin, Fork_Block 12244000),
      (London, Fork_Block 12965000), (ArrowGlacier, Fork_Block 13773000),
      (GrayGlacier, Fork_Block 15050000),
      (Paris, Fork_TTD None 58750000000000000000000)]"

definition goerli_hardforks :: "(hardfork, fork_condition) btree" where
  "goerli_hardforks =
     [(Frontier, Fork_Block 0), (Istanbul, Fork_Block 1561651), (Berlin, Fork_Block 4460644),
      (London, Fork_Block 5062605), (Paris, Fork_TTD None 10790000)]"

definition sepolia_hardforks :: "(hardfork, fork_condition) btree" where
  "sepolia_hardforks =
     [(Frontier, Fork_Block 0), (Homestead, Fork_Block 0), (Dao, Fork_Block 0),
      (Tangerine, Fork_Block 0), (SpuriousDragon, Fork_Block 0), (Byzantium, Fork_Block 0),
      (Constantinople, Fork_Block 0), (Petersburg, Fork_Block 0), (Istanbul, Fork_Block 0),
      (MuirGlacier, Fork_Block 0), (Berlin, Fork_Block 0), (London, Fork_Block 0),
      (Paris, Fork_TTD (Some 1735371) 17000000000000000),
      (Shanghai, Fork_Timestamp 1677557088)]"

section \<open>Building a specification\<close>

record chain_spec_builder =
  b_chain :: "u64 option"
  b_genesis :: "genesis option"
  b_hardforks :: "(hardfork, fork_condition) btree"

definition with_fork :: "hardfork \<Rightarrow> fork_condition \<Rightarrow> chain_spec_builder \<Rightarrow> chain_spec_builder" where
  "with_fork fork condition b = b\<lparr>b_hardforks := btree_insert fork condition (b_hardforks b)\<rparr>"

definition frontier_activated :: "chain_spec_builder \<Rightarrow> chain_spec_builder" where
  "frontier_activated b = b\<lparr>b_hardforks := btree_insert Frontier (Fork_Block 0) (b_hardforks b)\<rparr>"

definition homestead_activated :: "chain_spec_builder \<Rightarrow> chain_spec_builder" where
  "homestead_activated b =
     (let b = frontier_activated b
      in b\<lparr>b_hardforks := btree_insert Homestead (Fork_Block 0) (b_hardforks b)\<rparr>)"

definition tangerine_whistle_activated :: "chain_spec_builder \<Rightarrow> chain_spec_builder" where
  "tangerine_whistle_activated b =
     (let b = homestead_activated b
      in b\<lparr>b_hardforks := btree_insert Tangerine (Fork_Block 0) (b_hardforks b)\<rparr>)"

definition spurious_dragon_activated :: "chain_spec_builder \<Rightarrow> chain_spec_builder" where
  "spurious_dragon_activated b =
     (let b = tangerine_whistle_activated b
      in b\<lparr>b_hardforks := btree_insert SpuriousDragon (Fork_Block 0) (b_hardforks b)\<rparr>)"

definition byzantium_activated :: "chain_spec_builder \<Rightarrow> chain_spec_builder" where
  "byzantium_activated b =
     (let b = spurious_dragon_activated b
      in b\<lparr>b_hardforks := btree_insert Byzantium (Fork_Block 0) (b_hardforks b)\<rparr>)"

definition petersburg_activated :: "chain_spec_builder \<Rightarrow> chain_spec_builder" where
  "petersburg_activated b =
     (let b = byzantium_activated b
      in b\<lparr>b_hardforks := btree_insert Petersburg (Fork_Block 0) (b_hardforks b)\<rparr>)"

definition istanbul_activated :: "chain_spec_builder \<Rightarrow> chain_spec_builder" where
  "istanbul_activated b =
     (let b = petersburg_activated b
      in b\<lparr>b_hardforks := btree_insert Istanbul (Fork_Block 0) (b_hardforks b)\<rparr>)"

definition berlin_activated :: "chain_spec_builder \<Rightarrow> chain_spec_builder" where
  "berlin_activated b =
     (let b = istanbul_activated b
      in b\<lparr>b_hardforks := btree_insert Berlin (Fork_Block 0) (b_hardforks b)\<rparr>)"

definition london_activated :: "chain_spec_builder \<Rightarrow> chain_spec_builder" where
  "london_activated b =
     (let b = berlin_activated b
      in b\<lparr>b_hardforks := btree_insert London (Fork_Block 0) (b_hardforks b)\<rparr>)"

definition paris_activated :: "chain_spec_builder \<Rightarrow> chain_spec_builder" where
  "paris_activated b =
     (let b = london_activated b
      in b\<lparr>b_hardforks := btree_insert Paris (Fork_TTD (Some 0) 0) (b_hardforks b)\<rparr>)"

definition shanghai_activated :: "chain_spec_builder \<Rightarrow> chain_spec_builder" where
  "shanghai_activated b =
     (let b = paris_activated b
      in b\<lparr>b_hardforks := btree_insert Shanghai (Fork_Timestamp 0) (b_hardforks b)\<rparr>)"

text \<open>A missing chain or genesis panics, which is \<^term>\<open>None\<close>.\<close>

definition builder_build :: "chain_spec_builder \<Rightarrow> chain_spec option" where
  "builder_build b =
     (case (b_chain b, b_genesis b) of
        (Some chain, Some genesis) \<Rightarrow>
          Some \<lparr>cs_chain = chain, cs_genesis_hash = None, cs_genesis = genesis,
                cs_hardforks = b_hardforks b\<rparr>
      | _ \<Rightarrow> None)"

text \<open>The configuration in the format of geth, as far as the conversion reads it.\<close>

record geth_config =
  gc_chain_id :: u64
  gc_homestead_block :: "u64 option"
  gc_dao_fork_block :: "u64 option"
  gc_eip150_block :: "u64 option"
  gc_eip155_block :: "u64 option"
  gc_byzantium_block :: "u64 option"
  gc_constantinople_block :: "u64 option"
  gc_petersburg_block :: "u64 option"
  gc_istanbul_block :: "u64 option"
  gc_muir_glacier_block :: "u64 option"
  gc_berlin_block :: "u64 option"
  gc_london_block :: "u64 option"
  gc_arrow_glacier_block :: "u64 option"
  gc_gray_glacier_block :: "u64 option"
  gc_terminal_total_difficulty :: "u256 option"
  gc_merge_netsplit_block :: "u64 option"
  gc_shanghai_time :: "u64 option"

definition geth_block_forks :: "geth_config \<Rightarrow> (hardfork \<times> u64 option) list" where
  "geth_block_forks config =
     [(Homestead, gc_homestead_block config), (Dao, gc_dao_fork_block config),
      (Tangerine, gc_eip150_block config), (SpuriousDragon, gc_eip155_block config),
      (Byzantium, gc_byzantium_block config), (Constantinople, gc_constantinople_block config),
      (Petersburg, gc_petersburg_block config), (Istanbul, gc_istanbul_block config),
      (MuirGlacier, gc_muir_glacier_block config), (Berlin, gc_berlin_block config),
      (London, gc_london_block config), (ArrowGlacier, gc_arrow_glacier_block config),
      (GrayGlacier, gc_gray_glacier_block config)]"

definition chain_spec_from_geth :: "geth_config \<Rightarrow> genesis \<Rightarrow> chain_spec" where
  "chain_spec_from_geth config genesis_block =
     (let hardforks =
            fold (\<lambda>(fork, c). btree_insert fork c)
              (List.map_filter (\<lambda>(fork, opt). map_option (\<lambda>block. (fork, Fork_Block block)) opt)
                (geth_block_forks config)) [];
          hardforks =
            (case gc_terminal_total_difficulty config of
               Some ttd \<Rightarrow> btree_insert Paris (Fork_TTD (gc_merge_netsplit_block config) ttd) hardforks
             | None \<Rightarrow> hardforks);
          time_hardforks =
            (case gc_shanghai_time config of
               Some time \<Rightarrow> [(Shanghai, Fork_Timestamp time)] | None \<Rightarrow> []);
          hardforks = fold (\<lambda>(fork, c). btree_insert fork c) time_hardforks hardforks
      in \<lparr>cs_chain = gc_chain_id config, cs_genesis_hash = None, cs_genesis = genesis_block,
          cs_hardforks = hardforks\<rparr>)"

section \<open>The two ways to compute a fork identifier\<close>

fun fork_id_of_keys :: "crc32 \<Rightarrow> head \<Rightarrow> fork_filter_key list \<Rightarrow> fork_hash \<Rightarrow> fork_id" where
  "fork_id_of_keys crc head [] h = \<lparr>fid_hash = h, fid_next = 0\<rparr>"
| "fork_id_of_keys crc head (k # ks) h =
     (if key_active k head then fork_id_of_keys crc head ks (fork_hash_add crc h (key_u64 k))
      else \<lparr>fid_hash = h, fid_next = key_u64 k\<rparr>)"

definition spec_keys :: "(hardfork \<times> fork_condition) list \<Rightarrow> fork_filter_key list" where
  "spec_keys forks = List.map_filter (\<lambda>(_, condition). condition_key condition) forks"

lemma spec_keys_simps [simp]:
  "spec_keys [] = []"
  "spec_keys ((f, c) # forks) =
     (case condition_key c of None \<Rightarrow> spec_keys forks | Some k \<Rightarrow> k # spec_keys forks)"
  by (simp_all add: spec_keys_def map_filter_simps split: option.split)

text \<open>
  A specification lists its forks in the order in which they activate: the keys ascend in the
  order of the enumeration, fork times are above the fork blocks, and no condition on the total
  difficulty announces a block.
\<close>

definition no_ttd_block :: "fork_condition \<Rightarrow> bool" where
  "no_ttd_block c = (case c of Fork_TTD (Some _) _ \<Rightarrow> False | _ \<Rightarrow> True)"

definition times_after :: "fork_filter_key list \<Rightarrow> bool" where
  "times_after ks \<longleftrightarrow>
     list_all (\<lambda>k. case k of
         Key_Time t \<Rightarrow> t \<noteq> 0 \<and> list_all (\<lambda>k. case k of Key_Block b \<Rightarrow> b < t | Key_Time _ \<Rightarrow> True) ks
       | Key_Block _ \<Rightarrow> True) ks"

definition ordered_spec :: "(hardfork \<times> fork_condition) list \<Rightarrow> bool" where
  "ordered_spec forks \<longleftrightarrow>
     sorted (spec_keys forks) \<and> times_after (spec_keys forks) \<and> list_all (\<lambda>(_, c). no_ttd_block c) forks"

lemma active_at_head_key:
  "condition_key c = Some k \<Longrightarrow> no_ttd_block c \<Longrightarrow> active_at_head c head \<longleftrightarrow> key_active k head"
  by (auto simp: condition_key_def no_ttd_block_def active_at_head_def key_active_def
      split: fork_condition.splits option.splits)

lemma remdups_sorted_Cons:
  assumes "sorted (k # ks)"
  shows "remdups (k # ks) = k # filter (\<lambda>x. x \<noteq> (k :: 'a::linorder)) (remdups ks)"
proof (rule sorted_distinct_set_unique)
  show "sorted (k # filter (\<lambda>x. x \<noteq> k) (remdups ks))"
    using assms by (auto intro: sorted_wrt_filter sorted_remdups)
qed (use assms in \<open>auto intro: sorted_remdups simp del: remdups.simps\<close>)

lemma fork_id_loop_keys:
  assumes "sorted (k0 # spec_keys forks)" and "list_all (\<lambda>(_, c). no_ttd_block c) forks"
    and "key_active k0 head"
    and "inj_on key_u64 (set (k0 # spec_keys forks))"
  shows "fork_id_loop crc head forks h (key_u64 k0)
    = fork_id_of_keys crc head (filter (\<lambda>k. k \<noteq> k0) (remdups (spec_keys forks))) h"
  using assms
proof (induction forks arbitrary: k0 h)
  case (Cons e forks)
  obtain f c where e: "e = (f, c)" by (cases e)
  show ?case
  proof (cases "condition_key c")
    case None
    then have "(case c of Fork_Block block \<Rightarrow> Some block | Fork_Timestamp time \<Rightarrow> Some time
        | Fork_TTD (Some block) _ \<Rightarrow> Some block | _ \<Rightarrow> None) = None"
      by (auto simp: condition_key_def split: fork_condition.splits option.splits)
    then show ?thesis
      using None Cons.IH [of k0 h] Cons.prems by (simp add: e)
  next
    case (Some k)
    then have val: "(case c of Fork_Block block \<Rightarrow> Some block | Fork_Timestamp time \<Rightarrow> Some time
        | Fork_TTD (Some block) _ \<Rightarrow> Some block | _ \<Rightarrow> None) = Some (key_u64 k)"
      by (auto simp: condition_key_def key_u64_def split: fork_condition.splits option.splits)
    have act: "active_at_head c head \<longleftrightarrow> key_active k head"
      using active_at_head_key [OF Some] Cons.prems(2) by (simp add: e)
    have sorted: "sorted (k # spec_keys forks)" and k0: "k0 \<le> k"
      using Cons.prems(1) Some by (simp_all add: e)
    have same: "key_u64 k = key_u64 k0 \<longleftrightarrow> k = k0"
      using inj_on_eq_iff [OF Cons.prems(4), of k k0] Some by (simp add: e)
    have inj: "inj_on key_u64 (set (k # spec_keys forks))"
      using Cons.prems(4) by (rule inj_on_subset) (auto simp: e Some)
    show ?thesis
    proof (cases "k = k0")
      case True
      then show ?thesis
        using Cons.IH [of k0 h] Cons.prems(2,3) sorted inj by (simp add: e Some val act Let_def)
    next
      case False
      with k0 sorted have "k0 \<notin> set (k # spec_keys forks)" by auto
      then have "filter (\<lambda>k. k \<noteq> k0) (remdups (k # spec_keys forks)) = remdups (k # spec_keys forks)"
        by (auto simp: filter_id_conv)
      then have keys: "filter (\<lambda>k. k \<noteq> k0) (remdups (spec_keys (e # forks)))
          = k # filter (\<lambda>x. x \<noteq> k) (remdups (spec_keys forks))"
        using remdups_sorted_Cons [OF sorted] Some by (simp add: e del: remdups.simps)
      show ?thesis
      proof (cases "key_active k head")
        case True
        have "fork_id_loop crc head forks h' (key_u64 k)
            = fork_id_of_keys crc head (filter (\<lambda>x. x \<noteq> k) (remdups (spec_keys forks))) h'" for h'
          using Cons.IH [OF sorted _ True inj] Cons.prems(2) by (simp add: e)
        with True False show ?thesis
          unfolding keys by (simp add: e val act same Let_def)
      next
        case False
        then show ?thesis
          unfolding keys by (simp add: e val act Let_def)
      qed
    qed
  qed
qed simp

lemma current_hash_chain:
  assumes "key_active k0 head" and "sorted ks" and "prefix_active (k0 # ks) head"
  shows "(let forks = (k0, h) # hash_chain crc h ks
     in fc_fork_id (cache_of (filter (\<lambda>e. key_active (fst e) head) forks)
                        (filter (\<lambda>e. \<not> key_active (fst e) head) forks)))
    = fork_id_of_keys crc head ks h"
  using assms
proof (induction ks arbitrary: k0 h)
  case (Cons k ks)
  show ?case
  proof (cases "key_active k head")
    case True
    have "prefix_active (k # ks) head"
      using Cons.prems(3) by (rule prefix_active_subset) auto
    from Cons.IH [OF True _ this, of "fork_hash_add crc h (key_u64 k)"] Cons.prems(1,2) True
    show ?thesis by (simp add: Let_def cache_of_def)
  next
    case False
    have "\<not> key_active k' head" if "k' \<in> set ks" for k'
      using prefix_activeD [OF Cons.prems(3), of k k'] that False Cons.prems(2) by auto
    then have "filter (\<lambda>e. key_active (fst e) head) (hash_chain crc h' ks) = []" for h'
      by (metis (no_types, lifting) filter_False imageI list.set_map map_fst_hash_chain)
    with False Cons.prems(1) show ?thesis by (simp add: Let_def cache_of_def)
  qed
qed (simp add: cache_of_def)

lemma filter_current_keys:
  assumes "heads_ok crc genesis fs head" and "fork_filter_new crc head genesis fs = Some f"
  shows "filter_current f = fork_id_of_keys crc head (filter_keys fs) (fork_hash_from crc genesis)"
proof -
  define g where "g = fork_hash_from crc genesis"
  define forks where "forks = (Key_Block 0, g) # hash_chain crc g (filter_keys fs)"
  have forks: "fork_filter_forks crc genesis fs = forks"
    by (simp add: fork_filter_forks_chain forks_def g_def)
  have "sorted (filter_keys fs)"
    by (simp add: filter_keys_def btree_set_def sorted_wrt_filter)
  moreover have "prefix_active (Key_Block 0 # filter_keys fs) head"
    using assms(1) by (simp add: heads_ok_def forks forks_def)
  ultimately have "fc_fork_id (cache_of (filter (\<lambda>e. key_active (fst e) head) forks)
      (filter (\<lambda>e. \<not> key_active (fst e) head) forks)) = fork_id_of_keys crc head (filter_keys fs) g"
    using current_hash_chain [of "Key_Block 0" head "filter_keys fs" g crc] by (simp add: forks_def Let_def)
  with assms(2) show ?thesis
    by (auto simp: fork_filter_new_Some forks compute_cache_eq filter_current_def g_def Let_def
        split: if_splits)
qed

lemma spec_fork_id_filter:
  assumes ordered: "ordered_spec (cs_hardforks spec)"
    and ok: "heads_ok crc g (spec_keys (cs_hardforks spec)) head"
    and f: "spec_fork_filter crc g spec head = Some f"
  shows "spec_fork_id crc g spec head = filter_current f"
proof -
  define ks where "ks = spec_keys (cs_hardforks spec)"
  have sorted: "sorted ks" and times: "times_after ks"
    and ttd: "list_all (\<lambda>(_, c). no_ttd_block c) (cs_hardforks spec)"
    using ordered by (simp_all add: ordered_spec_def ks_def)
  have inj: "inj_on key_u64 (set (Key_Block 0 # ks))"
  proof (rule inj_onI)
    fix x y assume "x \<in> set (Key_Block 0 # ks)" "y \<in> set (Key_Block 0 # ks)" "key_u64 x = key_u64 y"
    with times show "x = y"
      by (cases x; cases y) (fastforce simp: key_u64_def times_after_def list_all_iff)+
  qed
  have keys: "filter_keys ks = filter (\<lambda>k. k \<noteq> Key_Block 0) (remdups ks)"
  proof -
    have "Key_Time 0 \<notin> set ks"
      using times by (auto simp: times_after_def list_all_iff)
    then have "filter (\<lambda>k. k \<noteq> Key_Time 0) (remdups ks) = remdups ks"
      by (auto simp: filter_id_conv)
    then show ?thesis
      using sorted by (simp add: filter_keys_def btree_set_def sorted_sort_id sorted_remdups)
  qed
  have "sorted (Key_Block 0 # ks)"
    using sorted by (simp add: Key_Block_0_le)
  from fork_id_loop_keys [OF this [unfolded ks_def] ttd _ inj [unfolded ks_def], of head crc "fork_hash_from crc g"]
  have "spec_fork_id crc g spec head = fork_id_of_keys crc head (filter_keys ks) (fork_hash_from crc g)"
    by (simp add: spec_fork_id_def keys [unfolded ks_def] key_u64_def ks_def)
  moreover have "fork_filter_new crc head g ks = Some f"
    using f by (simp add: spec_fork_filter_def ks_def spec_keys_def)
  ultimately show ?thesis
    using filter_current_keys [of crc g ks head f] ok by (simp add: ks_def)
qed

section \<open>Known chains and builders\<close>

lemma prefix_active_blocks:
  assumes "list_all (\<lambda>k. case k of Key_Block _ \<Rightarrow> True | Key_Time _ \<Rightarrow> False) ks"
  shows "prefix_active ks head"
  using assms unfolding prefix_active_def list_all_iff
  by (auto simp: key_active_def split: fork_filter_key.splits)

lemma mainnet_keys:
  "spec_keys mainnet_hardforks =
     map Key_Block [0, 1150000, 1920000, 2463000, 2675000, 4370000, 7280000, 7280000, 9069000,
       9200000, 12244000, 12965000, 13773000, 15050000]"
  by (simp add: mainnet_hardforks_def condition_key_def)

lemma goerli_keys: "spec_keys goerli_hardforks = map Key_Block [0, 1561651, 4460644, 5062605]"
  by (simp add: goerli_hardforks_def condition_key_def)

lemma sepolia_keys:
  "spec_keys sepolia_hardforks =
     map Key_Block [0, 0, 0, 0, 0, 0, 0, 0, 0, 0, 0, 0, 1735371] @ [Key_Time 1677557088]"
  by (simp add: sepolia_hardforks_def condition_key_def)

lemma mainnet_ordered: "ordered_spec mainnet_hardforks"
  by (simp add: ordered_spec_def mainnet_keys times_after_def)
    (simp add: mainnet_hardforks_def no_ttd_block_def)

lemma goerli_ordered: "ordered_spec goerli_hardforks"
  by (simp add: ordered_spec_def goerli_keys times_after_def)
    (simp add: goerli_hardforks_def no_ttd_block_def)

lemma heads_ok_blocks:
  assumes "list_all (\<lambda>k. case k of Key_Block _ \<Rightarrow> True | Key_Time _ \<Rightarrow> False) ks"
  shows "heads_ok crc g ks head"
  unfolding heads_ok_def map_fst_fork_filter_forks
  by (rule prefix_active_blocks) (use assms in \<open>auto simp: list_all_iff filter_keys_def\<close>)

lemma spec_filter_blocks:
  assumes "ordered_spec (cs_hardforks spec)"
    and "list_all (\<lambda>k. case k of Key_Block _ \<Rightarrow> True | Key_Time _ \<Rightarrow> False) (spec_keys (cs_hardforks spec))"
  shows "map_option filter_current (spec_fork_filter crc g spec head) = Some (spec_fork_id crc g spec head)"
proof -
  have ok: "heads_ok crc g (spec_keys (cs_hardforks spec)) head"
    using assms(2) by (rule heads_ok_blocks)
  from fork_filter_new_returns [OF ok] obtain f where "spec_fork_filter crc g spec head = Some f"
    by (auto simp: spec_fork_filter_def spec_keys_def)
  with spec_fork_id_filter [OF assms(1) ok] show ?thesis by simp
qed

lemma sepolia_filter_keys: "filter_keys (spec_keys sepolia_hardforks) = [Key_Block 1735371, Key_Time 1677557088]"
proof -
  have "btree_set (spec_keys sepolia_hardforks) = [Key_Block 0, Key_Block 1735371, Key_Time 1677557088]"
    unfolding sepolia_keys by (simp add: btree_set_def)
  then show ?thesis by (simp add: filter_keys_def)
qed

text \<open>Collecting the options that are present, for distinct keys.\<close>

lemma map_of_collect_options:
  assumes "distinct (map fst ops)"
  shows "map_of (rev (List.map_filter (\<lambda>(k, opt). map_option (\<lambda>b. (k, F b)) opt) ops)) k
    = Option.bind (map_of ops k) (map_option F)"
  using assms
proof (induction ops)
  case (Cons e ops)
  obtain k' opt where e: "e = (k', opt)" by (cases e)
  have "map_of ops k' = None"
    using Cons.prems by (simp add: e map_of_eq_None_iff)
  with Cons show ?case
    by (cases opt) (auto simp: e map_filter_simps map_add_def split: option.splits)
qed (simp add: map_filter_simps)

lemma geth_get:
  fixes config :: geth_config and g :: genesis
  defines "forks \<equiv> cs_hardforks (chain_spec_from_geth config g)"
  shows "btree_wf forks" and
    "btree_get forks f =
       (case f of
          Frontier \<Rightarrow> None
        | Paris \<Rightarrow> map_option (Fork_TTD (gc_merge_netsplit_block config)) (gc_terminal_total_difficulty config)
        | Shanghai \<Rightarrow> map_option Fork_Timestamp (gc_shanghai_time config)
        | _ \<Rightarrow> map_option Fork_Block (the (map_of (geth_block_forks config) f)))"
proof -
  define block_forks where "block_forks =
    List.map_filter (\<lambda>(fork, opt). map_option (\<lambda>block. (fork, Fork_Block block)) opt) (geth_block_forks config)"
  define m1 where "m1 = fold (\<lambda>(fork, c). btree_insert fork c) block_forks []"
  define m2 where "m2 = (case gc_terminal_total_difficulty config of
      Some ttd \<Rightarrow> btree_insert Paris (Fork_TTD (gc_merge_netsplit_block config) ttd) m1 | None \<Rightarrow> m1)"
  have wf1: "btree_wf m1"
    unfolding m1_def by (rule btree.inv_fold_ins [OF btree.inv_empty])
  then have wf2: "btree_wf m2"
    by (auto simp: m2_def btree.inv_ins split: option.split)
  have forks: "forks = (case gc_shanghai_time config of
      Some time \<Rightarrow> btree_insert Shanghai (Fork_Timestamp time) m2 | None \<Rightarrow> m2)"
    by (simp add: forks_def chain_spec_from_geth_def m2_def m1_def block_forks_def Let_def split: option.split)
  show "btree_wf forks"
    using wf2 by (auto simp: forks btree.inv_ins split: option.split)
  have get1: "btree_get m1 f = map_of (rev block_forks) f" for f
    unfolding m1_def by (simp add: btree.get_fold_ins [OF btree.inv_empty] btree.get_empty)
  have get1: "btree_get m1 f = Option.bind (map_of (geth_block_forks config) f) (map_option Fork_Block)" for f
    unfolding get1 block_forks_def by (rule map_of_collect_options) (simp add: geth_block_forks_def)
  show "btree_get forks f =
       (case f of
          Frontier \<Rightarrow> None
        | Paris \<Rightarrow> map_option (Fork_TTD (gc_merge_netsplit_block config)) (gc_terminal_total_difficulty config)
        | Shanghai \<Rightarrow> map_option Fork_Timestamp (gc_shanghai_time config)
        | _ \<Rightarrow> map_option Fork_Block (the (map_of (geth_block_forks config) f)))"
    using wf1 wf2
    by (cases f) (auto simp: forks m2_def btree.get_ins get1 geth_block_forks_def split: option.split)
qed

definition ex_genesis :: genesis where
  "ex_genesis = \<lparr>g_nonce = 0, g_timestamp = 0, g_extra_data = [], g_gas_limit = 5000, g_difficulty = 1,
     g_mix_hash = replicate 32 0, g_coinbase = replicate 20 0, g_alloc = Map.empty\<rparr>"

definition ex_spec :: "(hardfork, fork_condition) btree \<Rightarrow> chain_spec" where
  "ex_spec forks = \<lparr>cs_chain = 1, cs_genesis_hash = None, cs_genesis = ex_genesis, cs_hardforks = forks\<rparr>"

section \<open>Properties\<close>



text \<open>On Mainnet and on Goerli the two agree for every head.\<close>

theorem known_chains_fork_id:
  "map_option filter_current (spec_fork_filter crc g (spec\<lparr>cs_hardforks := mainnet_hardforks\<rparr>) head)
     = Some (spec_fork_id crc g (spec\<lparr>cs_hardforks := mainnet_hardforks\<rparr>) head) \<and>
   map_option filter_current (spec_fork_filter crc g (spec\<lparr>cs_hardforks := goerli_hardforks\<rparr>) head)
     = Some (spec_fork_id crc g (spec\<lparr>cs_hardforks := goerli_hardforks\<rparr>) head)"
  by (simp add: spec_filter_blocks mainnet_ordered goerli_ordered mainnet_keys goerli_keys)

text \<open>On Sepolia they disagree: between the block at which the total difficulty was reached and
  the announced fork block, the specification already counts the fork as passed and announces
  Shanghai, while the filter announces the fork block.\<close>

theorem sepolia_fork_id_diverges:
  assumes "head_number head < 1735371" and "head_timestamp head < 1677557088"
    and "17000000000000000 \<le> saturating_sub (head_total_difficulty head) (head_difficulty head)"
    and "cs_hardforks spec = sepolia_hardforks"
  shows "fid_next (spec_fork_id crc g spec head) = 1677557088 \<and>
    (\<exists>f. spec_fork_filter crc g spec head = Some f \<and> fid_next (filter_current f) = 1735371)"
proof -
  have "prefix_active [Key_Block 0, Key_Block 1735371, Key_Time 1677557088] head"
    using assms(1,2) by (auto simp: prefix_active_def key_active_def)
  then have ok: "heads_ok crc g (spec_keys sepolia_hardforks) head"
    by (simp add: heads_ok_def map_fst_fork_filter_forks sepolia_filter_keys)
  from fork_filter_new_returns [OF ok] obtain f where f: "spec_fork_filter crc g spec head = Some f"
    by (auto simp: spec_fork_filter_def spec_keys_def assms(4))
  have "filter_current f = fork_id_of_keys crc head [Key_Block 1735371, Key_Time 1677557088] (fork_hash_from crc g)"
    using filter_current_keys [OF ok] f
    by (simp add: spec_fork_filter_def spec_keys_def [symmetric] assms(4) sepolia_filter_keys)
  then have "fid_next (filter_current f) = 1735371"
    using assms(1) by (simp add: key_active_def key_u64_def)
  moreover have "fid_next (spec_fork_id crc g spec head) = 1677557088"
  proof -
    have "fork_id_loop crc head ((f, Fork_Block 0) # fs) h 0 = fork_id_loop crc head fs h 0" for f fs h
      by (simp add: active_at_head_def Let_def)
    note skip = this
    have "fork_id_loop crc head [(Paris, Fork_TTD (Some 1735371) 17000000000000000),
        (Shanghai, Fork_Timestamp 1677557088)] h 0
        = \<lparr>fid_hash = fork_hash_add crc h 1735371, fid_next = 1677557088\<rparr>" for h
      using assms(2,3) by (simp add: active_at_head_def Let_def)
    then show ?thesis
      unfolding spec_fork_id_def sepolia_hardforks_def assms(4) skip by simp
  qed
  ultimately show ?thesis using f by blast
qed

theorem sepolia_fork_id_diverges_witness:
  "fid_next (spec_fork_id ex_crc [] (ex_spec sepolia_hardforks)
      ((ex_head 1500000 1660000000)\<lparr>head_total_difficulty := 17000018015853232\<rparr>)) = 1677557088"
  using sepolia_fork_id_diverges
    [of "(ex_head 1500000 1660000000)\<lparr>head_total_difficulty := 17000018015853232\<rparr>"
      "ex_spec sepolia_hardforks" ex_crc "[]"]
  by (simp add: ex_head_def ex_spec_def saturating_sub_def)

text \<open>The conversion of a geth configuration keeps every fork of the configuration under the
  condition that it gives, and produces an ordered map.\<close>

theorem geth_config_forks:
  "btree_wf (cs_hardforks (chain_spec_from_geth config g)) \<and>
   spec_fork (chain_spec_from_geth config g) London
     = (case gc_london_block config of Some b \<Rightarrow> Fork_Block b | None \<Rightarrow> Fork_Never) \<and>
   spec_fork (chain_spec_from_geth config g) Paris
     = (case gc_terminal_total_difficulty config of
          Some ttd \<Rightarrow> Fork_TTD (gc_merge_netsplit_block config) ttd | None \<Rightarrow> Fork_Never) \<and>
   spec_fork (chain_spec_from_geth config g) Shanghai
     = (case gc_shanghai_time config of Some t \<Rightarrow> Fork_Timestamp t | None \<Rightarrow> Fork_Never)"
  by (simp add: geth_get spec_fork_def geth_block_forks_def split: option.split)

end
