(* ===== verification/RlpDerive.thy ===== *)
theory RlpDerive
  imports Rlp
begin

text \<open>
  The codecs that the derive macros of \<^verbatim>\<open>crates/rlp/rlp-derive\<close> generate for a struct without
  optional fields: the fields in order inside a list, and for a wrapper the field itself. A struct
  is the nested pair of its fields. The lemmas show that sequences, derived structs and vectors of
  well-behaved items are well-behaved items, so a codec that is composed of them needs no proof of
  its own.
\<close>

section \<open>Definitions\<close>

definition seq_encode :: "('a \<Rightarrow> bytes) \<Rightarrow> ('b \<Rightarrow> bytes) \<Rightarrow> 'a \<times> 'b \<Rightarrow> bytes" where
  "seq_encode enc1 enc2 xy = enc1 (fst xy) @ enc2 (snd xy)"

definition seq_length :: "('a \<Rightarrow> nat) \<Rightarrow> ('b \<Rightarrow> nat) \<Rightarrow> 'a \<times> 'b \<Rightarrow> nat" where
  "seq_length len1 len2 xy = len1 (fst xy) + len2 (snd xy)"

definition seq_decode ::
    "(bytes \<Rightarrow> decode_error + 'a \<times> bytes) \<Rightarrow> (bytes \<Rightarrow> decode_error + 'b \<times> bytes) \<Rightarrow>
     bytes \<Rightarrow> decode_error + ('a \<times> 'b) \<times> bytes" where
  "seq_decode dec1 dec2 b =
     and_then (dec1 b) (\<lambda>(x, b). and_then (dec2 b) (\<lambda>(y, b). Inr ((x, y), b)))"

definition derive_header :: "('a \<Rightarrow> nat) \<Rightarrow> 'a \<Rightarrow> rlp_header" where
  "derive_header fields_len x = \<lparr>list_flag = True, payload_length = fields_len x\<rparr>"

definition derive_length :: "('a \<Rightarrow> nat) \<Rightarrow> 'a \<Rightarrow> nat" where
  "derive_length fields_len x =
     (let rlp_head = derive_header fields_len x
      in length_of_length (payload_length rlp_head) + payload_length rlp_head)"

definition derive_encode :: "('a \<Rightarrow> nat) \<Rightarrow> ('a \<Rightarrow> bytes) \<Rightarrow> 'a \<Rightarrow> bytes" where
  "derive_encode fields_len fields_enc x = header_encode (derive_header fields_len x) @ fields_enc x"

definition derive_decode ::
    "(bytes \<Rightarrow> decode_error + 'a \<times> bytes) \<Rightarrow> bytes \<Rightarrow> decode_error + 'a \<times> bytes" where
  "derive_decode fields_dec buf =
     and_then (header_decode buf) (\<lambda>(rlp_head, b).
       if \<not> list_flag rlp_head then Inl UnexpectedString
       else (let started_len = length b in
         and_then (fields_dec b) (\<lambda>(this, b).
           let consumed = started_len - length b
           in if consumed \<noteq> payload_length rlp_head
              then Inl (ListLengthMismatch (payload_length rlp_head) consumed)
              else Inr (this, b))))"

text \<open>
  The decoder of a vector returns for every well-behaved element decoder; \<open>decode_list\<close> is its
  result.
\<close>

definition decode_list ::
    "(bytes \<Rightarrow> decode_error + 'a \<times> bytes) \<Rightarrow> bytes \<Rightarrow> decode_error + 'a list \<times> bytes" where
  "decode_list dec buf = the (decode_vec dec buf)"

section \<open>Composition\<close>

text \<open>The fields of a struct may encode to the empty string, so their contract is weaker.\<close>

locale rlp_fields =
  fixes enc :: "'a \<Rightarrow> bytes"
    and len :: "'a \<Rightarrow> nat"
    and dec :: "bytes \<Rightarrow> decode_error + 'a \<times> bytes"
    and wf :: "'a \<Rightarrow> bool"
  assumes fields_len_enc: "wf x \<Longrightarrow> len x = length (enc x)"
    and fields_dec_enc: "wf x \<Longrightarrow> dec (enc x @ rest) = Inr (x, rest)"
    and fields_dec_strict: "dec buf = Inr (x, rest) \<Longrightarrow> wf x \<and> buf = enc x @ rest"
begin

lemma derive_item:
  "rlp_item (derive_encode len enc) (derive_length len) (derive_decode dec) (\<lambda>x. wf x \<and> len x < 2 ^ 64)"
proof
  fix x rest
  assume wf: "wf x \<and> len x < 2 ^ 64"
  show "derive_length len x = length (derive_encode len enc x)"
    using wf length_header_encode [of "len x" True] fields_len_enc [of x]
    by (simp add: derive_length_def derive_encode_def derive_header_def)
  have "header_decode (header_encode \<lparr>list_flag = True, payload_length = len x\<rparr> @ enc x @ rest)
      = Inr (\<lparr>list_flag = True, payload_length = len x\<rparr>, enc x @ rest)"
    using wf fields_len_enc [of x] by (intro header_decode_encode) simp_all
  then show "derive_decode dec (derive_encode len enc x @ rest) = Inr (x, rest)"
    using wf fields_len_enc [of x]
    by (simp add: derive_decode_def derive_encode_def derive_header_def fields_dec_enc)
  show "derive_encode len enc x \<noteq> []"
    by (simp add: derive_encode_def)
next
  fix buf x rest
  assume "derive_decode dec buf = Inr (x, rest)"
  then obtain h b where hd: "header_decode buf = Inr (h, b)" "list_flag h"
    and d: "dec b = Inr (x, rest)" "length b - length rest = payload_length h"
    by (auto simp: derive_decode_def and_then_eq_Inr Let_def split: if_splits)
  from fields_dec_strict [OF d(1)] have x: "wf x" "b = enc x @ rest" by simp_all
  from header_decode_strict [OF hd(1)] hd(2) have h: "payload_length h < 2 ^ 64" "buf = header_encode h @ b"
    by auto
  have "h = \<lparr>list_flag = True, payload_length = len x\<rparr>"
    using hd(2) d(2) x fields_len_enc [of x] by (cases h) simp
  with x h show "(wf x \<and> len x < 2 ^ 64) \<and> buf = derive_encode len enc x @ rest"
    by (simp add: derive_encode_def derive_header_def)
qed

end

context rlp_item
begin

lemma fields: "rlp_fields enc len dec wf"
  by unfold_locales (simp_all add: len_enc dec_enc dec_strict)

lemma seq_fields:
  assumes "rlp_fields enc2 len2 dec2 wf2"
  shows "rlp_fields (seq_encode enc enc2) (seq_length len len2) (seq_decode dec dec2)
    (\<lambda>xy. wf (fst xy) \<and> wf2 (snd xy))"
proof
  fix xy rest
  assume wf: "wf (fst xy) \<and> wf2 (snd xy)"
  show "seq_length len len2 xy = length (seq_encode enc enc2 xy)"
    using wf by (simp add: seq_length_def seq_encode_def len_enc rlp_fields.fields_len_enc [OF assms])
  show "seq_decode dec dec2 (seq_encode enc enc2 xy @ rest) = Inr (xy, rest)"
    using wf by (simp add: seq_decode_def seq_encode_def rlp_fields.fields_dec_enc [OF assms])
next
  fix buf xy rest
  assume "seq_decode dec dec2 buf = Inr (xy, rest)"
  then show "(wf (fst xy) \<and> wf2 (snd xy)) \<and> buf = seq_encode enc enc2 xy @ rest"
    by (auto simp: seq_decode_def seq_encode_def and_then_eq_Inr
        dest!: dec_strict rlp_fields.fields_dec_strict [OF assms])
qed

text \<open>A record in place of the nested pair of its fields.\<close>

lemma iso_item:
  assumes "\<And>r. of_fields (to_fields r) = r" and "\<And>f. to_fields (of_fields f) = f"
  shows "rlp_item (\<lambda>r. enc (to_fields r)) (\<lambda>r. len (to_fields r))
    (\<lambda>buf. and_then (dec buf) (\<lambda>(f, buf). Inr (of_fields f, buf))) (\<lambda>r. wf (to_fields r))"
  using assms by unfold_locales (auto simp: len_enc enc_not_Nil and_then_eq_Inr dest: dec_strict)

lemma decode_vec_list: "decode_vec dec buf = Some (decode_list dec buf)"
  using decode_vec_returns [of buf] by (auto simp: decode_list_def)

lemma list_item:
  "rlp_item (encode_list len enc) (list_length len) (decode_list dec)
    (\<lambda>xs. list_all wf xs \<and> length (concat (map enc xs)) < 2 ^ 64)"
proof
  fix xs rest
  assume wf: "list_all wf xs \<and> length (concat (map enc xs)) < 2 ^ 64"
  show "list_length len xs = length (encode_list len enc xs)"
    using wf by (intro list_length_encode_list) simp_all
  show "decode_list dec (encode_list len enc xs @ rest) = Inr (xs, rest)"
    using wf decode_vec_iff [of "encode_list len enc xs @ rest" xs rest] by (simp add: decode_vec_list)
  show "encode_list len enc xs \<noteq> []"
    by (simp add: encode_list_def)
next
  fix buf xs rest
  assume "decode_list dec buf = Inr (xs, rest)"
  then show "(list_all wf xs \<and> length (concat (map enc xs)) < 2 ^ 64) \<and> buf = encode_list len enc xs @ rest"
    using decode_vec_iff [of buf xs rest] by (simp add: decode_vec_list)
qed

end

end
