(* ===== verification/Transactions.thy ===== *)
theory Transactions
  imports RlpDerive BlockHeader
begin

text \<open>
  Transactions and their encodings, \<^verbatim>\<open>crates/primitives/src/transaction\<close>: the three kinds, the
  signing payload, the signature with the EIP-155 value, the enveloped and the peer-to-peer
  encoding of signed transactions and their decoders. \<^verbatim>\<open>keccak256\<close> and the recovery of the signer
  are parameters. The lemmas show that the codecs are inverse, that the announced lengths are
  exact and that no two transactions have the same signing payload.
\<close>

section \<open>Data\<close>

datatype TxType = TypeLegacy | TypeEIP2930 | TypeEIP1559

definition LEGACY_TX_TYPE_ID :: u8 where
  "LEGACY_TX_TYPE_ID = 0"

definition EIP2930_TX_TYPE_ID :: u8 where
  "EIP2930_TX_TYPE_ID = 1"

definition EIP1559_TX_TYPE_ID :: u8 where
  "EIP1559_TX_TYPE_ID = 2"

fun tx_type_u8 :: "TxType \<Rightarrow> u8" where
  "tx_type_u8 TypeLegacy = LEGACY_TX_TYPE_ID"
| "tx_type_u8 TypeEIP2930 = EIP2930_TX_TYPE_ID"
| "tx_type_u8 TypeEIP1559 = EIP1559_TX_TYPE_ID"

text \<open>The identifier that \<^verbatim>\<open>to_compact\<close> returns; nothing is written to the buffer.\<close>

fun tx_type_to_compact :: "TxType \<Rightarrow> nat" where
  "tx_type_to_compact TypeLegacy = 0"
| "tx_type_to_compact TypeEIP2930 = 1"
| "tx_type_to_compact TypeEIP1559 = 2"

definition tx_type_from_compact :: "bytes \<Rightarrow> nat \<Rightarrow> TxType \<times> bytes" where
  "tx_type_from_compact buf identifier =
     ((if identifier = 0 then TypeLegacy else if identifier = 1 then TypeEIP2930 else TypeEIP1559),
      buf)"

datatype transaction_kind = Create | Call h160

record access_list_item =
  ali_address :: h160
  ali_storage_keys :: "h256 list"

type_synonym access_list = "access_list_item list"

record tx_legacy =
  lg_chain_id :: "u64 option"
  lg_nonce :: u64
  lg_gas_price :: u128
  lg_gas_limit :: u64
  lg_to :: transaction_kind
  lg_value :: u128
  lg_input :: bytes

record tx_eip2930 =
  al_chain_id :: u64
  al_nonce :: u64
  al_gas_price :: u128
  al_gas_limit :: u64
  al_to :: transaction_kind
  al_value :: u128
  al_access_list :: access_list
  al_input :: bytes

record tx_eip1559 =
  df_chain_id :: u64
  df_nonce :: u64
  df_gas_limit :: u64
  df_max_fee_per_gas :: u128
  df_max_priority_fee_per_gas :: u128
  df_to :: transaction_kind
  df_value :: u128
  df_access_list :: access_list
  df_input :: bytes

datatype transaction = Legacy tx_legacy | Eip2930 tx_eip2930 | Eip1559 tx_eip1559

record signature =
  sig_r :: u256
  sig_s :: u256
  sig_odd_y_parity :: bool

record transaction_signed =
  ts_hash :: h256
  ts_signature :: signature
  ts_transaction :: transaction

record transaction_signed_ec_recovered =
  er_signer :: h160
  er_signed_transaction :: transaction_signed

section \<open>Accessors\<close>

fun tx_chain_id :: "transaction \<Rightarrow> u64 option" where
  "tx_chain_id (Legacy t) = lg_chain_id t"
| "tx_chain_id (Eip2930 t) = Some (al_chain_id t)"
| "tx_chain_id (Eip1559 t) = Some (df_chain_id t)"

fun set_chain_id :: "u64 \<Rightarrow> transaction \<Rightarrow> transaction" where
  "set_chain_id c (Legacy t) = Legacy (t\<lparr>lg_chain_id := Some c\<rparr>)"
| "set_chain_id c (Eip2930 t) = Eip2930 (t\<lparr>al_chain_id := c\<rparr>)"
| "set_chain_id c (Eip1559 t) = Eip1559 (t\<lparr>df_chain_id := c\<rparr>)"

fun tx_kind :: "transaction \<Rightarrow> transaction_kind" where
  "tx_kind (Legacy t) = lg_to t"
| "tx_kind (Eip2930 t) = al_to t"
| "tx_kind (Eip1559 t) = df_to t"

fun tx_type :: "transaction \<Rightarrow> TxType" where
  "tx_type (Legacy _) = TypeLegacy"
| "tx_type (Eip2930 _) = TypeEIP2930"
| "tx_type (Eip1559 _) = TypeEIP1559"

fun tx_value :: "transaction \<Rightarrow> u128" where
  "tx_value (Legacy t) = lg_value t"
| "tx_value (Eip2930 t) = al_value t"
| "tx_value (Eip1559 t) = df_value t"

fun tx_nonce :: "transaction \<Rightarrow> u64" where
  "tx_nonce (Legacy t) = lg_nonce t"
| "tx_nonce (Eip2930 t) = al_nonce t"
| "tx_nonce (Eip1559 t) = df_nonce t"

fun tx_gas_limit :: "transaction \<Rightarrow> u64" where
  "tx_gas_limit (Legacy t) = lg_gas_limit t"
| "tx_gas_limit (Eip2930 t) = al_gas_limit t"
| "tx_gas_limit (Eip1559 t) = df_gas_limit t"

fun tx_max_fee_per_gas :: "transaction \<Rightarrow> u128" where
  "tx_max_fee_per_gas (Legacy t) = lg_gas_price t"
| "tx_max_fee_per_gas (Eip2930 t) = al_gas_price t"
| "tx_max_fee_per_gas (Eip1559 t) = df_max_fee_per_gas t"

fun tx_max_priority_fee_per_gas :: "transaction \<Rightarrow> u128 option" where
  "tx_max_priority_fee_per_gas (Legacy _) = None"
| "tx_max_priority_fee_per_gas (Eip2930 _) = None"
| "tx_max_priority_fee_per_gas (Eip1559 t) = Some (df_max_priority_fee_per_gas t)"

fun tx_input :: "transaction \<Rightarrow> bytes" where
  "tx_input (Legacy t) = lg_input t"
| "tx_input (Eip2930 t) = al_input t"
| "tx_input (Eip1559 t) = df_input t"

section \<open>Field codecs\<close>

fun kind_encode :: "transaction_kind \<Rightarrow> bytes" where
  "kind_encode (Call to) = encode_slice to"
| "kind_encode Create = [EMPTY_STRING_CODE]"

fun kind_length :: "transaction_kind \<Rightarrow> nat" where
  "kind_length (Call to) = slice_length to"
| "kind_length Create = 1"

definition kind_decode :: "bytes \<Rightarrow> decode_error + transaction_kind \<times> bytes" where
  "kind_decode buf =
     (case buf of
        first # _ \<Rightarrow>
          if first = EMPTY_STRING_CODE then Inr (Create, drop 1 buf)
          else and_then (decode_array 20 buf) (\<lambda>(addr, buf). Inr (Call addr, buf))
      | [] \<Rightarrow> Inl InputTooShort)"

text \<open>The derived codec of an item of an access list, and of the list, which is a wrapper.\<close>

definition access_list_item_fields :: "access_list_item \<Rightarrow> h160 \<times> h256 list" where
  "access_list_item_fields i = (ali_address i, ali_storage_keys i)"

definition access_list_item_of :: "h160 \<times> h256 list \<Rightarrow> access_list_item" where
  "access_list_item_of f = \<lparr>ali_address = fst f, ali_storage_keys = snd f\<rparr>"

definition access_list_item_length :: "access_list_item \<Rightarrow> nat" where
  "access_list_item_length i =
     derive_length (seq_length slice_length (list_length slice_length)) (access_list_item_fields i)"

definition access_list_item_encode :: "access_list_item \<Rightarrow> bytes" where
  "access_list_item_encode i =
     derive_encode (seq_length slice_length (list_length slice_length))
       (seq_encode encode_slice (encode_list slice_length encode_slice)) (access_list_item_fields i)"

definition access_list_item_decode :: "bytes \<Rightarrow> decode_error + access_list_item \<times> bytes" where
  "access_list_item_decode buf =
     and_then (derive_decode (seq_decode (decode_array 20) (decode_list (decode_array 32))) buf)
       (\<lambda>(f, buf). Inr (access_list_item_of f, buf))"

definition access_list_length :: "access_list \<Rightarrow> nat" where
  "access_list_length = list_length access_list_item_length"

definition access_list_encode :: "access_list \<Rightarrow> bytes" where
  "access_list_encode = encode_list access_list_item_length access_list_item_encode"

definition access_list_decode :: "bytes \<Rightarrow> decode_error + access_list \<times> bytes" where
  "access_list_decode = decode_list access_list_item_decode"

definition flattened :: "access_list \<Rightarrow> (h160 \<times> u256 list) list" where
  "flattened al = map (\<lambda>item. (ali_address item, map from_be_bytes (ali_storage_keys item))) al"

section \<open>Unsigned transactions\<close>

fun fields_len :: "transaction \<Rightarrow> nat" where
  "fields_len (Legacy t) =
     uint_length (lg_nonce t) + uint_length (lg_gas_price t) + uint_length (lg_gas_limit t) +
     kind_length (lg_to t) + uint_length (lg_value t) + slice_length (lg_input t)"
| "fields_len (Eip2930 t) =
     uint_length (al_chain_id t) + uint_length (al_nonce t) + uint_length (al_gas_price t) +
     uint_length (al_gas_limit t) + kind_length (al_to t) + uint_length (al_value t) +
     slice_length (al_input t) + access_list_length (al_access_list t)"
| "fields_len (Eip1559 t) =
     uint_length (df_chain_id t) + uint_length (df_nonce t) +
     uint_length (df_max_priority_fee_per_gas t) + uint_length (df_max_fee_per_gas t) +
     uint_length (df_gas_limit t) + kind_length (df_to t) + uint_length (df_value t) +
     slice_length (df_input t) + access_list_length (df_access_list t)"

fun encode_fields :: "transaction \<Rightarrow> bytes" where
  "encode_fields (Legacy t) =
     encode_uint (lg_nonce t) @ encode_uint (lg_gas_price t) @ encode_uint (lg_gas_limit t) @
     kind_encode (lg_to t) @ encode_uint (lg_value t) @ encode_slice (lg_input t)"
| "encode_fields (Eip2930 t) =
     encode_uint (al_chain_id t) @ encode_uint (al_nonce t) @ encode_uint (al_gas_price t) @
     encode_uint (al_gas_limit t) @ kind_encode (al_to t) @ encode_uint (al_value t) @
     encode_slice (al_input t) @ access_list_encode (al_access_list t)"
| "encode_fields (Eip1559 t) =
     encode_uint (df_chain_id t) @ encode_uint (df_nonce t) @
     encode_uint (df_max_priority_fee_per_gas t) @ encode_uint (df_max_fee_per_gas t) @
     encode_uint (df_gas_limit t) @ kind_encode (df_to t) @ encode_uint (df_value t) @
     encode_slice (df_input t) @ access_list_encode (df_access_list t)"

definition encode_eip155_fields :: "transaction \<Rightarrow> bytes" where
  "encode_eip155_fields tx =
     (case tx of
        Legacy t \<Rightarrow>
          (case lg_chain_id t of
             Some c \<Rightarrow> encode_uint c @ encode_uint (0 :: u8) @ encode_uint (0 :: u8)
           | None \<Rightarrow> [])
      | _ \<Rightarrow> [])"

definition eip155_fields_len :: "transaction \<Rightarrow> nat" where
  "eip155_fields_len tx =
     (case tx of
        Legacy t \<Rightarrow> (case lg_chain_id t of Some c \<Rightarrow> uint_length c + 2 | None \<Rightarrow> 0)
      | _ \<Rightarrow> 0)"

definition encode_transaction :: "transaction \<Rightarrow> bytes" where
  "encode_transaction tx =
     (case tx of
        Legacy _ \<Rightarrow>
          header_encode \<lparr>list_flag = True, payload_length = fields_len tx + eip155_fields_len tx\<rparr> @
          encode_fields tx @ encode_eip155_fields tx
      | _ \<Rightarrow>
          tx_type_u8 (tx_type tx) # header_encode \<lparr>list_flag = True, payload_length = fields_len tx\<rparr> @
          encode_fields tx)"

definition transaction_length :: "transaction \<Rightarrow> nat" where
  "transaction_length tx =
     (case tx of
        Legacy _ \<Rightarrow>
          (let n = fields_len tx + eip155_fields_len tx in length_of_length n + n)
      | _ \<Rightarrow> (let n = fields_len tx in 1 + length_of_length n + n))"

definition signature_hash :: "(bytes \<Rightarrow> h256) \<Rightarrow> transaction \<Rightarrow> h256" where
  "signature_hash keccak256 tx = keccak256 (encode_transaction tx)"

section \<open>Signatures\<close>

definition sig_v :: "signature \<Rightarrow> u64 option \<Rightarrow> u64" where
  "sig_v s chain_id =
     (case chain_id of
        Some chain_id \<Rightarrow> of_bool (sig_odd_y_parity s) + chain_id * 2 + 35
      | None \<Rightarrow> of_bool (sig_odd_y_parity s) + 27)"

definition sig_payload_len_with_eip155_chain_id :: "signature \<Rightarrow> u64 option \<Rightarrow> nat" where
  "sig_payload_len_with_eip155_chain_id s chain_id =
     uint_length (sig_v s chain_id) + ruint_length (sig_r s) + ruint_length (sig_s s)"

definition sig_encode_with_eip155_chain_id :: "signature \<Rightarrow> u64 option \<Rightarrow> bytes" where
  "sig_encode_with_eip155_chain_id s chain_id =
     encode_uint (sig_v s chain_id) @ encode_ruint (sig_r s) @ encode_ruint (sig_s s)"

text \<open>In the release profile \<^verbatim>\<open>v - 27\<close> wraps around for \<open>v < 27\<close>.\<close>

definition sig_decode_with_eip155_chain_id ::
    "bytes \<Rightarrow> decode_error + (signature \<times> u64 option) \<times> bytes" where
  "sig_decode_with_eip155_chain_id buf =
     and_then (decode_uint buf :: decode_error + u64 \<times> bytes) (\<lambda>(v, buf).
     and_then (decode_ruint buf) (\<lambda>(r, buf).
     and_then (decode_ruint buf) (\<lambda>(s, buf).
       if v \<ge> 35 then
         (let odd_y_parity = ((v - 35) mod 2 \<noteq> 0);
              chain_id = drop_bit 1 (v - 35)
          in Inr ((\<lparr>sig_r = r, sig_s = s, sig_odd_y_parity = odd_y_parity\<rparr>, Some chain_id), buf))
       else
         (let odd_y_parity = (v - 27 \<noteq> 0)
          in Inr ((\<lparr>sig_r = r, sig_s = s, sig_odd_y_parity = odd_y_parity\<rparr>, None), buf)))))"

definition bool_length :: "bool \<Rightarrow> nat" where
  "bool_length b = uint_length (of_bool b :: u8)"

definition sig_payload_len :: "signature \<Rightarrow> nat" where
  "sig_payload_len s =
     bool_length (sig_odd_y_parity s) + ruint_length (sig_r s) + ruint_length (sig_s s)"

definition sig_encode :: "signature \<Rightarrow> bytes" where
  "sig_encode s = encode_bool (sig_odd_y_parity s) @ encode_ruint (sig_r s) @ encode_ruint (sig_s s)"

definition sig_decode :: "bytes \<Rightarrow> decode_error + signature \<times> bytes" where
  "sig_decode buf =
     and_then (decode_bool buf) (\<lambda>(odd_y_parity, buf).
     and_then (decode_ruint buf) (\<lambda>(r, buf).
     and_then (decode_ruint buf) (\<lambda>(s, buf).
       Inr (\<lparr>sig_r = r, sig_s = s, sig_odd_y_parity = odd_y_parity\<rparr>, buf))))"

definition sig_to_bytes :: "signature \<Rightarrow> bytes" where
  "sig_to_bytes s = to_be_bytes (sig_r s) @ to_be_bytes (sig_s s) @ [of_bool (sig_odd_y_parity s) + 27]"

text \<open>
  \<open>recover_ecdsa\<close> stands for the third-party recovery: from the 64 bytes of a signature, the
  recovery id and the message it returns the 65 bytes of the uncompressed public key, or nothing.
  \<open>sign_ecdsa\<close> stands for its signing: the recovery id and the 64 bytes, or nothing for a secret
  key that is not valid.
\<close>

definition secp256k1_recover ::
    "(bytes \<Rightarrow> h256) \<Rightarrow> (bytes \<Rightarrow> u8 \<Rightarrow> h256 \<Rightarrow> bytes option) \<Rightarrow> bytes \<Rightarrow> h256 \<Rightarrow> h160 option" where
  "secp256k1_recover keccak256 recover_ecdsa sig msg =
     (case recover_ecdsa (take 64 sig) (sig ! 64) (take 32 msg) of
        None \<Rightarrow> None
      | Some pub \<Rightarrow> (let hash = keccak256 (drop 1 pub) in Some (drop 12 hash)))"

definition sign_message ::
    "(h256 \<Rightarrow> h256 \<Rightarrow> (int \<times> bytes) option) \<Rightarrow> h256 \<Rightarrow> h256 \<Rightarrow> signature option" where
  "sign_message sign_ecdsa secret msg =
     (case sign_ecdsa secret msg of
        None \<Rightarrow> None
      | Some (rec_id, data) \<Rightarrow>
          Some \<lparr>sig_r = from_be_bytes (take 32 data), sig_s = from_be_bytes (take 32 (drop 32 data)),
                sig_odd_y_parity = (rec_id \<noteq> 0)\<rparr>)"

definition sig_recover_signer ::
    "(bytes \<Rightarrow> h256) \<Rightarrow> (bytes \<Rightarrow> u8 \<Rightarrow> h256 \<Rightarrow> bytes option) \<Rightarrow> signature \<Rightarrow> h256 \<Rightarrow> h160 option" where
  "sig_recover_signer keccak256 recover_ecdsa s hash =
     secp256k1_recover keccak256 recover_ecdsa
       (to_be_bytes (sig_r s) @ to_be_bytes (sig_s s) @ [of_bool (sig_odd_y_parity s)]) hash"

section \<open>Signed transactions\<close>

definition recover_signer ::
    "(bytes \<Rightarrow> h256) \<Rightarrow> (bytes \<Rightarrow> u8 \<Rightarrow> h256 \<Rightarrow> bytes option) \<Rightarrow> transaction_signed \<Rightarrow>
     h160 option" where
  "recover_signer keccak256 recover_ecdsa t =
     (let hash = signature_hash keccak256 (ts_transaction t)
      in sig_recover_signer keccak256 recover_ecdsa (ts_signature t) hash)"

definition try_ecrecovered ::
    "(bytes \<Rightarrow> h256) \<Rightarrow> (bytes \<Rightarrow> u8 \<Rightarrow> h256 \<Rightarrow> bytes option) \<Rightarrow> transaction_signed \<Rightarrow>
     transaction_signed_ec_recovered option" where
  "try_ecrecovered keccak256 recover_ecdsa t =
     map_option (\<lambda>signer. \<lparr>er_signer = signer, er_signed_transaction = t\<rparr>)
       (recover_signer keccak256 recover_ecdsa t)"

definition encode_inner :: "transaction_signed \<Rightarrow> bool \<Rightarrow> bytes" where
  "encode_inner t with_header =
     (case ts_transaction t of
        Legacy tx \<Rightarrow>
          (let n = fields_len (ts_transaction t) +
                     sig_payload_len_with_eip155_chain_id (ts_signature t) (lg_chain_id tx)
           in header_encode \<lparr>list_flag = True, payload_length = n\<rparr> @
              encode_fields (ts_transaction t) @
              sig_encode_with_eip155_chain_id (ts_signature t) (lg_chain_id tx))
      | _ \<Rightarrow>
          (let n = fields_len (ts_transaction t) + sig_payload_len (ts_signature t)
           in (if with_header
               then header_encode \<lparr>list_flag = False, payload_length = 1 + length_of_length n + n\<rparr>
               else []) @
              tx_type_u8 (tx_type (ts_transaction t)) #
              header_encode \<lparr>list_flag = True, payload_length = n\<rparr> @
              encode_fields (ts_transaction t) @ sig_encode (ts_signature t)))"

definition payload_len_inner :: "transaction_signed \<Rightarrow> nat" where
  "payload_len_inner t =
     (case ts_transaction t of
        Legacy tx \<Rightarrow>
          (let n = fields_len (ts_transaction t) +
                     sig_payload_len_with_eip155_chain_id (ts_signature t) (lg_chain_id tx)
           in length_of_length n + n)
      | _ \<Rightarrow>
          (let n = fields_len (ts_transaction t) + sig_payload_len (ts_signature t);
               len = 1 + length_of_length n + n
           in length_of_length len + len))"

definition recalculate_hash :: "(bytes \<Rightarrow> h256) \<Rightarrow> transaction_signed \<Rightarrow> h256" where
  "recalculate_hash keccak256 t = keccak256 (encode_inner t False)"

definition from_transaction_and_signature ::
    "(bytes \<Rightarrow> h256) \<Rightarrow> transaction \<Rightarrow> signature \<Rightarrow> transaction_signed" where
  "from_transaction_and_signature keccak256 tx s =
     (let initial_tx = \<lparr>ts_hash = replicate 32 0, ts_signature = s, ts_transaction = tx\<rparr>
      in initial_tx\<lparr>ts_hash := recalculate_hash keccak256 initial_tx\<rparr>)"

text \<open>The slice \<^verbatim>\<open>&original_encoding[..tx_length]\<close> panics when the buffer is shorter.\<close>

definition slice_to :: "nat \<Rightarrow> bytes \<Rightarrow> 'e fault + bytes" where
  "slice_to n b = (if n \<le> length b then Inr (take n b) else Inl Panic)"

definition decode_legacy_fields ::
    "bytes \<Rightarrow> decode_error + (transaction \<times> signature) \<times> bytes" where
  "decode_legacy_fields data =
     and_then (decode_uint data) (\<lambda>(nonce, data).
     and_then (decode_uint data) (\<lambda>(gas_price, data).
     and_then (decode_uint data) (\<lambda>(gas_limit, data).
     and_then (kind_decode data) (\<lambda>(to, data).
     and_then (decode_uint data) (\<lambda>(val, data).
     and_then (decode_bytes data) (\<lambda>(input, data).
     (let tx = Legacy \<lparr>lg_chain_id = None, lg_nonce = nonce, lg_gas_price = gas_price,
                 lg_gas_limit = gas_limit, lg_to = to, lg_value = val, lg_input = input\<rparr> in
     and_then (sig_decode_with_eip155_chain_id data) (\<lambda>((s, extracted_id), data).
     (let tx = (case extracted_id of Some c \<Rightarrow> set_chain_id c tx | None \<Rightarrow> tx)
      in Inr ((tx, s), data))))))))))"

definition decode_rlp_legacy_transaction ::
    "(bytes \<Rightarrow> h256) \<Rightarrow> bytes \<Rightarrow> decode_error fault + transaction_signed \<times> bytes" where
  "decode_rlp_legacy_transaction keccak256 data =
     (let original_encoding = data in
     and_then (try_res (header_decode data)) (\<lambda>(h, data).
     and_then (try_res (decode_legacy_fields data)) (\<lambda>((tx, s), data).
     (let tx_length = payload_length h + header_length h in
     and_then (slice_to tx_length original_encoding) (\<lambda>b.
       Inr (\<lparr>ts_hash = keccak256 b, ts_signature = s, ts_transaction = tx\<rparr>, data))))))"

definition decode_typed_fields :: "u8 \<Rightarrow> bytes \<Rightarrow> decode_error + transaction \<times> bytes" where
  "decode_typed_fields ty data =
     (if ty = 1 then
        and_then (decode_uint data) (\<lambda>(chain_id, data).
        and_then (decode_uint data) (\<lambda>(nonce, data).
        and_then (decode_uint data) (\<lambda>(gas_price, data).
        and_then (decode_uint data) (\<lambda>(gas_limit, data).
        and_then (kind_decode data) (\<lambda>(to, data).
        and_then (decode_uint data) (\<lambda>(val, data).
        and_then (decode_bytes data) (\<lambda>(input, data).
        and_then (access_list_decode data) (\<lambda>(access_list, data).
          Inr (Eip2930 \<lparr>al_chain_id = chain_id, al_nonce = nonce, al_gas_price = gas_price,
                 al_gas_limit = gas_limit, al_to = to, al_value = val,
                 al_access_list = access_list, al_input = input\<rparr>, data)))))))))
      else if ty = 2 then
        and_then (decode_uint data) (\<lambda>(chain_id, data).
        and_then (decode_uint data) (\<lambda>(nonce, data).
        and_then (decode_uint data) (\<lambda>(max_priority_fee_per_gas, data).
        and_then (decode_uint data) (\<lambda>(max_fee_per_gas, data).
        and_then (decode_uint data) (\<lambda>(gas_limit, data).
        and_then (kind_decode data) (\<lambda>(to, data).
        and_then (decode_uint data) (\<lambda>(val, data).
        and_then (decode_bytes data) (\<lambda>(input, data).
        and_then (access_list_decode data) (\<lambda>(access_list, data).
          Inr (Eip1559 \<lparr>df_chain_id = chain_id, df_nonce = nonce, df_gas_limit = gas_limit,
                 df_max_fee_per_gas = max_fee_per_gas,
                 df_max_priority_fee_per_gas = max_priority_fee_per_gas, df_to = to,
                 df_value = val, df_access_list = access_list, df_input = input\<rparr>, data))))))))))
      else Inl (Custom ''unsupported typed transaction type''))"

definition decode_enveloped_typed_transaction ::
    "(bytes \<Rightarrow> h256) \<Rightarrow> bytes \<Rightarrow> decode_error fault + transaction_signed \<times> bytes" where
  "decode_enveloped_typed_transaction keccak256 data =
     (let original_encoding = data in
     and_then (case data of [] \<Rightarrow> Inl (Err InputTooShort) | b # data \<Rightarrow> Inr (b, data))
       (\<lambda>(ty, data).
     and_then (try_res (header_decode data)) (\<lambda>(h, data).
     if \<not> list_flag h then Inl (Err (Custom ''typed tx fields must be encoded as a list''))
     else (let tx_length = 1 + header_length h + payload_length h in
     and_then (try_res (decode_typed_fields ty data)) (\<lambda>(tx, data).
     and_then (try_res (sig_decode data)) (\<lambda>(s, data).
     and_then (slice_to tx_length original_encoding) (\<lambda>b.
       Inr (\<lparr>ts_hash = keccak256 b, ts_signature = s, ts_transaction = tx\<rparr>, data))))))))"

definition decode_enveloped :: "(bytes \<Rightarrow> h256) \<Rightarrow> bytes \<Rightarrow> decode_error fault + transaction_signed" where
  "decode_enveloped keccak256 data =
     (if data = [] then Inl (Err InputTooShort)
      else and_then
             (if hd data \<ge> EMPTY_LIST_CODE then decode_rlp_legacy_transaction keccak256 data
              else decode_enveloped_typed_transaction keccak256 data)
             (\<lambda>(t, _). Inr t))"

definition encode_enveloped :: "transaction_signed \<Rightarrow> bytes" where
  "encode_enveloped t = encode_inner t False"

definition encode_transaction_signed :: "transaction_signed \<Rightarrow> bytes" where
  "encode_transaction_signed t = encode_inner t True"

definition decode_transaction_signed ::
    "(bytes \<Rightarrow> h256) \<Rightarrow> bytes \<Rightarrow> decode_error fault + transaction_signed \<times> bytes" where
  "decode_transaction_signed keccak256 buf =
     (let original_encoding = buf in
     and_then (try_res (header_decode buf)) (\<lambda>(h, buf).
     if \<not> list_flag h then decode_enveloped_typed_transaction keccak256 buf
     else decode_rlp_legacy_transaction keccak256 original_encoding))"

definition decode_ec_recovered ::
    "(bytes \<Rightarrow> h256) \<Rightarrow> (bytes \<Rightarrow> u8 \<Rightarrow> h256 \<Rightarrow> bytes option) \<Rightarrow> bytes \<Rightarrow>
     decode_error fault + transaction_signed_ec_recovered \<times> bytes" where
  "decode_ec_recovered keccak256 recover_ecdsa buf =
     and_then (decode_transaction_signed keccak256 buf) (\<lambda>(t, buf).
     and_then (ok_or (recover_signer keccak256 recover_ecdsa t)
         (Err (Custom ''Unable to recover decoded transaction signer.''))) (\<lambda>signer.
       Inr (\<lparr>er_signer = signer, er_signed_transaction = t\<rparr>, buf)))"

section \<open>Codecs of the fields\<close>

fun kind_wf :: "transaction_kind \<Rightarrow> bool" where
  "kind_wf Create = True"
| "kind_wf (Call a) = (length a = 20)"

lemma h160_first: "length a = 20 \<Longrightarrow> encode_slice a = 0x94 # a"
  by (simp add: encode_slice_def header_encode_def EMPTY_STRING_CODE_def)

interpretation rlp_kind: rlp_item kind_encode kind_length kind_decode kind_wf
proof
  fix k rest
  assume wf: "kind_wf k"
  then show "kind_length k = length (kind_encode k)"
    by (cases k) (simp_all add: rlp_h160.len_enc)
  show "kind_decode (kind_encode k @ rest) = Inr (k, rest)"
  proof (cases k)
    case (Call a)
    with wf rlp_h160.dec_enc [of a rest] show ?thesis
      by (simp add: kind_decode_def h160_first EMPTY_STRING_CODE_def)
  qed (simp add: kind_decode_def)
  show "kind_encode k \<noteq> []"
    by (cases k) simp_all
next
  fix buf k rest
  assume "kind_decode buf = Inr (k, rest)"
  then show "kind_wf k \<and> buf = kind_encode k @ rest"
    by (auto simp: kind_decode_def and_then_eq_Inr split: list.splits if_splits dest: rlp_h160.dec_strict)
qed

interpretation rlp_keys: rlp_item "encode_list slice_length encode_slice" "list_length slice_length"
    "decode_list (decode_array 32)"
    "\<lambda>ks. list_all (\<lambda>k. length k = 32) ks \<and> length (concat (map encode_slice ks)) < 2 ^ 64"
  by (rule rlp_h256.list_item)

interpretation rlp_item_fields: rlp_fields
    "seq_encode encode_slice (encode_list slice_length encode_slice)"
    "seq_length slice_length (list_length slice_length)"
    "seq_decode (decode_array 20) (decode_list (decode_array 32))"
    "\<lambda>f. length (fst f) = 20 \<and>
      list_all (\<lambda>k. length k = 32) (snd f) \<and> length (concat (map encode_slice (snd f))) < 2 ^ 64"
  by (rule rlp_h160.seq_fields) (rule rlp_keys.fields)

definition access_list_item_wf :: "access_list_item \<Rightarrow> bool" where
  "access_list_item_wf i \<longleftrightarrow>
     (length (ali_address i) = 20 \<and> list_all (\<lambda>k. length k = 32) (ali_storage_keys i) \<and>
      length (concat (map encode_slice (ali_storage_keys i))) < 2 ^ 64) \<and>
     seq_length slice_length (list_length slice_length) (access_list_item_fields i) < 2 ^ 64"

interpretation rlp_access_item: rlp_item access_list_item_encode access_list_item_length
    access_list_item_decode access_list_item_wf
proof -
  note iso = rlp_item.iso_item [OF rlp_item_fields.derive_item, of access_list_item_of access_list_item_fields]
  show "rlp_item access_list_item_encode access_list_item_length access_list_item_decode access_list_item_wf"
    unfolding access_list_item_encode_def [abs_def] access_list_item_length_def [abs_def]
      access_list_item_decode_def [abs_def] access_list_item_wf_def [abs_def]
    using iso by (simp add: access_list_item_fields_def access_list_item_of_def)
qed

definition access_list_wf :: "access_list \<Rightarrow> bool" where
  "access_list_wf al \<longleftrightarrow>
     list_all access_list_item_wf al \<and> length (concat (map access_list_item_encode al)) < 2 ^ 64"

interpretation rlp_access_list: rlp_item access_list_encode access_list_length access_list_decode access_list_wf
  unfolding access_list_encode_def access_list_length_def access_list_decode_def
    access_list_wf_def [abs_def]
  by (rule rlp_access_item.list_item)

interpretation rlp_bool: rlp_item encode_bool bool_length decode_bool "\<lambda>_. True"
proof
  fix b rest
  show "decode_bool (encode_bool b @ rest) = Inr (b, rest)"
    by (rule decode_bool_encode)
qed (auto simp: bool_length_def encode_bool_def rlp_u8.len_enc dest: decode_bool_strict)

lemmas item_encs [simp] = rlp_u64.len_enc rlp_u128.len_enc rlp_u256.len_enc rlp_bytes.len_enc
  rlp_kind.len_enc rlp_access_list.len_enc rlp_bool.len_enc rlp_u8.len_enc

section \<open>Well-formed transactions\<close>

text \<open>
  The Rust types bound an address to 20 and a storage key to 32 bytes, and no buffer is larger than
  the address space.
\<close>

fun tx_wf :: "transaction \<Rightarrow> bool" where
  "tx_wf (Legacy t) = (kind_wf (lg_to t) \<and> length (lg_input t) < 2 ^ 64)"
| "tx_wf (Eip2930 t) =
     (kind_wf (al_to t) \<and> length (al_input t) < 2 ^ 64 \<and> access_list_wf (al_access_list t))"
| "tx_wf (Eip1559 t) =
     (kind_wf (df_to t) \<and> length (df_input t) < 2 ^ 64 \<and> access_list_wf (df_access_list t))"

lemma fields_len_eq: "tx_wf tx \<Longrightarrow> fields_len tx = length (encode_fields tx)"
  by (cases tx) simp_all

lemma eip155_fields_len_eq: "eip155_fields_len tx = length (encode_eip155_fields tx)"
proof -
  have "length (encode_uint (0 :: u8)) = 1"
    by code_simp
  then show ?thesis
    by (simp add: eip155_fields_len_def encode_eip155_fields_def split: transaction.splits option.splits)
qed

text \<open>The values of \<^verbatim>\<open>v\<close> that do not wrap around.\<close>

definition chain_id_wf :: "u64 option \<Rightarrow> bool" where
  "chain_id_wf c \<longleftrightarrow> (case c of None \<Rightarrow> True | Some c \<Rightarrow> 2 * unat c + 36 < 2 ^ 64)"

lemma sig_v_unat:
  "chain_id_wf (Some c) \<Longrightarrow> unat (sig_v s (Some c)) = of_bool (sig_odd_y_parity s) + 2 * unat c + 35"
  by (auto simp: sig_v_def chain_id_wf_def unat_word_ariths)

lemma sig_155_decode:
  assumes "chain_id_wf c"
  shows "sig_decode_with_eip155_chain_id (sig_encode_with_eip155_chain_id s c @ rest) = Inr ((s, c), rest)"
proof (cases c)
  case None
  then show ?thesis
    by (cases s) (simp add: sig_decode_with_eip155_chain_id_def sig_encode_with_eip155_chain_id_def sig_v_def)
next
  case (Some i)
  note v = sig_v_unat [of i s, OF assms [unfolded Some]]
  then have ge: "35 \<le> sig_v s (Some i)"
    by (simp add: word_le_nat_alt)
  then have sub: "unat (sig_v s (Some i) - 35) = of_bool (sig_odd_y_parity s) + 2 * unat i"
    using v by (simp add: unat_sub)
  then have "((sig_v s (Some i) - 35) mod 2 \<noteq> 0) = sig_odd_y_parity s"
    by (simp add: unat_eq_zero [symmetric] unat_mod)
  moreover have "drop_bit 1 (sig_v s (Some i) - 35) = i"
    using sub by (intro word_unat_eq_iff [THEN iffD2]) (simp add: unat_drop_bit_eq drop_bit_eq_div unat_div)
  ultimately show ?thesis
    using ge Some
    by (cases s) (simp add: sig_decode_with_eip155_chain_id_def sig_encode_with_eip155_chain_id_def)
qed

lemma sig_decode_enc: "sig_decode (sig_encode s @ rest) = Inr (s, rest)"
  by (cases s) (simp add: sig_decode_def sig_encode_def)

lemma decode_typed_fields_enc:
  assumes "tx_wf tx" and "tx_type tx \<noteq> TypeLegacy"
  shows "decode_typed_fields (tx_type_u8 (tx_type tx)) (encode_fields tx @ rest) = Inr (tx, rest)"
proof (cases tx)
  case (Eip2930 t)
  with assms show ?thesis
    by (cases t) (simp add: decode_typed_fields_def EIP2930_TX_TYPE_ID_def)
next
  case (Eip1559 t)
  with assms show ?thesis
    by (cases t) (simp add: decode_typed_fields_def EIP1559_TX_TYPE_ID_def)
qed (use assms in simp)

lemma decode_legacy_fields_enc:
  assumes "tx_wf (Legacy t)" and "chain_id_wf (lg_chain_id t)"
  shows "decode_legacy_fields
     (encode_fields (Legacy t) @ sig_encode_with_eip155_chain_id s (lg_chain_id t) @ rest)
     = Inr ((Legacy t, s), rest)"
  using assms by (cases t) (auto simp: decode_legacy_fields_def sig_155_decode Let_def split: option.splits)

lemma decode_typed_fields_strict:
  assumes "decode_typed_fields ty data = Inr (tx, rest)"
  shows "tx_wf tx \<and> tx_type tx \<noteq> TypeLegacy \<and> ty = tx_type_u8 (tx_type tx) \<and> data = encode_fields tx @ rest"
proof -
  have "ty = 1 \<or> ty = 2"
    using assms by (auto simp: decode_typed_fields_def split: if_splits)
  then show ?thesis
  proof
    assume "ty = 1"
    with assms show ?thesis
      unfolding decode_typed_fields_def
      by simp (elim rlp_u64.bindE rlp_u128.bindE rlp_kind.bindE rlp_bytes.bindE rlp_access_list.bindE,
        auto simp: EIP2930_TX_TYPE_ID_def)
  next
    assume "ty = 2"
    with assms show ?thesis
      unfolding decode_typed_fields_def
      by simp (elim rlp_u64.bindE rlp_u128.bindE rlp_kind.bindE rlp_bytes.bindE rlp_access_list.bindE,
        auto simp: EIP1559_TX_TYPE_ID_def)
  qed
qed

lemma sig_decode_strict: "sig_decode buf = Inr (s, rest) \<Longrightarrow> buf = sig_encode s @ rest"
  unfolding sig_decode_def
  by (elim rlp_bool.bindE rlp_u256.bindE) (auto simp: sig_encode_def)

section \<open>Signed transactions on the wire\<close>

declare fields_len.simps [simp del] encode_fields.simps [simp del] tx_wf.simps [simp del]

fun sig_fields :: "transaction \<Rightarrow> signature \<Rightarrow> bytes" where
  "sig_fields (Legacy t) s = sig_encode_with_eip155_chain_id s (lg_chain_id t)"
| "sig_fields _ s = sig_encode s"

fun sig_fields_len :: "transaction \<Rightarrow> signature \<Rightarrow> nat" where
  "sig_fields_len (Legacy t) s = sig_payload_len_with_eip155_chain_id s (lg_chain_id t)"
| "sig_fields_len _ s = sig_payload_len s"

abbreviation list_header :: "nat \<Rightarrow> rlp_header" where
  "list_header n \<equiv> \<lparr>list_flag = True, payload_length = n\<rparr>"

definition signed_body :: "transaction \<Rightarrow> signature \<Rightarrow> bytes" where
  "signed_body tx s = encode_fields tx @ sig_fields tx s"

definition tx_prefix :: "transaction \<Rightarrow> bytes" where
  "tx_prefix tx = (if tx_type tx = TypeLegacy then [] else [tx_type_u8 (tx_type tx)])"

definition signed_wf :: "transaction \<Rightarrow> signature \<Rightarrow> bool" where
  "signed_wf tx s \<longleftrightarrow> tx_wf tx \<and> (tx_type tx = TypeLegacy \<longrightarrow> chain_id_wf (tx_chain_id tx)) \<and>
     length (signed_body tx s) + 10 < 2 ^ 64"

lemma sig_fields_len_eq: "sig_fields_len tx s = length (sig_fields tx s)"
  by (cases tx) (simp_all add: sig_payload_len_with_eip155_chain_id_def sig_payload_len_def
      sig_encode_with_eip155_chain_id_def sig_encode_def)

lemma encode_inner_False:
  assumes "tx_wf tx"
  shows "encode_inner \<lparr>ts_hash = h, ts_signature = s, ts_transaction = tx\<rparr> False =
    tx_prefix tx @ header_encode (list_header (length (signed_body tx s))) @ signed_body tx s"
  using fields_len_eq [OF assms] sig_fields_len_eq [of tx s]
  by (cases tx) (simp_all add: encode_inner_def tx_prefix_def signed_body_def)

lemma encode_inner_True:
  assumes "tx_wf tx" and "length (signed_body tx s) < 2 ^ 64"
  shows "encode_inner \<lparr>ts_hash = h, ts_signature = s, ts_transaction = tx\<rparr> True =
    (let b = tx_prefix tx @ header_encode (list_header (length (signed_body tx s))) @ signed_body tx s
     in (if tx_type tx = TypeLegacy then []
         else header_encode \<lparr>list_flag = False, payload_length = length b\<rparr>) @ b)"
  using fields_len_eq [OF assms(1)] sig_fields_len_eq [of tx s]
    length_header_encode [OF assms(2), of True]
  by (cases tx) (simp_all add: encode_inner_def signed_body_def tx_prefix_def Let_def)

lemma length_list_header_le: "n < 2 ^ 64 \<Longrightarrow> length (header_encode (list_header n)) \<le> 9"
  using length_header_encode [of n True] by (simp add: length_of_length_def)

lemma slice_to_append: "n = length a \<Longrightarrow> slice_to n (a @ b) = Inr a"
  by (simp add: slice_to_def)

lemma list_header_decode:
  "n < 2 ^ 64 \<Longrightarrow> n \<le> length b \<Longrightarrow> header_decode (header_encode (list_header n) @ b) = Inr (list_header n, b)"
  by (rule header_decode_encode) simp_all

lemma list_header_first:
  assumes "n < 2 ^ 64"
  shows "EMPTY_LIST_CODE \<le> hd (header_encode (list_header n) @ b)"
proof (cases "n < 56")
  case True
  then show ?thesis
    by (simp add: header_encode_def word_le_nat_alt EMPTY_LIST_CODE_def u8_add_of_nat)
next
  case False
  have "length (zeroless_view (nat_to_be 8 n)) \<le> 8"
    using length_strip_zeros_le [of "nat_to_be 8 n"] by (simp add: zeroless_view_strip_zeros)
  with False show ?thesis
    by (simp add: header_encode_def word_le_nat_alt EMPTY_LIST_CODE_def u8_add_of_nat Let_def)
qed

lemma decode_legacy_enc:
  assumes "signed_wf (Legacy t) s"
  shows "decode_rlp_legacy_transaction k (header_encode (list_header (length (signed_body (Legacy t) s)))
      @ signed_body (Legacy t) s @ rest) =
    Inr (from_transaction_and_signature k (Legacy t) s, rest)"
proof -
  let ?n = "length (signed_body (Legacy t) s)"
  have wf: "tx_wf (Legacy t)" "chain_id_wf (lg_chain_id t)" "?n < 2 ^ 64"
    using assms by (auto simp: signed_wf_def)
  have "decode_legacy_fields (signed_body (Legacy t) s @ rest) = Inr ((Legacy t, s), rest)"
    using decode_legacy_fields_enc [OF wf(1,2)] by (simp add: signed_body_def)
  moreover have "slice_to (?n + header_length (list_header ?n))
      (header_encode (list_header ?n) @ signed_body (Legacy t) s @ rest)
    = (Inr (header_encode (list_header ?n) @ signed_body (Legacy t) s) :: decode_error fault + bytes)"
    using slice_to_append [of "?n + header_length (list_header ?n)"
        "header_encode (list_header ?n) @ signed_body (Legacy t) s" rest]
    by (simp add: header_length_def)
  ultimately show ?thesis
    using wf(1,3)
    by (simp add: decode_rlp_legacy_transaction_def list_header_decode from_transaction_and_signature_def
        recalculate_hash_def encode_inner_False tx_prefix_def)
qed

lemma decode_typed_gen:
  assumes "tx_wf tx" and "tx_type tx \<noteq> TypeLegacy"
    and "n < 2 ^ 64" and "n \<le> length (encode_fields tx @ sig_encode s @ rest)"
  shows "decode_enveloped_typed_transaction k (tx_type_u8 (tx_type tx) # header_encode (list_header n) @
      encode_fields tx @ sig_encode s @ rest) =
    Inr (\<lparr>ts_hash = k (tx_type_u8 (tx_type tx) # header_encode (list_header n) @
        take n (encode_fields tx @ sig_encode s @ rest)),
      ts_signature = s, ts_transaction = tx\<rparr>, rest)"
proof -
  let ?b = "encode_fields tx @ sig_encode s @ rest"
  have "slice_to (1 + header_length (list_header n) + n) (tx_type_u8 (tx_type tx) # header_encode (list_header n) @ ?b)
      = (Inr (tx_type_u8 (tx_type tx) # header_encode (list_header n) @ take n ?b) :: decode_error fault + bytes)"
    using assms(4) by (simp add: slice_to_def header_length_def)
  then show ?thesis
    using decode_typed_fields_enc [OF assms(1,2)] assms(3,4)
    by (simp add: decode_enveloped_typed_transaction_def list_header_decode sig_decode_enc)
qed

lemma decode_typed_strict:
  assumes "decode_enveloped_typed_transaction k data = Inr (t, rest)"
  obtains n where "tx_wf (ts_transaction t)" and "tx_type (ts_transaction t) \<noteq> TypeLegacy"
    and "n < 2 ^ 64"
    and "n \<le> length (encode_fields (ts_transaction t) @ sig_encode (ts_signature t) @ rest)"
    and "data = tx_type_u8 (tx_type (ts_transaction t)) # header_encode (list_header n) @
      encode_fields (ts_transaction t) @ sig_encode (ts_signature t) @ rest"
proof -
  from assms obtain ty b1 h b2 b3 where d: "data = ty # b1" "header_decode b1 = Inr (h, b2)" "list_flag h"
    and tx: "decode_typed_fields ty b2 = Inr (ts_transaction t, b3)"
    and s: "sig_decode b3 = Inr (ts_signature t, rest)"
    by (auto simp: decode_enveloped_typed_transaction_def and_then_eq_Inr Let_def
        split: list.splits if_splits)
  from header_decode_strict [OF d(2)] d(3)
  have h: "payload_length h < 2 ^ 64" "payload_length h \<le> length b2" "b1 = header_encode h @ b2"
    by auto
  have "h = list_header (payload_length h)"
    using d(3) by (cases h) simp
  with h d(1) decode_typed_fields_strict [OF tx] sig_decode_strict [OF s] show thesis
    by (intro that [of "payload_length h"]) auto
qed

lemma typed_not_list_code: "ty \<noteq> TypeLegacy \<Longrightarrow> \<not> EMPTY_LIST_CODE \<le> tx_type_u8 ty"
  by (cases ty) (simp_all add: EMPTY_LIST_CODE_def EIP2930_TX_TYPE_ID_def EIP1559_TX_TYPE_ID_def word_le_nat_alt)

lemma decode_typed_enc:
  assumes "signed_wf tx s" and "tx_type tx \<noteq> TypeLegacy"
  shows "decode_enveloped_typed_transaction k
      (tx_prefix tx @ header_encode (list_header (length (signed_body tx s))) @ signed_body tx s @ rest) =
    Inr (from_transaction_and_signature k tx s, rest)"
proof -
  have s: "sig_fields tx s = sig_encode s"
    using assms(2) by (cases tx) simp_all
  show ?thesis
    using assms decode_typed_gen [of tx "length (signed_body tx s)" s rest k]
    by (simp add: signed_wf_def from_transaction_and_signature_def recalculate_hash_def encode_inner_False
        signed_body_def s tx_prefix_def)
qed

lemma decode_legacy_not_panic:
  assumes "header_decode data = Inr (h, b)" and "list_flag h"
  shows "decode_rlp_legacy_transaction k data \<noteq> Inl Panic"
  using header_decode_strict [OF assms(1)] assms
  by (auto simp: decode_rlp_legacy_transaction_def and_then_eq_Inl slice_to_def header_length_def)

lemma decode_typed_not_panic: "decode_enveloped_typed_transaction k data \<noteq> Inl Panic"
  using header_decode_strict
  by (fastforce simp: decode_enveloped_typed_transaction_def and_then_eq_Inl slice_to_def header_length_def
      Let_def split: list.splits if_splits)

lemma header_decode_list_code:
  assumes "header_decode data = Inr (h, b)" and "EMPTY_LIST_CODE \<le> hd data" and "data \<noteq> []"
  shows "list_flag h"
  using assms by (auto simp: header_code_defs and_then_eq_Inr split: list.splits if_splits)

lemma from_transaction_eq:
  "from_transaction_and_signature k tx s =
     \<lparr>ts_hash = recalculate_hash k \<lparr>ts_hash = replicate 32 0, ts_signature = s, ts_transaction = tx\<rparr>,
      ts_signature = s, ts_transaction = tx\<rparr>"
  by (simp add: from_transaction_and_signature_def)

lemma signed_wfD:
  assumes "signed_wf tx s"
  shows "tx_wf tx" and "length (signed_body tx s) < 2 ^ 64"
    and "length (tx_prefix tx @ header_encode (list_header (length (signed_body tx s))) @ signed_body tx s) < 2 ^ 64"
proof -
  show "tx_wf tx" and "length (signed_body tx s) < 2 ^ 64"
    using assms by (simp_all add: signed_wf_def)
  then show "length (tx_prefix tx @ header_encode (list_header (length (signed_body tx s))) @ signed_body tx s) < 2 ^ 64"
    using assms length_list_header_le [of "length (signed_body tx s)"]
    by (auto simp: signed_wf_def tx_prefix_def)
qed

lemma decode_p2p_enc:
  assumes "signed_wf tx s"
  shows "decode_transaction_signed k (encode_transaction_signed (from_transaction_and_signature k tx s) @ rest)
    = Inr (from_transaction_and_signature k tx s, rest)"
proof (cases "tx_type tx = TypeLegacy")
  case True
  then obtain l where tx: "tx = Legacy l" by (cases tx) simp_all
  show ?thesis
    using decode_legacy_enc [OF assms [unfolded tx], of k rest] signed_wfD [OF assms]
    by (simp add: decode_transaction_signed_def encode_transaction_signed_def encode_inner_True
        from_transaction_eq tx tx_prefix_def list_header_decode)
next
  case False
  let ?b = "tx_prefix tx @ header_encode (list_header (length (signed_body tx s))) @ signed_body tx s"
  have "header_encode (list_header (length (signed_body tx s))) \<noteq> []"
    by simp
  then have "length ?b \<noteq> 1"
    using False by (simp add: tx_prefix_def)
  then have "header_decode (header_encode \<lparr>list_flag = False, payload_length = length ?b\<rparr> @ ?b @ rest)
      = Inr (\<lparr>list_flag = False, payload_length = length ?b\<rparr>, ?b @ rest)"
    using signed_wfD(3) [OF assms] by (intro header_decode_encode) simp_all
  then show ?thesis
    using decode_typed_enc [OF assms False, of k rest] False
      encode_inner_True [OF signed_wfD(1,2) [OF assms]]
    by (simp add: decode_transaction_signed_def encode_transaction_signed_def from_transaction_eq Let_def)
qed

lemma decode_enveloped_enc:
  assumes "signed_wf tx s"
  shows "decode_enveloped k (encode_enveloped (from_transaction_and_signature k tx s))
    = Inr (from_transaction_and_signature k tx s)"
proof (cases "tx_type tx = TypeLegacy")
  case True
  then obtain l where tx: "tx = Legacy l" by (cases tx) simp_all
  show ?thesis
    using decode_legacy_enc [OF assms [unfolded tx], of k "[]"] signed_wfD [OF assms]
      list_header_first [OF signed_wfD(2) [OF assms], of "signed_body tx s"]
    by (simp add: decode_enveloped_def encode_enveloped_def encode_inner_False from_transaction_eq tx tx_prefix_def)
next
  case False
  then show ?thesis
    using decode_typed_enc [OF assms False, of k "[]"] typed_not_list_code [OF False] signed_wfD(1) [OF assms]
    by (simp add: decode_enveloped_def encode_enveloped_def encode_inner_False from_transaction_eq tx_prefix_def)
qed

lemma payload_len_inner_eq:
  assumes "signed_wf tx s"
  shows "payload_len_inner (from_transaction_and_signature k tx s)
    = length (encode_transaction_signed (from_transaction_and_signature k tx s))"
proof -
  note wf = signed_wfD [OF assms]
  have hdr: "length (header_encode \<lparr>list_flag = l, payload_length = n\<rparr>) = length_of_length n"
    if "n < 2 ^ 64" for l n
    using that by (rule length_header_encode)
  show ?thesis
    using encode_inner_True [OF wf(1,2)] fields_len_eq [OF wf(1)] sig_fields_len_eq [of tx s]
      hdr [OF wf(2), of True] hdr [OF wf(3), of False]
    by (cases tx) (simp_all add: payload_len_inner_def encode_transaction_signed_def from_transaction_eq
        tx_prefix_def signed_body_def Let_def)
qed

lemma list_body_inj:
  assumes "header_encode (list_header (length b)) @ b = header_encode (list_header (length b')) @ b'"
    and "length (header_encode (list_header (length b)) @ b) < 2 ^ 64"
  shows "b = b'"
proof -
  have "length b' \<le> length (header_encode (list_header (length b)) @ b)"
    unfolding assms(1) by simp
  then have small: "length b < 2 ^ 64" "length b' < 2 ^ 64"
    using assms(2) by simp_all
  have "Inr (list_header (length b), b) = Inr (list_header (length b'), b')"
    using list_header_decode [OF small(1), of b] list_header_decode [OF small(2), of b']
    unfolding assms(1) by simp
  then show ?thesis
    by simp
qed

definition signing_body :: "transaction \<Rightarrow> bytes" where
  "signing_body tx = encode_fields tx @ encode_eip155_fields tx"

lemma encode_transaction_eq:
  assumes "tx_wf tx"
  shows "encode_transaction tx =
    tx_prefix tx @ header_encode (list_header (length (signing_body tx))) @ signing_body tx"
  using fields_len_eq [OF assms] eip155_fields_len_eq [of tx]
  by (cases tx) (simp_all add: encode_transaction_def tx_prefix_def signing_body_def encode_eip155_fields_def)

lemma transaction_length_eq:
  assumes "tx_wf tx" and "length (signing_body tx) < 2 ^ 64"
  shows "transaction_length tx = length (encode_transaction tx)"
  using fields_len_eq [OF assms(1)] eip155_fields_len_eq [of tx] length_header_encode [OF assms(2), of True]
    encode_transaction_eq [OF assms(1)]
  by (cases tx) (simp_all add: transaction_length_def tx_prefix_def signing_body_def encode_eip155_fields_def Let_def)

lemma eip155_fields_inj:
  "encode_eip155_fields (Legacy t) = encode_eip155_fields (Legacy t') \<longleftrightarrow> lg_chain_id t = lg_chain_id t'"
  using rlp_u64.enc_inj [where r = "[]" and s = "[]"]
  by (auto simp: encode_eip155_fields_def split: option.splits)

lemma signing_body_inj:
  assumes wf: "tx_wf tx" "tx_wf tx'" and ty: "tx_type tx = tx_type tx'"
    and eq: "signing_body tx = signing_body tx'"
  shows "tx = tx'"
proof (cases "tx_type tx = TypeLegacy")
  case True
  then obtain t t' where tx: "tx = Legacy t" "tx' = Legacy t'"
    using ty by (cases tx; cases tx') simp_all
  from eq wf have "lg_nonce t = lg_nonce t' \<and> lg_gas_price t = lg_gas_price t' \<and>
      lg_gas_limit t = lg_gas_limit t' \<and> lg_to t = lg_to t' \<and> lg_value t = lg_value t' \<and>
      lg_input t = lg_input t' \<and> lg_chain_id t = lg_chain_id t'"
    unfolding tx signing_body_def encode_fields.simps append_assoc
    by (simp add: tx_wf.simps rlp_u64.enc_inj rlp_u128.enc_inj rlp_kind.enc_inj rlp_bytes.enc_inj
        eip155_fields_inj)
  with tx show ?thesis
    by simp
next
  case False
  have "encode_fields tx = encode_fields tx'"
    using eq False ty
    by (cases tx; cases tx') (simp_all add: signing_body_def encode_eip155_fields_def)
  with decode_typed_fields_enc [OF wf(1) False, of "[]"] decode_typed_fields_enc [OF wf(2), of "[]"] False ty
  show ?thesis
    by simp
qed

text \<open>The first byte tells the kind.\<close>

definition first_type :: "u8 \<Rightarrow> TxType" where
  "first_type b = (if b = EIP2930_TX_TYPE_ID then TypeEIP2930
     else if b = EIP1559_TX_TYPE_ID then TypeEIP1559 else TypeLegacy)"

lemma prefix_type:
  assumes "n < 2 ^ 64"
  shows "first_type (hd (tx_prefix tx @ header_encode (list_header n) @ b)) = tx_type tx"
proof (cases "tx_type tx")
  case TypeLegacy
  then show ?thesis
    using list_header_first [OF assms, of b] typed_not_list_code [of TypeEIP2930] typed_not_list_code [of TypeEIP1559]
    by (auto simp: tx_prefix_def first_type_def)
qed (simp_all add: tx_prefix_def first_type_def EIP2930_TX_TYPE_ID_def EIP1559_TX_TYPE_ID_def)

lemma sign_message_data:
  assumes "sign_ecdsa secret msg = Some (rec_id, data)" and "length data = 64" and "rec_id = 0 \<or> rec_id = 1"
  shows "\<exists>s. sign_message sign_ecdsa secret msg = Some s \<and>
    to_be_bytes (sig_r s) @ to_be_bytes (sig_s s) = data \<and>
    of_bool (sig_odd_y_parity s) = (of_int rec_id :: u8)"
proof -
  have w: "to_be_bytes (from_be_bytes b :: u256) = b" if "length b = 32" for b
    using that by (intro to_be_bytes_from_be_bytes) simp
  have "take 32 data @ take 32 (drop 32 data) = data"
    using assms(2) by simp
  with assms w [of "take 32 data"] w [of "take 32 (drop 32 data)"] show ?thesis
    by (auto simp: sign_message_def)
qed

section \<open>An example\<close>

definition example_tx :: transaction where
  "example_tx = Eip2930 \<lparr>al_chain_id = 1, al_nonce = 7, al_gas_price = 0, al_gas_limit = 21000,
     al_to = Create, al_value = 5, al_access_list = [], al_input = [1]\<rparr>"

lemma length_sig_encode_le: "length (sig_encode s) \<le> 70"
proof -
  have "length (encode_bool (sig_odd_y_parity s)) \<le> 2"
    using uint_length_le [of "of_bool (sig_odd_y_parity s) :: u8"]
    by (simp add: encode_bool_def)
  then show ?thesis
    using length_encode_u256_le [of "sig_r s"] length_encode_u256_le [of "sig_s s"]
    by (simp add: sig_encode_def)
qed

lemma example_tx_wf: "tx_wf example_tx" "tx_type example_tx \<noteq> TypeLegacy"
  by (simp_all add: example_tx_def tx_wf.simps access_list_wf_def)

lemma example_fields: "length (encode_fields example_tx) \<le> 100"
proof -
  have "access_list_length [] = 1"
    by (simp add: access_list_length_def list_length_def rlp_list_header_def length_of_length_def)
  then have "fields_len example_tx \<le> 100"
    using uint_length_le [of "1 :: u64"] uint_length_le [of "7 :: u64"] uint_length_le [of "0 :: u128"]
      uint_length_le [of "21000 :: u64"] uint_length_le [of "5 :: u128"] slice_length_le [of "[1]"]
    by (simp add: example_tx_def fields_len.simps max_encoded_len_array_def length_of_length_def
        del: rlp_u64.len_enc rlp_u128.len_enc)
  then show ?thesis
    by (simp add: fields_len_eq example_tx_wf)
qed

lemma example_signed_wf: "signed_wf example_tx s"
  using length_sig_encode_le [of s] example_fields example_tx_wf
  by (simp add: signed_wf_def signed_body_def example_tx_def)

lemma example_payload: "length (encode_transaction example_tx) < 2 ^ 64"
proof -
  have "length (signing_body example_tx) \<le> 100"
    using example_fields by (simp add: signing_body_def encode_eip155_fields_def example_tx_def)
  then show ?thesis
    using length_list_header_le [of "length (signing_body example_tx)"]
    by (simp add: encode_transaction_eq example_tx_wf tx_prefix_def)
qed

section \<open>Properties\<close>

text \<open>C1. A signed transaction of any of the three kinds survives both codecs, with its hash: the
  peer-to-peer decoder returns it and leaves the rest of the buffer, the decoder of raw transactions
  returns it, and the announced length is the length of the encoding.\<close>

theorem signed_tx_roundtrip:
  assumes "signed_wf tx s"
  shows "let t = from_transaction_and_signature keccak256 tx s in
    decode_transaction_signed keccak256 (encode_transaction_signed t @ rest) = Inr (t, rest) \<and>
    decode_enveloped keccak256 (encode_enveloped t) = Inr t \<and>
    payload_len_inner t = length (encode_transaction_signed t)"
  using decode_p2p_enc [OF assms] decode_enveloped_enc [OF assms] payload_len_inner_eq [OF assms]
  by (simp add: Let_def)

theorem signed_tx_roundtrip_witness:
  "let s = \<lparr>sig_r = 9, sig_s = 4, sig_odd_y_parity = True\<rparr>;
       t = from_transaction_and_signature rev example_tx s in signed_wf example_tx s \<and>
    decode_transaction_signed rev (encode_transaction_signed t @ [3]) = Inr (t, [3]) \<and>
    decode_enveloped rev (encode_enveloped t) = Inr t \<and>
    payload_len_inner t = length (encode_transaction_signed t)"
  using signed_tx_roundtrip [OF example_signed_wf, of rev "\<lparr>sig_r = 9, sig_s = 4, sig_odd_y_parity = True\<rparr>" "[3]"]
  by (simp add: example_signed_wf Let_def)

text \<open>C14. Exactly these byte strings are accepted as a typed transaction: the type byte, the header
  of a list that ends somewhere in the buffer, and the canonical encodings of the fields and the
  signature. The hash is that of the bytes that the header delimits. Nothing relates the length
  in the header to the fields.\<close>

theorem decode_typed_iff:
  "decode_enveloped_typed_transaction keccak256 data = Inr (t, rest) \<longleftrightarrow>
     tx_wf (ts_transaction t) \<and> tx_type (ts_transaction t) \<noteq> TypeLegacy \<and>
     (\<exists>n body. body = encode_fields (ts_transaction t) @ sig_encode (ts_signature t) @ rest \<and>
        data = tx_type_u8 (tx_type (ts_transaction t)) # header_encode (list_header n) @ body \<and>
        n < 2 ^ 64 \<and> n \<le> length body \<and>
        ts_hash t = keccak256 (tx_type_u8 (tx_type (ts_transaction t)) #
          header_encode (list_header n) @ take n body))"
  (is "?L = ?R")
proof
  assume L: ?L
  then obtain n where "tx_wf (ts_transaction t)" "tx_type (ts_transaction t) \<noteq> TypeLegacy" "n < 2 ^ 64"
    "n \<le> length (encode_fields (ts_transaction t) @ sig_encode (ts_signature t) @ rest)"
    "data = tx_type_u8 (tx_type (ts_transaction t)) # header_encode (list_header n) @
      encode_fields (ts_transaction t) @ sig_encode (ts_signature t) @ rest"
    by (rule decode_typed_strict)
  note n = this
  have "ts_hash t = keccak256 (tx_type_u8 (tx_type (ts_transaction t)) # header_encode (list_header n) @
      take n (encode_fields (ts_transaction t) @ sig_encode (ts_signature t) @ rest))"
    using L decode_typed_gen [OF n(1-4), of keccak256] n(5) by (cases t) simp
  with n show ?R
    by blast
next
  assume ?R
  then show ?L
    by (cases t) (auto simp: decode_typed_gen)
qed

text \<open>The two decoders of transactions from the outside never panic: the slice that is hashed
  lies within the buffer, whatever bytes are received.\<close>

theorem decoders_never_panic:
  "decode_transaction_signed keccak256 buf \<noteq> Inl Panic \<and> decode_enveloped keccak256 buf \<noteq> Inl Panic"
proof -
  have "decode_rlp_legacy_transaction keccak256 buf \<noteq> Inl Panic"
    if "\<And>h b. header_decode buf = Inr (h, b) \<Longrightarrow> list_flag h"
    using that decode_legacy_not_panic [of buf _ _ keccak256]
    by (cases "header_decode buf") (auto simp: decode_rlp_legacy_transaction_def)
  then show ?thesis
    using decode_typed_not_panic [of keccak256] decode_legacy_not_panic [of buf _ _ keccak256]
      header_decode_list_code [of buf]
    by (auto simp: decode_transaction_signed_def decode_enveloped_def and_then_eq_Inl split: if_splits)
qed

text \<open>C39. The length in the list header of a typed transaction is not compared with the fields. With
  the empty list as header, every typed transaction is accepted under the same hash, that of two
  bytes.\<close>

theorem typed_hash_malleable:
  assumes "tx_wf tx" and "tx_type tx \<noteq> TypeLegacy"
  shows "decode_enveloped keccak256
      (tx_type_u8 (tx_type tx) # EMPTY_LIST_CODE # encode_fields tx @ sig_encode s) =
    Inr \<lparr>ts_hash = keccak256 [tx_type_u8 (tx_type tx), EMPTY_LIST_CODE], ts_signature = s,
         ts_transaction = tx\<rparr>"
  using decode_typed_gen [OF assms, of 0 s "[]" keccak256] typed_not_list_code [OF assms(2)]
  by (simp add: decode_enveloped_def header_encode_def)

theorem typed_hash_malleable_witness:
  "tx_wf example_tx \<and> tx_type example_tx \<noteq> TypeLegacy \<and>
   decode_enveloped rev (tx_type_u8 (tx_type example_tx) # EMPTY_LIST_CODE # encode_fields example_tx @
     sig_encode \<lparr>sig_r = 9, sig_s = 4, sig_odd_y_parity = True\<rparr>) =
   Inr \<lparr>ts_hash = rev [tx_type_u8 (tx_type example_tx), EMPTY_LIST_CODE],
        ts_signature = \<lparr>sig_r = 9, sig_s = 4, sig_odd_y_parity = True\<rparr>, ts_transaction = example_tx\<rparr>"
  using typed_hash_malleable [OF example_tx_wf, of rev] example_tx_wf by simp

text \<open>A legacy signature is accepted with any \<open>v\<close> below 35: every value but 27 is read as an odd
  parity, below 27 because the subtraction wraps around.\<close>

theorem legacy_v_lenient:
  fixes v :: u64
  assumes "v < 35"
  shows "sig_decode_with_eip155_chain_id (encode_uint v @ encode_ruint r @ encode_ruint s @ rest) =
    Inr ((\<lparr>sig_r = r, sig_s = s, sig_odd_y_parity = (v \<noteq> 27)\<rparr>, None), rest)"
  using assms by (simp add: sig_decode_with_eip155_chain_id_def)

theorem legacy_v_lenient_witness:
  "(3 :: u64) < 35 \<and>
   sig_decode_with_eip155_chain_id (encode_uint (3 :: u64) @ encode_ruint (1 :: u256) @ encode_ruint (2 :: u256) @ []) =
    Inr ((\<lparr>sig_r = 1, sig_s = 2, sig_odd_y_parity = True\<rparr>, None), [])"
  using legacy_v_lenient [of 3 1 2 "[]"] by simp

text \<open>C30. Two transactions with the same signing payload are the same transaction, so a signature
  covers every field, the kind and the chain id included.\<close>

theorem signing_payload_inj:
  assumes wf: "tx_wf tx" "tx_wf tx'"
    and len: "length (encode_transaction tx) < 2 ^ 64"
  shows "encode_transaction tx = encode_transaction tx' \<longleftrightarrow> tx = tx'"
proof
  assume "encode_transaction tx = encode_transaction tx'"
  then have eq: "tx_prefix tx @ header_encode (list_header (length (signing_body tx))) @ signing_body tx =
      tx_prefix tx' @ header_encode (list_header (length (signing_body tx'))) @ signing_body tx'"
    unfolding encode_transaction_eq [OF wf(1)] encode_transaction_eq [OF wf(2)] .
  have small: "length (signing_body tx) < 2 ^ 64" "length (signing_body tx') < 2 ^ 64"
    using len arg_cong [OF eq, of length] unfolding encode_transaction_eq [OF wf(1)] length_append
    by linarith+
  have ty: "tx_type tx = tx_type tx'"
    using prefix_type [OF small(1), of tx "signing_body tx"] prefix_type [OF small(2), of tx' "signing_body tx'"]
    unfolding eq by (rule trans [OF sym])
  then have "tx_prefix tx = tx_prefix tx'"
    by (simp add: tx_prefix_def)
  then have "header_encode (list_header (length (signing_body tx))) @ signing_body tx =
      header_encode (list_header (length (signing_body tx'))) @ signing_body tx'"
    using eq by (simp only: same_append_eq)
  moreover have "length (header_encode (list_header (length (signing_body tx))) @ signing_body tx) < 2 ^ 64"
    using len unfolding encode_transaction_eq [OF wf(1)] length_append by linarith
  ultimately have "signing_body tx = signing_body tx'"
    by (rule list_body_inj)
  with wf ty show "tx = tx'"
    by (rule signing_body_inj)
qed simp

theorem signing_payload_inj_witness:
  "tx_wf example_tx \<and> tx_wf (set_chain_id 2 example_tx) \<and> length (encode_transaction example_tx) < 2 ^ 64 \<and>
   encode_transaction example_tx \<noteq> encode_transaction (set_chain_id 2 example_tx)"
proof -
  have "tx_wf (set_chain_id 2 example_tx)"
    by (simp add: example_tx_def tx_wf.simps access_list_wf_def)
  moreover have "set_chain_id 2 example_tx \<noteq> example_tx"
    by (simp add: example_tx_def)
  ultimately show ?thesis
    using example_tx_wf example_payload signing_payload_inj [of example_tx "set_chain_id 2 example_tx"] by auto
qed

text \<open>C22. Signing, sending and receiving a transaction recovers the signer. The hypotheses are those
  of the signature library: a signature has 64 bytes, and recovery with the recovery id that signing
  returned finds the public key. Only the parity is kept of a recovery id, so the id must be 0 or
  1.\<close>

theorem sign_send_recover:
  assumes sign: "sign_ecdsa secret (signature_hash keccak256 tx) = Some (rec_id, data)"
    and data: "length data = 64" "rec_id = 0 \<or> rec_id = 1"
    and recover: "recover_ecdsa data (of_int rec_id) (signature_hash keccak256 tx) = Some pub"
    and hash: "length (signature_hash keccak256 tx) = 32"
    and wf: "\<And>s. signed_wf tx s"
  shows "\<exists>s. sign_message sign_ecdsa secret (signature_hash keccak256 tx) = Some s \<and>
    decode_ec_recovered keccak256 recover_ecdsa
      (encode_transaction_signed (from_transaction_and_signature keccak256 tx s) @ rest) =
    Inr (\<lparr>er_signer = drop 12 (keccak256 (drop 1 pub)),
          er_signed_transaction = from_transaction_and_signature keccak256 tx s\<rparr>, rest)"
proof -
  obtain s where s: "sign_message sign_ecdsa secret (signature_hash keccak256 tx) = Some s"
    "to_be_bytes (sig_r s) @ to_be_bytes (sig_s s) = data" "of_bool (sig_odd_y_parity s) = (of_int rec_id :: u8)"
    using sign_message_data [of sign_ecdsa secret _ rec_id data, OF sign data] by blast
  have "recover_signer keccak256 recover_ecdsa (from_transaction_and_signature keccak256 tx s)
      = Some (drop 12 (keccak256 (drop 1 pub)))"
    using recover hash data(1) s(2,3) [symmetric]
    by (simp add: recover_signer_def sig_recover_signer_def secp256k1_recover_def from_transaction_eq
        nth_append)
  then show ?thesis
    using s(1) decode_p2p_enc [OF wf, of keccak256 s rest] by (simp add: decode_ec_recovered_def)
qed

theorem sign_send_recover_witness:
  "\<exists>s. sign_message (\<lambda>secret msg. Some (1, secret @ msg)) (replicate 32 6) (replicate 32 8) = Some s \<and>
    decode_ec_recovered (\<lambda>_. replicate 32 8) (\<lambda>sig v msg. if v = 1 then Some (4 # sig) else None)
      (encode_transaction_signed (from_transaction_and_signature (\<lambda>_. replicate 32 8) example_tx s) @ [3]) =
    Inr (\<lparr>er_signer = replicate 20 8,
          er_signed_transaction = from_transaction_and_signature (\<lambda>_. replicate 32 8) example_tx s\<rparr>, [3])"
  using sign_send_recover [of "\<lambda>secret msg. Some (1, secret @ msg)" "replicate 32 6" "\<lambda>_. replicate 32 8"
      example_tx 1 "replicate 32 6 @ replicate 32 8" "\<lambda>sig v msg. if v = 1 then Some (4 # sig) else None"
      "4 # replicate 32 6 @ replicate 32 8" "[3]"]
  by (simp add: signature_hash_def example_signed_wf)

end
