(* ===== verification/Blocks.thy ===== *)
theory Blocks
  imports Transactions ChainSpec
begin

text \<open>
  Blocks, withdrawals and accounts, \<^verbatim>\<open>crates/primitives/src/{block,withdrawal,account}.rs\<close>, and the
  root hashes of \<^verbatim>\<open>crates/primitives/src/proofs.rs\<close>. The trie library and \<^verbatim>\<open>keccak256\<close> are
  parameters.
\<close>

section \<open>Withdrawals\<close>

record withdrawal =
  w_index :: u64
  w_validator_index :: u64
  w_address :: h160
  w_amount :: u64

definition GWEI_TO_WEI :: u64 where
  "GWEI_TO_WEI = 1000000000"

definition amount_wei :: "withdrawal \<Rightarrow> u256" where
  "amount_wei w = ucast (w_amount w) * ucast GWEI_TO_WEI"

text \<open>The derived codec: the nested pair of the fields in order.\<close>

definition withdrawal_fields :: "withdrawal \<Rightarrow> u64 \<times> u64 \<times> h160 \<times> u64" where
  "withdrawal_fields w = (w_index w, w_validator_index w, w_address w, w_amount w)"

definition withdrawal_of :: "u64 \<times> u64 \<times> h160 \<times> u64 \<Rightarrow> withdrawal" where
  "withdrawal_of f =
     (case f of (i, v, a, n) \<Rightarrow>
        \<lparr>w_index = i, w_validator_index = v, w_address = a, w_amount = n\<rparr>)"

definition withdrawal_length :: "withdrawal \<Rightarrow> nat" where
  "withdrawal_length w =
     derive_length (seq_length uint_length (seq_length uint_length (seq_length slice_length uint_length)))
       (withdrawal_fields w)"

definition withdrawal_encode :: "withdrawal \<Rightarrow> bytes" where
  "withdrawal_encode w =
     derive_encode (seq_length uint_length (seq_length uint_length (seq_length slice_length uint_length)))
       (seq_encode encode_uint (seq_encode encode_uint (seq_encode encode_slice encode_uint)))
       (withdrawal_fields w)"

definition withdrawal_decode :: "bytes \<Rightarrow> decode_error + withdrawal \<times> bytes" where
  "withdrawal_decode buf =
     and_then
       (derive_decode
          (seq_decode decode_uint (seq_decode decode_uint (seq_decode (decode_array 20) decode_uint))) buf)
       (\<lambda>(f, buf). Inr (withdrawal_of f, buf))"

section \<open>Blocks\<close>

record block =
  bl_header :: header
  bl_body :: "transaction_signed list"
  bl_ommers :: "header list"
  bl_withdrawals :: "withdrawal list option"

record sealed_block =
  sb_header :: sealed_header
  sb_body :: "transaction_signed list"
  sb_ommers :: "sealed_header list"
  sb_withdrawals :: "withdrawal list option"

record sealed_block_with_senders =
  ss_block :: sealed_block
  ss_senders :: "h160 list"

definition block_seal_slow :: "(bytes \<Rightarrow> h256) \<Rightarrow> block \<Rightarrow> sealed_block" where
  "block_seal_slow keccak256 b =
     \<lparr>sb_header = seal_slow keccak256 (bl_header b), sb_body = bl_body b,
      sb_ommers = map (seal_slow keccak256) (bl_ommers b), sb_withdrawals = bl_withdrawals b\<rparr>"

definition block_hash :: "sealed_block \<Rightarrow> h256" where
  "block_hash b = sh_hash (sb_header b)"

definition block_split ::
    "sealed_block \<Rightarrow> sealed_header \<times> transaction_signed list \<times> sealed_header list" where
  "block_split b = (sb_header b, sb_body b, sb_ommers b)"

fun collect_option :: "'a option list \<Rightarrow> 'a list option" where
  "collect_option [] = Some []"
| "collect_option (None # xs) = None"
| "collect_option (Some x # xs) = map_option ((#) x) (collect_option xs)"

definition block_senders ::
    "(bytes \<Rightarrow> h256) \<Rightarrow> (bytes \<Rightarrow> u8 \<Rightarrow> h256 \<Rightarrow> bytes option) \<Rightarrow> sealed_block \<Rightarrow> h160 list option" where
  "block_senders keccak256 recover_ecdsa b =
     collect_option (map (recover_signer keccak256 recover_ecdsa) (sb_body b))"

definition seal_with_senders ::
    "(bytes \<Rightarrow> h256) \<Rightarrow> (bytes \<Rightarrow> u8 \<Rightarrow> h256 \<Rightarrow> bytes option) \<Rightarrow> sealed_block \<Rightarrow>
     sealed_block_with_senders option" where
  "seal_with_senders keccak256 recover_ecdsa b =
     map_option (\<lambda>senders. \<lparr>ss_block = b, ss_senders = senders\<rparr>)
       (block_senders keccak256 recover_ecdsa b)"

definition block_unseal :: "sealed_block \<Rightarrow> block" where
  "block_unseal b =
     \<lparr>bl_header = unseal (sb_header b), bl_body = sb_body b, bl_ommers = map unseal (sb_ommers b),
      bl_withdrawals = sb_withdrawals b\<rparr>"

definition with_senders_new :: "sealed_block \<Rightarrow> h160 list \<Rightarrow> sealed_block_with_senders option" where
  "with_senders_new b senders =
     (if length (sb_body b) \<noteq> length senders then None
      else Some \<lparr>ss_block = b, ss_senders = senders\<rparr>)"

section \<open>Root hashes\<close>

text \<open>\<open>ordered_trie_root\<close> is the third-party root hash of a list of byte strings.\<close>

definition calculate_transaction_root :: "(bytes list \<Rightarrow> h256) \<Rightarrow> transaction_signed list \<Rightarrow> h256" where
  "calculate_transaction_root ordered_trie_root transactions =
     ordered_trie_root (map (\<lambda>tx. encode_inner tx False) transactions)"

definition calculate_withdrawals_root :: "(bytes list \<Rightarrow> h256) \<Rightarrow> withdrawal list \<Rightarrow> h256" where
  "calculate_withdrawals_root ordered_trie_root withdrawals =
     ordered_trie_root (map withdrawal_encode withdrawals)"

definition calculate_ommers_root :: "(bytes \<Rightarrow> h256) \<Rightarrow> header list \<Rightarrow> h256" where
  "calculate_ommers_root keccak256 ommers =
     keccak256 (encode_iter encoded_header_length encode_header ommers)"

section \<open>Accounts\<close>

record account =
  a_nonce :: u64
  a_balance :: u256
  a_bytecode_hash :: "h256 option"

definition default_account :: account where
  "default_account = \<lparr>a_nonce = 0, a_balance = 0, a_bytecode_hash = None\<rparr>"

definition KECCAK_EMPTY :: h256 where
  "KECCAK_EMPTY = nat_to_be 32 0xc5d2460186f7233c927e7db2dcc703c0e500b653ca82273b7bfad8045d85a470"

definition has_bytecode :: "account \<Rightarrow> bool" where
  "has_bytecode a \<longleftrightarrow> a_bytecode_hash a \<noteq> None"

definition account_is_empty :: "account \<Rightarrow> bool" where
  "account_is_empty a \<longleftrightarrow>
     (let is_bytecode_empty =
            (case a_bytecode_hash a of None \<Rightarrow> True | Some hash \<Rightarrow> hash = KECCAK_EMPTY)
      in a_nonce a = 0 \<and> a_balance a = 0 \<and> is_bytecode_empty)"

definition get_bytecode_hash :: "account \<Rightarrow> h256" where
  "get_bytecode_hash a = (case a_bytecode_hash a of Some hash \<Rightarrow> hash | None \<Rightarrow> KECCAK_EMPTY)"

section \<open>Lemmas\<close>

interpretation rlp_withdrawal_fields: rlp_fields
    "seq_encode encode_uint (seq_encode encode_uint (seq_encode encode_slice encode_uint)) ::
       u64 \<times> u64 \<times> h160 \<times> u64 \<Rightarrow> bytes"
    "seq_length uint_length (seq_length uint_length (seq_length slice_length uint_length))"
    "seq_decode decode_uint (seq_decode decode_uint (seq_decode (decode_array 20) decode_uint))"
    "\<lambda>f. True \<and> True \<and> length (fst (snd (snd f))) = 20 \<and> True"
  by (intro rlp_u64.seq_fields rlp_h160.seq_fields rlp_u64.fields)

definition withdrawal_wf :: "withdrawal \<Rightarrow> bool" where
  "withdrawal_wf w \<longleftrightarrow> length (w_address w) = 20"

lemma withdrawal_fields_length:
  "seq_length uint_length (seq_length uint_length (seq_length slice_length uint_length))
     (withdrawal_fields w) < 2 ^ 64" if "withdrawal_wf w"
proof -
  have "slice_length (w_address w) \<le> 21"
    using that slice_length_le [of "w_address w"]
    by (simp add: withdrawal_wf_def max_encoded_len_array_def length_of_length_def)
  then show ?thesis
    using uint_length_le [of "w_index w"] uint_length_le [of "w_validator_index w"] uint_length_le [of "w_amount w"]
    by (simp add: seq_length_def withdrawal_fields_def del: rlp_u64.len_enc)
qed

interpretation rlp_withdrawal: rlp_item withdrawal_encode withdrawal_length withdrawal_decode withdrawal_wf
proof -
  note iso = rlp_item.iso_item [OF rlp_withdrawal_fields.derive_item, of withdrawal_of withdrawal_fields]
  have "withdrawal_wf = (\<lambda>w. (True \<and> True \<and> length (fst (snd (snd (withdrawal_fields w)))) = 20 \<and> True) \<and>
      seq_length uint_length (seq_length uint_length (seq_length slice_length uint_length)) (withdrawal_fields w) < 2 ^ 64)"
    using withdrawal_fields_length by (auto simp: fun_eq_iff withdrawal_wf_def withdrawal_fields_def)
  then show "rlp_item withdrawal_encode withdrawal_length withdrawal_decode withdrawal_wf"
    unfolding withdrawal_encode_def [abs_def] withdrawal_length_def [abs_def] withdrawal_decode_def [abs_def]
    using iso by (simp add: withdrawal_fields_def withdrawal_of_def split_beta)
qed

lemma collect_option_Some: "collect_option xs = Some ys \<longleftrightarrow> xs = map Some ys"
  by (induction xs arbitrary: ys rule: collect_option.induct) auto

lemma length_block_senders:
  "block_senders keccak256 recover_ecdsa b = Some senders \<Longrightarrow> length senders = length (sb_body b)"
  by (auto simp: block_senders_def collect_option_Some dest: arg_cong [where f = length])

lemma unseal_seal_slow: "block_unseal (block_seal_slow keccak256 b) = b"
  by (simp add: block_unseal_def block_seal_slow_def unseal_def seal_slow_def seal_def comp_def)

end
