(* ===== verification/Consensus.thy ===== *)
theory Consensus
  imports Blocks
begin

text \<open>
  The rules that blocks, headers and transactions are validated by, \<^verbatim>\<open>crates/consensus/src\<close>, over the
  chain specification, the transactions and the blocks of the other theories. The current time, the
  database of headers, accounts and withdrawals, \<^verbatim>\<open>keccak256\<close>, the trie root and the signer recovery are
  parameters. The lemmas characterise what each function accepts.
\<close>

section \<open>Errors\<close>

datatype invalid_transaction_error =
    PriorityFeeMoreThenMaxFee
  | InsufficientFunds u128 u256
  | NonceNotConsistent
  | OldLegacyChainId
  | ChainIdMismatch
  | MaxFeeLessThenBaseFee
  | Eip2930Disabled
  | Eip1559Disabled
  | GasUintOverflow
  | GasTooLow
  | GasTooHigh
  | TxTypeNotSupported
  | TipAboveFeeCap
  | FeeCapTooLow
  | SignerAccountHasBytecode

datatype consensus_error =
    HeaderGasUsedExceedsGasLimit u64 u64
  | BodyOmmersHashDiff h256 h256
  | BodyStateRootDiff h256 h256
  | BodyTransactionRootDiff h256 h256
  | BodyReceiptsRootDiff h256 h256
  | BodyWithdrawalsRootDiff h256 h256
  | BlockKnown h256 u64
  | ParentUnknown h256
  | ParentBlockNumberMismatch u64 u64
  | TimestampIsInPast u64 u64
  | TimestampIsInFuture u64 u64
  | GasLimitInvalidIncrease u64 u64
  | GasLimitInvalidDecrease u64 u64
  | BaseFeeMissing
  | BaseFeeDiff u64 u64
  | TransactionSignerRecoveryError
  | TransactionReceiptCountDiff nat nat
  | TransactionTypeReceiptTypeDiff
  | ExtraDataExceedsMax nat
  | TheMergeDifficultyIsNotZero
  | TheMergeNonceIsNotZero
  | TheMergeOmmerRootIsNotEmpty
  | TheMergeMixHashIsNotZero
  | WithdrawalsRootMissing
  | WithdrawalsRootUnexpected
  | WithdrawalIndexInvalid u64 u64
  | BodyWithdrawalsMissing
  | InvalidTransaction invalid_transaction_error

text \<open>
  The error type of the crate: a consensus error, or one of the variants that the database behind
  the providers returns, whose type is a parameter.
\<close>

datatype 'p reth_error = Consensus_Error consensus_error | Provider_Error 'p

definition from_consensus :: "consensus_error + 'a \<Rightarrow> 'p reth_error + 'a" where
  "from_consensus r = (case r of Inl e \<Rightarrow> Inl (Consensus_Error e) | Inr x \<Rightarrow> Inr x)"

definition from_provider :: "'p + 'a \<Rightarrow> 'p reth_error + 'a" where
  "from_provider r = (case r of Inl e \<Rightarrow> Inl (Provider_Error e) | Inr x \<Rightarrow> Inr x)"

section \<open>Headers\<close>

definition validate_header_standalone ::
    "u64 \<Rightarrow> sealed_header \<Rightarrow> chain_spec \<Rightarrow> consensus_error + unit" where
  "validate_header_standalone present_timestamp sealed spec =
     (let header = sh_header sealed in
      if h_gas_used header > h_gas_limit header
      then Inl (HeaderGasUsedExceedsGasLimit (h_gas_used header) (h_gas_limit header))
      else if h_timestamp header > present_timestamp
      then Inl (TimestampIsInFuture (h_timestamp header) present_timestamp)
      else if length (h_extra_data header) > 32
      then Inl (ExtraDataExceedsMax (length (h_extra_data header)))
      else if active_at_block (spec_fork spec London) (h_number header) \<and>
              h_base_fee_per_gas header = None
      then Inl BaseFeeMissing
      else if active_at_timestamp (spec_fork spec Shanghai) (h_timestamp header) \<and>
              h_withdrawals_root header = None
      then Inl WithdrawalsRootMissing
      else if \<not> active_at_timestamp (spec_fork spec Shanghai) (h_timestamp header) \<and>
              h_withdrawals_root header \<noteq> None
      then Inl WithdrawalsRootUnexpected
      else Inr ())"

definition EIP1559_BASE_FEE_MAX_CHANGE_DENOMINATOR :: u64 where
  "EIP1559_BASE_FEE_MAX_CHANGE_DENOMINATOR = 8"

definition EIP1559_ELASTICITY_MULTIPLIER :: u64 where
  "EIP1559_ELASTICITY_MULTIPLIER = 2"

text \<open>The division panics for a gas target of zero; sums and casts wrap around.\<close>

definition div_u128 :: "u128 \<Rightarrow> u128 \<Rightarrow> 'e fault + u128" where
  "div_u128 a b = (if b = 0 then Inl Panic else Inr (a div b))"

definition calculate_next_block_base_fee :: "u64 \<Rightarrow> u64 \<Rightarrow> u64 \<Rightarrow> 'e fault + u64" where
  "calculate_next_block_base_fee gas_used gas_limit base_fee =
     (let gas_target = gas_limit div EIP1559_ELASTICITY_MULTIPLIER in
      if gas_used = gas_target then Inr base_fee
      else if gas_used > gas_target then
        (let gas_used_delta = gas_used - gas_target in
         and_then (div_u128 (ucast base_fee * ucast gas_used_delta) (ucast gas_target)) (\<lambda>q.
         (let base_fee_delta = max 1 (q div ucast EIP1559_BASE_FEE_MAX_CHANGE_DENOMINATOR)
          in Inr (base_fee + ucast base_fee_delta))))
      else
        (let gas_used_delta = gas_target - gas_used in
         and_then (div_u128 (ucast base_fee * ucast gas_used_delta) (ucast gas_target)) (\<lambda>q.
         (let base_fee_per_gas_delta = q div ucast EIP1559_BASE_FEE_MAX_CHANGE_DENOMINATOR
          in Inr (saturating_sub base_fee (ucast base_fee_per_gas_delta))))))"

definition check_gas_limit :: "u64 \<Rightarrow> u64 \<Rightarrow> consensus_error + unit" where
  "check_gas_limit parent_gas_limit child_gas_limit =
     (if child_gas_limit > parent_gas_limit then
        (if child_gas_limit - parent_gas_limit \<ge> parent_gas_limit div 1024
         then Inl (GasLimitInvalidIncrease parent_gas_limit child_gas_limit)
         else Inr ())
      else if parent_gas_limit - child_gas_limit \<ge> parent_gas_limit div 1024
      then Inl (GasLimitInvalidDecrease parent_gas_limit child_gas_limit)
      else Inr ())"

definition check_base_fee :: "header \<Rightarrow> header \<Rightarrow> chain_spec \<Rightarrow> consensus_error fault + unit" where
  "check_base_fee parent child spec =
     (if active_at_block (spec_fork spec London) (h_number child) then
        and_then (ok_or (h_base_fee_per_gas child) (Err BaseFeeMissing)) (\<lambda>base_fee.
        and_then
          (if transitions_at_block (spec_fork spec London) (h_number child)
           then Inr EIP1559_INITIAL_BASE_FEE
           else
             and_then (ok_or (h_base_fee_per_gas parent) (Err BaseFeeMissing)) (\<lambda>parent_base_fee.
               calculate_next_block_base_fee (h_gas_used parent) (h_gas_limit parent) parent_base_fee))
          (\<lambda>expected_base_fee.
             if expected_base_fee \<noteq> base_fee then Inl (Err (BaseFeeDiff expected_base_fee base_fee))
             else Inr ()))
      else Inr ())"

definition validate_header_regarding_parent ::
    "sealed_header \<Rightarrow> sealed_header \<Rightarrow> chain_spec \<Rightarrow> consensus_error fault + unit" where
  "validate_header_regarding_parent sealed_parent sealed_child spec =
     (let parent = sh_header sealed_parent; child = sh_header sealed_child in
      if h_number parent + 1 \<noteq> h_number child
      then Inl (Err (ParentBlockNumberMismatch (h_number parent) (h_number child)))
      else if h_timestamp child < h_timestamp parent
      then Inl (Err (TimestampIsInPast (h_timestamp parent) (h_timestamp child)))
      else
        (let parent_gas_limit =
               (if transitions_at_block (spec_fork spec London) (h_number child)
                then h_gas_limit parent * EIP1559_ELASTICITY_MULTIPLIER
                else h_gas_limit parent) in
         and_then (try_res (check_gas_limit parent_gas_limit (h_gas_limit child))) (\<lambda>_.
           check_base_fee parent child spec)))"

section \<open>Transactions\<close>

definition validate_transaction_regarding_header ::
    "transaction \<Rightarrow> chain_spec \<Rightarrow> u64 \<Rightarrow> u64 option \<Rightarrow> consensus_error + unit" where
  "validate_transaction_regarding_header tx spec at_block_number base_fee =
     and_then
       (case tx of
          Legacy t \<Rightarrow>
            if active_at_block (spec_fork spec SpuriousDragon) at_block_number \<and> lg_chain_id t \<noteq> None
            then Inl (InvalidTransaction OldLegacyChainId)
            else Inr (lg_chain_id t)
        | Eip2930 t \<Rightarrow>
            if \<not> active_at_block (spec_fork spec Berlin) at_block_number
            then Inl (InvalidTransaction Eip2930Disabled)
            else Inr (Some (al_chain_id t))
        | Eip1559 t \<Rightarrow>
            if \<not> active_at_block (spec_fork spec Berlin) at_block_number
            then Inl (InvalidTransaction Eip1559Disabled)
            else if df_max_priority_fee_per_gas t > df_max_fee_per_gas t
            then Inl (InvalidTransaction PriorityFeeMoreThenMaxFee)
            else Inr (Some (df_chain_id t)))
       (\<lambda>chain_id.
     and_then
       (case chain_id of
          Some chain_id \<Rightarrow>
            if chain_id \<noteq> cs_chain spec then Inl (InvalidTransaction ChainIdMismatch) else Inr ()
        | None \<Rightarrow> Inr ())
       (\<lambda>_.
     (case base_fee of
        Some base_fee_per_gas \<Rightarrow>
          if tx_max_fee_per_gas tx < ucast base_fee_per_gas
          then Inl (InvalidTransaction MaxFeeLessThenBaseFee)
          else Inr ()
      | None \<Rightarrow> Inr ())))"

text \<open>\<open>basic_account\<close> is the account database. The map holds the next nonce of a sender.\<close>

fun validate_nonces ::
    "header \<Rightarrow> (h160 \<Rightarrow> 'p + account option) \<Rightarrow> chain_spec \<Rightarrow> (h160 \<rightharpoonup> u64) \<Rightarrow>
     transaction_signed_ec_recovered list \<Rightarrow> 'p reth_error + unit" where
  "validate_nonces header basic_account spec account_nonces [] = Inr ()"
| "validate_nonces header basic_account spec account_nonces (tx # txs) =
     and_then (from_consensus (validate_transaction_regarding_header
         (ts_transaction (er_signed_transaction tx)) spec (h_number header)
         (h_base_fee_per_gas header))) (\<lambda>_.
     and_then
       (case account_nonces (er_signer tx) of
          Some nonce \<Rightarrow> Inr (nonce, account_nonces(er_signer tx \<mapsto> nonce + 1))
        | None \<Rightarrow>
            and_then (from_provider (basic_account (er_signer tx))) (\<lambda>found.
            (let account = (case found of Some a \<Rightarrow> a | None \<Rightarrow> default_account) in
             if has_bytecode account
             then Inl (Consensus_Error (InvalidTransaction SignerAccountHasBytecode))
             else Inr (a_nonce account, account_nonces(er_signer tx \<mapsto> a_nonce account + 1)))))
       (\<lambda>(nonce, account_nonces).
     if tx_nonce (ts_transaction (er_signed_transaction tx)) \<noteq> nonce
     then Inl (Consensus_Error (InvalidTransaction NonceNotConsistent))
     else validate_nonces header basic_account spec account_nonces txs))"

definition validate_all_transaction_regarding_block_and_nonces ::
    "transaction_signed_ec_recovered list \<Rightarrow> header \<Rightarrow> (h160 \<Rightarrow> 'p + account option) \<Rightarrow> chain_spec \<Rightarrow>
     'p reth_error + unit" where
  "validate_all_transaction_regarding_block_and_nonces txs header basic_account spec =
     validate_nonces header basic_account spec Map.empty txs"

section \<open>Blocks\<close>

fun check_withdrawal_indices :: "u64 \<Rightarrow> withdrawal list \<Rightarrow> consensus_error + unit" where
  "check_withdrawal_indices prev_index [] = Inr ()"
| "check_withdrawal_indices prev_index (w # ws) =
     (let expected = prev_index + 1 in
      if expected \<noteq> w_index w then Inl (WithdrawalIndexInvalid (w_index w) expected)
      else check_withdrawal_indices (w_index w) ws)"

definition validate_block_standalone ::
    "(bytes \<Rightarrow> h256) \<Rightarrow> (bytes list \<Rightarrow> h256) \<Rightarrow> sealed_block \<Rightarrow> chain_spec \<Rightarrow> consensus_error + unit" where
  "validate_block_standalone keccak256 ordered_trie_root b spec =
     (let header = sh_header (sb_header b);
          ommers_hash = calculate_ommers_root keccak256 (map sh_header (sb_ommers b)) in
      if h_ommers_hash header \<noteq> ommers_hash
      then Inl (BodyOmmersHashDiff ommers_hash (h_ommers_hash header))
      else (let transaction_root = calculate_transaction_root ordered_trie_root (sb_body b) in
      if h_transactions_root header \<noteq> transaction_root
      then Inl (BodyTransactionRootDiff transaction_root (h_transactions_root header))
      else if active_at_timestamp (spec_fork spec Shanghai) (h_timestamp header) then
        and_then (ok_or (sb_withdrawals b) BodyWithdrawalsMissing) (\<lambda>withdrawals.
        (let withdrawals_root = calculate_withdrawals_root ordered_trie_root withdrawals in
        and_then (ok_or (h_withdrawals_root header) WithdrawalsRootMissing) (\<lambda>header_withdrawals_root.
        if withdrawals_root \<noteq> header_withdrawals_root
        then Inl (BodyWithdrawalsRootDiff withdrawals_root header_withdrawals_root)
        else (case withdrawals of
                [] \<Rightarrow> Inr ()
              | first # rest \<Rightarrow> check_withdrawal_indices (w_index first) rest))))
      else Inr ()))"

text \<open>\<open>find_header\<close> and \<open>latest_withdrawal\<close> are the header and the withdrawal database.\<close>

definition is_known :: "(h256 \<Rightarrow> 'p + header option) \<Rightarrow> h256 \<Rightarrow> 'p + bool" where
  "is_known find_header hash =
     (case find_header hash of Inl e \<Rightarrow> Inl e | Inr found \<Rightarrow> Inr (found \<noteq> None))"

definition check_first_withdrawal ::
    "('p + withdrawal option) \<Rightarrow> withdrawal list option \<Rightarrow> 'p reth_error + unit" where
  "check_first_withdrawal latest_withdrawal withdrawals =
     (case withdrawals of
        Some (first # _) \<Rightarrow>
          and_then (from_provider latest_withdrawal) (\<lambda>latest.
            case latest of
              Some w \<Rightarrow>
                if w_index w + 1 \<noteq> w_index first
                then Inl (Consensus_Error (WithdrawalIndexInvalid (w_index first) (w_index w + 1)))
                else Inr ()
            | None \<Rightarrow>
                if w_index first \<noteq> 0
                then Inl (Consensus_Error (WithdrawalIndexInvalid (w_index first) 0))
                else Inr ())
      | _ \<Rightarrow> Inr ())"

definition validate_block_regarding_chain ::
    "sealed_block \<Rightarrow> (h256 \<Rightarrow> 'p + header option) \<Rightarrow> 'p + withdrawal option \<Rightarrow>
     'p reth_error + sealed_header" where
  "validate_block_regarding_chain b find_header latest_withdrawal =
     (let hash = sh_hash (sb_header b); header = sh_header (sb_header b) in
      and_then (from_provider (is_known find_header hash)) (\<lambda>known.
      if known then Inl (Consensus_Error (BlockKnown hash (h_number header)))
      else
        and_then (from_provider (find_header (h_parent_hash header))) (\<lambda>found.
        and_then (ok_or found (Consensus_Error (ParentUnknown (h_parent_hash header)))) (\<lambda>parent.
        and_then (check_first_withdrawal latest_withdrawal (sb_withdrawals b)) (\<lambda>_.
          Inr (seal parent (h_parent_hash header)))))))"

definition from_consensus_fault :: "consensus_error fault + 'a \<Rightarrow> 'p reth_error fault + 'a" where
  "from_consensus_fault r =
     (case r of Inl (Err e) \<Rightarrow> Inl (Err (Consensus_Error e)) | Inl Panic \<Rightarrow> Inl Panic | Inr x \<Rightarrow> Inr x)"

definition full_validation ::
    "(bytes \<Rightarrow> h256) \<Rightarrow> (bytes list \<Rightarrow> h256) \<Rightarrow> (bytes \<Rightarrow> u8 \<Rightarrow> h256 \<Rightarrow> bytes option) \<Rightarrow> u64 \<Rightarrow>
     sealed_block \<Rightarrow> (h256 \<Rightarrow> 'p + header option) \<Rightarrow> (h160 \<Rightarrow> 'p + account option) \<Rightarrow>
     'p + withdrawal option \<Rightarrow> chain_spec \<Rightarrow> 'p reth_error fault + unit" where
  "full_validation keccak256 ordered_trie_root recover_ecdsa present_timestamp b find_header
       basic_account latest_withdrawal spec =
     and_then (try_res (from_consensus (validate_header_standalone present_timestamp (sb_header b) spec))) (\<lambda>_.
     and_then (try_res (from_consensus
       (validate_block_standalone keccak256 ordered_trie_root b spec))) (\<lambda>_.
     and_then (try_res (validate_block_regarding_chain b find_header latest_withdrawal)) (\<lambda>parent.
     and_then (from_consensus_fault (validate_header_regarding_parent parent (sb_header b) spec)) (\<lambda>_.
     and_then (ok_or (collect_option (map (try_ecrecovered keccak256 recover_ecdsa) (sb_body b)))
       (Err (Consensus_Error TransactionSignerRecoveryError))) (\<lambda>transactions.
     try_res (validate_all_transaction_regarding_block_and_nonces transactions
       (sh_header (sb_header b)) basic_account spec))))))"

section \<open>The beacon consensus engine\<close>

definition EMPTY_OMMER_ROOT :: h256 where
  "EMPTY_OMMER_ROOT = nat_to_be 32 0x1dcc4de8dec75d7aab85b567b6ccd41ad312451b948a7413f0a142fd40d49347"

definition pre_validate_header ::
    "u64 \<Rightarrow> chain_spec \<Rightarrow> sealed_header \<Rightarrow> sealed_header \<Rightarrow> consensus_error fault + unit" where
  "pre_validate_header present_timestamp spec header parent =
     and_then (try_res (validate_header_standalone present_timestamp header spec)) (\<lambda>_.
       validate_header_regarding_parent parent header spec)"

definition validate_header :: "chain_spec \<Rightarrow> sealed_header \<Rightarrow> u256 \<Rightarrow> consensus_error + unit" where
  "validate_header spec sealed total_difficulty =
     (let header = sh_header sealed in
      if active_at_ttd (spec_fork spec Paris) total_difficulty (h_difficulty header) then
        (if h_difficulty header \<noteq> 0 then Inl TheMergeDifficultyIsNotZero
         else if h_nonce header \<noteq> 0 then Inl TheMergeNonceIsNotZero
         else if h_ommers_hash header \<noteq> EMPTY_OMMER_ROOT then Inl TheMergeOmmerRootIsNotEmpty
         else Inr ())
      else Inr ())"

definition pre_validate_block ::
    "(bytes \<Rightarrow> h256) \<Rightarrow> (bytes list \<Rightarrow> h256) \<Rightarrow> chain_spec \<Rightarrow> sealed_block \<Rightarrow> consensus_error + unit" where
  "pre_validate_block keccak256 ordered_trie_root spec b =
     validate_block_standalone keccak256 ordered_trie_root b spec"

definition has_block_reward :: "chain_spec \<Rightarrow> u256 \<Rightarrow> u256 \<Rightarrow> bool" where
  "has_block_reward spec total_difficulty difficulty \<longleftrightarrow>
     \<not> active_at_ttd (spec_fork spec Paris) total_difficulty difficulty"

section \<open>Lemmas\<close>

lemma unat_ucast_u128 [simp]: "unat (ucast (x :: u64) :: u128) = unat x"
  using unat_less_pow [of x] by (simp add: unat_ucast_take take_bit_nat_eq_self)

lemma unat_fee_delta:
  "unat (q div ucast EIP1559_BASE_FEE_MAX_CHANGE_DENOMINATOR :: u128) = unat q div 8"
  by (simp add: EIP1559_BASE_FEE_MAX_CHANGE_DENOMINATOR_def unat_div)

lemma unat_fee_quotient:
  "unat (ucast (b :: u64) * ucast (d :: u64) div ucast (t :: u64) :: u128) = unat b * unat d div unat t"
proof -
  have "unat b * unat d < 2 ^ 64 * 2 ^ 64"
    using unsigned_less [of b] unsigned_less [of d] by (intro mult_strict_mono) auto
  then show ?thesis
    by (simp add: unat_div unat_word_ariths)
qed

lemma unat_ucast_u64: "unat (q :: u128) < 2 ^ 64 \<Longrightarrow> unat (ucast q :: u64) = unat q"
  by (simp add: unat_ucast_take take_bit_nat_eq_self)

lemma fee_quotient_le:
  fixes b d t k :: nat
  assumes "d \<le> k * t" and "0 < t"
  shows "b * d div t div 8 \<le> b * k div 8"
proof -
  have "b * d \<le> b * k * t"
    using mult_le_mono2 [OF assms(1), of b] by (simp add: mult.assoc)
  then have "b * d div t \<le> b * k"
    using assms(2) by (metis div_le_mono nonzero_mult_div_cancel_right less_numeral_extra(3))
  then show ?thesis
    by (rule div_le_mono)
qed

section \<open>The base fee\<close>

text \<open>The base fee of EIP-1559 over the natural numbers.\<close>

definition next_base_fee :: "nat \<Rightarrow> nat \<Rightarrow> nat \<Rightarrow> nat" where
  "next_base_fee gas_used gas_target base_fee =
     (if gas_used = gas_target then base_fee
      else if gas_used > gas_target
      then base_fee + max 1 (base_fee * (gas_used - gas_target) div gas_target div 8)
      else base_fee - base_fee * (gas_target - gas_used) div gas_target div 8)"

lemma calculate_next_block_base_fee_nat:
  assumes lim: "gas_used \<le> gas_limit" "2 \<le> gas_limit" and fee: "unat base_fee + unat base_fee div 4 + 1 < 2 ^ 64"
  shows "\<exists>fee. (calculate_next_block_base_fee gas_used gas_limit base_fee :: 'e fault + u64) = Inr fee \<and>
    unat fee = next_base_fee (unat gas_used) (unat gas_limit div 2) (unat base_fee)"
proof -
  let ?t = "gas_limit div EIP1559_ELASTICITY_MULTIPLIER"
  have t: "unat ?t = unat gas_limit div 2"
    by (simp add: EIP1559_ELASTICITY_MULTIPLIER_def unat_div)
  have pos: "0 < unat ?t"
    using lim(2) unfolding t by (simp add: word_le_nat_alt)
  then have nz: "(ucast ?t :: u128) \<noteq> 0"
    by (metis unat_ucast_u128 unat_0 less_irrefl)
  consider (eq) "gas_used = ?t" | (above) "gas_used > ?t" | (below) "gas_used < ?t"
    by (meson linorder_less_linear)
  then show ?thesis
  proof cases
    case eq
    then show ?thesis
      using t by (auto simp: calculate_next_block_base_fee_def next_base_fee_def)
  next
    case above
    let ?q = "ucast base_fee * ucast (gas_used - ?t) div ucast ?t :: u128"
    let ?d = "max 1 (?q div ucast EIP1559_BASE_FEE_MAX_CHANGE_DENOMINATOR)"
    have d: "unat (gas_used - ?t) = unat gas_used - unat ?t"
      using above by (simp add: unat_sub)
    have q: "unat ?d = max 1 (unat base_fee * (unat gas_used - unat ?t) div unat ?t div 8)"
      unfolding unat_max unat_fee_delta unat_fee_quotient d by simp
    have "unat gas_used - unat ?t \<le> 2 * unat ?t"
      using lim(1) pos unfolding t by (simp add: word_le_nat_alt)
    from fee_quotient_le [OF this pos, of "unat base_fee"] have le: "unat ?d \<le> max 1 (unat base_fee div 4)"
      unfolding q by simp
    then have "unat (base_fee + ucast ?d) = unat base_fee + unat ?d"
      using fee by (simp add: unat_word_ariths unat_ucast_u64)
    with above show ?thesis
      using nz q t by (auto simp: calculate_next_block_base_fee_def next_base_fee_def Let_def div_u128_def word_less_nat_alt)
  next
    case below
    let ?q = "ucast base_fee * ucast (?t - gas_used) div ucast ?t :: u128"
    let ?d = "?q div ucast EIP1559_BASE_FEE_MAX_CHANGE_DENOMINATOR"
    have d: "unat (?t - gas_used) = unat ?t - unat gas_used"
      using below by (simp add: unat_sub)
    have q: "unat ?d = unat base_fee * (unat ?t - unat gas_used) div unat ?t div 8"
      unfolding unat_fee_delta unat_fee_quotient d by simp
    have "unat ?d \<le> unat base_fee"
      using fee_quotient_le [of "unat ?t - unat gas_used" 1 "unat ?t" "unat base_fee"] pos unfolding q by simp
    then have "unat (ucast ?d :: u64) = unat ?d"
      using unat_less_pow [of base_fee] by (intro unat_ucast_u64) simp
    with below show ?thesis
      using nz q t by (auto simp: calculate_next_block_base_fee_def next_base_fee_def Let_def div_u128_def
          word_less_nat_alt unat_saturating_sub)
  qed
qed

lemma next_base_fee_ge: "0 < t \<Longrightarrow> b - b div 8 \<le> next_base_fee u t b"
  using fee_quotient_le [of "t - u" 1 t b] by (auto simp: next_base_fee_def)

lemma next_base_fee_le:
  assumes "0 < t" and "u - t \<le> k * t"
  shows "next_base_fee u t b \<le> b + max 1 (b * k div 8)"
  using fee_quotient_le [OF assms(2,1), of b] by (auto simp: next_base_fee_def)

lemma next_base_fee_above: "t < u \<Longrightarrow> b < next_base_fee u t b"
  by (simp add: next_base_fee_def)

lemma next_base_fee_below: "u \<le> t \<Longrightarrow> next_base_fee u t b \<le> b"
  by (simp add: next_base_fee_def)

lemma next_base_fee_pos: "0 < t \<Longrightarrow> 0 < b \<Longrightarrow> 0 < next_base_fee u t b"
  using next_base_fee_ge [of t b u] by (auto intro: less_le_trans)


section \<open>Transactions in order\<close>

lemma from_consensus_Inr [simp]: "from_consensus r = Inr x \<longleftrightarrow> r = Inr x"
  by (cases r) (simp_all add: from_consensus_def)

lemma from_provider_Inr [simp]: "from_provider r = Inr x \<longleftrightarrow> r = Inr x"
  by (cases r) (simp_all add: from_provider_def)

lemma from_consensus_fault_Inr [simp]: "from_consensus_fault r = Inr x \<longleftrightarrow> r = Inr x"
  by (auto simp: from_consensus_fault_def split: sum.splits fault.splits)

lemma from_consensus_fault_Panic [simp]: "from_consensus_fault r = Inl Panic \<longleftrightarrow> r = Inl Panic"
  by (auto simp: from_consensus_fault_def split: sum.splits fault.splits)

lemma calculate_panics:
  assumes "calculate_next_block_base_fee gas_used gas_limit base_fee = (Inl Panic :: 'e fault + u64)"
  shows "unat gas_limit < 2"
proof -
  have "(ucast (gas_limit div EIP1559_ELASTICITY_MULTIPLIER) :: u128) = 0"
    using assms by (auto simp: calculate_next_block_base_fee_def div_u128_def Let_def and_then_eq_Inl split: if_splits)
  then have "unat (gas_limit div EIP1559_ELASTICITY_MULTIPLIER) = 0"
    by (metis unat_ucast_u128 unat_0)
  then show ?thesis
    by (simp add: unat_div EIP1559_ELASTICITY_MULTIPLIER_def)
qed

lemma calculate_no_error: "calculate_next_block_base_fee gas_used gas_limit base_fee \<noteq> Inl (Err e)"
  by (auto simp: calculate_next_block_base_fee_def div_u128_def Let_def and_then_eq_Inl)

lemma check_gas_limit_iff:
  "check_gas_limit p c = Inr () \<longleftrightarrow>
     unat c < unat p + unat p div 1024 \<and> unat p < unat c + unat p div 1024"
proof -
  have "unat (p div 1024) = unat p div 1024"
    by (simp add: unat_div)
  then show ?thesis
    by (auto simp: check_gas_limit_def word_less_nat_alt word_le_nat_alt unat_sub not_le)
qed

text \<open>Nonces: the map holds the nonce that is expected next of every sender seen so far.\<close>

definition sender_account :: "(h160 \<Rightarrow> 'p + account option) \<Rightarrow> h160 \<Rightarrow> account option" where
  "sender_account basic_account a =
     (case basic_account a of
        Inr found \<Rightarrow> (let acc = (case found of Some x \<Rightarrow> x | None \<Rightarrow> default_account)
                      in if has_bytecode acc then None else Some acc)
      | Inl _ \<Rightarrow> None)"

definition prior_txs :: "transaction_signed_ec_recovered list \<Rightarrow> nat \<Rightarrow> nat" where
  "prior_txs txs i = length (filter (\<lambda>t. er_signer t = er_signer (txs ! i)) (take i txs))"

definition tx_in_order ::
    "header \<Rightarrow> (h160 \<Rightarrow> 'p + account option) \<Rightarrow> chain_spec \<Rightarrow> transaction_signed_ec_recovered list \<Rightarrow> nat \<Rightarrow> bool"
where
  "tx_in_order header basic_account spec txs i \<longleftrightarrow>
     validate_transaction_regarding_header (ts_transaction (er_signed_transaction (txs ! i))) spec
       (h_number header) (h_base_fee_per_gas header) = Inr () \<and>
     (\<exists>acc. sender_account basic_account (er_signer (txs ! i)) = Some acc \<and>
        tx_nonce (ts_transaction (er_signed_transaction (txs ! i))) = a_nonce acc + of_nat (prior_txs txs i))"

definition txs_in_order ::
    "header \<Rightarrow> (h160 \<Rightarrow> 'p + account option) \<Rightarrow> chain_spec \<Rightarrow> transaction_signed_ec_recovered list \<Rightarrow> bool"
where
  "txs_in_order header basic_account spec txs \<longleftrightarrow>
     (\<forall>i < length txs. tx_in_order header basic_account spec txs i)"

definition nonces_of ::
    "(h160 \<Rightarrow> 'p + account option) \<Rightarrow> transaction_signed_ec_recovered list \<Rightarrow> h160 \<rightharpoonup> u64" where
  "nonces_of basic_account txs a =
     (let n = length (filter (\<lambda>t. er_signer t = a) txs)
      in if n = 0 then None else map_option (\<lambda>acc. a_nonce acc + of_nat n) (sender_account basic_account a))"

lemma prior_append: "i < length xs \<Longrightarrow> prior_txs (xs @ ys) i = prior_txs xs i"
  by (simp add: prior_txs_def nth_append)

lemma sender_account_bind:
  "and_then (from_provider (basic_account a)) (\<lambda>found.
     (let acc = (case found of Some x \<Rightarrow> x | None \<Rightarrow> default_account)
      in if has_bytecode acc then Inl e else Inr (f acc))) = Inr y \<longleftrightarrow>
   (\<exists>acc. sender_account basic_account a = Some acc \<and> f acc = y)"
  by (auto simp: sender_account_def and_then_eq_Inr Let_def split: sum.splits option.splits if_splits)

lemma nonces_of_snoc:
  assumes "sender_account basic_account (er_signer tx) = Some acc"
    and "n = length (filter (\<lambda>t. er_signer t = er_signer tx) seen)"
  shows "(nonces_of basic_account seen)(er_signer tx \<mapsto> a_nonce acc + of_nat n + 1)
    = nonces_of basic_account (seen @ [tx])"
  using assms by (auto simp: fun_eq_iff nonces_of_def Let_def)

lemma nonces_of_empty: "nonces_of basic_account [] = Map.empty"
  by (simp add: fun_eq_iff nonces_of_def)

lemma validate_nonces_iff:
  "(\<forall>i < length seen. tx_in_order header basic_account spec (seen @ txs) i) \<Longrightarrow>
   validate_nonces header basic_account spec (nonces_of basic_account seen) txs = Inr () \<longleftrightarrow>
    (\<forall>i < length (seen @ txs). tx_in_order header basic_account spec (seen @ txs) i)"
proof (induction txs arbitrary: seen)
  case Nil
  then show ?case by simp
next
  case (Cons tx txs)
  let ?valid = "validate_transaction_regarding_header (ts_transaction (er_signed_transaction tx)) spec
       (h_number header) (h_base_fee_per_gas header) = Inr ()"
  let ?n = "length (filter (\<lambda>t. er_signer t = er_signer tx) seen)"
  have here: "tx_in_order header basic_account spec (seen @ tx # txs) (length seen) \<longleftrightarrow> ?valid \<and>
     (\<exists>acc. sender_account basic_account (er_signer tx) = Some acc \<and>
        tx_nonce (ts_transaction (er_signed_transaction tx)) = a_nonce acc + of_nat ?n)"
    by (simp add: tx_in_order_def prior_txs_def)
  have step: "validate_nonces header basic_account spec (nonces_of basic_account seen) (tx # txs) = Inr () \<longleftrightarrow>
     tx_in_order header basic_account spec (seen @ tx # txs) (length seen) \<and>
     validate_nonces header basic_account spec (nonces_of basic_account (seen @ [tx])) txs = Inr ()"
  proof (cases "?n = 0")
    case True
    then have "nonces_of basic_account seen (er_signer tx) = None"
      by (simp add: nonces_of_def)
    then show ?thesis
      using nonces_of_snoc [of basic_account tx _ 0 seen] True unfolding here
      by (auto simp: and_then_eq_Inr [of "from_consensus _"] and_then_eq_Inr [of "and_then _ _"] sender_account_bind [of basic_account "er_signer tx"])
  next
    case False
    then obtain i where i: "i < length seen" "er_signer (seen ! i) = er_signer tx"
      by (auto simp: filter_empty_conv in_set_conv_nth)
    then obtain acc where acc: "sender_account basic_account (er_signer tx) = Some acc"
      using Cons.prems by (auto simp: tx_in_order_def nth_append)
    then have "nonces_of basic_account seen (er_signer tx) = Some (a_nonce acc + of_nat ?n)"
      using False by (simp add: nonces_of_def Let_def)
    then show ?thesis
      using nonces_of_snoc [OF acc refl, of seen] acc unfolding here
      by (auto simp: and_then_eq_Inr)
  qed
  have "(\<forall>i < length (seen @ [tx]). tx_in_order header basic_account spec ((seen @ [tx]) @ txs) i)"
    if "tx_in_order header basic_account spec (seen @ tx # txs) (length seen)"
    using that Cons.prems by (auto simp: less_Suc_eq)
  with step Cons.IH [of "seen @ [tx]"] show ?case
    by auto
qed

section \<open>What is accepted\<close>

definition header_ok :: "u64 \<Rightarrow> chain_spec \<Rightarrow> header \<Rightarrow> bool" where
  "header_ok present_timestamp spec h \<longleftrightarrow>
     h_gas_used h \<le> h_gas_limit h \<and> h_timestamp h \<le> present_timestamp \<and> length (h_extra_data h) \<le> 32 \<and>
     (active_at_block (spec_fork spec London) (h_number h) \<longrightarrow> h_base_fee_per_gas h \<noteq> None) \<and>
     (active_at_timestamp (spec_fork spec Shanghai) (h_timestamp h) \<longleftrightarrow> h_withdrawals_root h \<noteq> None)"

text \<open>The gas limit that the child is compared with, and the base fee that it must have.\<close>

definition gas_limit_base :: "chain_spec \<Rightarrow> header \<Rightarrow> header \<Rightarrow> u64" where
  "gas_limit_base spec parent child =
     (if transitions_at_block (spec_fork spec London) (h_number child) then h_gas_limit parent * 2
      else h_gas_limit parent)"

definition fee_ok :: "chain_spec \<Rightarrow> header \<Rightarrow> header \<Rightarrow> bool" where
  "fee_ok spec parent child \<longleftrightarrow>
     (active_at_block (spec_fork spec London) (h_number child) \<longrightarrow>
      (if transitions_at_block (spec_fork spec London) (h_number child)
       then h_base_fee_per_gas child = Some EIP1559_INITIAL_BASE_FEE
       else \<exists>fee fee'. h_base_fee_per_gas parent = Some fee \<and> h_base_fee_per_gas child = Some fee' \<and>
              calculate_next_block_base_fee (h_gas_used parent) (h_gas_limit parent) fee =
                (Inr fee' :: consensus_error fault + u64)))"

definition child_ok :: "chain_spec \<Rightarrow> header \<Rightarrow> header \<Rightarrow> bool" where
  "child_ok spec parent child \<longleftrightarrow>
     h_number child = h_number parent + 1 \<and> h_timestamp parent \<le> h_timestamp child \<and>
     (let p = unat (gas_limit_base spec parent child); c = unat (h_gas_limit child)
      in c < p + p div 1024 \<and> p < c + p div 1024) \<and>
     fee_ok spec parent child"

definition consecutive_indices :: "withdrawal list \<Rightarrow> bool" where
  "consecutive_indices ws \<longleftrightarrow> (\<forall>i < length ws. w_index (ws ! i) = w_index (ws ! 0) + of_nat i)"

definition roots_ok :: "(bytes \<Rightarrow> h256) \<Rightarrow> (bytes list \<Rightarrow> h256) \<Rightarrow> chain_spec \<Rightarrow> sealed_block \<Rightarrow> bool" where
  "roots_ok keccak256 ordered_trie_root spec b \<longleftrightarrow>
     (let h = sh_header (sb_header b) in
      h_ommers_hash h = calculate_ommers_root keccak256 (map sh_header (sb_ommers b)) \<and>
      h_transactions_root h = calculate_transaction_root ordered_trie_root (sb_body b) \<and>
      (active_at_timestamp (spec_fork spec Shanghai) (h_timestamp h) \<longrightarrow>
       (\<exists>ws. sb_withdrawals b = Some ws \<and>
          h_withdrawals_root h = Some (calculate_withdrawals_root ordered_trie_root ws) \<and>
          consecutive_indices ws)))"

text \<open>The index of the first withdrawal continues the last one of the chain.\<close>

definition first_withdrawal_ok :: "'p + withdrawal option \<Rightarrow> withdrawal list option \<Rightarrow> bool" where
  "first_withdrawal_ok latest_withdrawal withdrawals \<longleftrightarrow>
     (case withdrawals of
        Some (w # _) \<Rightarrow>
          (\<exists>latest. latest_withdrawal = Inr latest \<and>
             w_index w = (case latest of Some l \<Rightarrow> w_index l + 1 | None \<Rightarrow> 0))
      | _ \<Rightarrow> True)"

lemma validate_header_standalone_iff:
  "validate_header_standalone now sealed spec = Inr () \<longleftrightarrow> header_ok now spec (sh_header sealed)"
  by (auto simp: validate_header_standalone_def header_ok_def Let_def not_less)

lemma check_base_fee_iff: "check_base_fee parent child spec = Inr () \<longleftrightarrow> fee_ok spec parent child"
  by (auto simp: check_base_fee_def fee_ok_def and_then_eq_Inr)

lemma validate_header_regarding_parent_iff:
  "validate_header_regarding_parent parent child spec = Inr () \<longleftrightarrow>
     child_ok spec (sh_header parent) (sh_header child)"
proof -
  have "gas_limit_base spec p c =
      (if transitions_at_block (spec_fork spec London) (h_number c)
       then h_gas_limit p * EIP1559_ELASTICITY_MULTIPLIER else h_gas_limit p)" for p c
    by (simp add: gas_limit_base_def EIP1559_ELASTICITY_MULTIPLIER_def)
  then show ?thesis
    by (auto simp: validate_header_regarding_parent_def child_ok_def Let_def and_then_eq_Inr
        check_gas_limit_iff check_base_fee_iff not_less)
qed

lemma check_withdrawal_indices_iff:
  "check_withdrawal_indices prev ws = Inr () \<longleftrightarrow> (\<forall>i < length ws. w_index (ws ! i) = prev + 1 + of_nat i)"
proof (induction ws arbitrary: prev)
  case (Cons w ws)
  have "(\<forall>i < length (w # ws). w_index ((w # ws) ! i) = prev + 1 + of_nat i) \<longleftrightarrow>
      w_index w = prev + 1 \<and> (\<forall>i < length ws. w_index (ws ! i) = (prev + 1) + 1 + of_nat i)"
    unfolding length_Cons All_less_Suc2 by (simp add: algebra_simps)
  then show ?case
    using Cons.IH [of "w_index w"] by (cases "prev + 1 = w_index w") (simp_all add: Let_def)
qed simp

lemma first_indices_iff:
  "(case ws of [] \<Rightarrow> Inr () | first # rest \<Rightarrow> check_withdrawal_indices (w_index first) rest) = Inr () \<longleftrightarrow>
     consecutive_indices ws"
proof (cases ws)
  case (Cons w ws')
  then show ?thesis
    unfolding consecutive_indices_def Cons length_Cons All_less_Suc2
    by (simp add: check_withdrawal_indices_iff algebra_simps)
qed (simp add: consecutive_indices_def)

lemma validate_block_standalone_iff:
  "validate_block_standalone keccak256 ordered_trie_root b spec = Inr () \<longleftrightarrow>
     roots_ok keccak256 ordered_trie_root spec b"
  unfolding validate_block_standalone_def roots_ok_def Let_def
  by (cases "sb_withdrawals b")
    (simp_all add: and_then_eq_Inr first_indices_iff eq_commute [of "h_withdrawals_root _"]
      if_split [where P = "\<lambda>x. x = Inr ()"] conj_imp_absorb cong: if_cong)

lemma check_first_withdrawal_iff:
  "check_first_withdrawal latest_withdrawal withdrawals = Inr () \<longleftrightarrow>
     first_withdrawal_ok latest_withdrawal withdrawals"
proof (cases withdrawals)
  case (Some ws)
  have "check_first_withdrawal latest_withdrawal (Some (w # ws')) = Inr () \<longleftrightarrow>
      first_withdrawal_ok latest_withdrawal (Some (w # ws'))" for w ws'
    by (cases "projr latest_withdrawal"; cases latest_withdrawal)
      (simp_all add: check_first_withdrawal_def first_withdrawal_ok_def eq_commute [of _ "w_index w"] from_provider_def)
  with Some show ?thesis
    by (cases ws) (simp_all add: check_first_withdrawal_def first_withdrawal_ok_def)
qed (simp add: check_first_withdrawal_def first_withdrawal_ok_def)

lemma validate_block_regarding_chain_iff:
  "validate_block_regarding_chain b find_header latest_withdrawal = Inr parent \<longleftrightarrow>
     find_header (sh_hash (sb_header b)) = Inr None \<and>
     (\<exists>p. find_header (h_parent_hash (sh_header (sb_header b))) = Inr (Some p) \<and>
        parent = seal p (h_parent_hash (sh_header (sb_header b)))) \<and>
     first_withdrawal_ok latest_withdrawal (sb_withdrawals b)"
  by (auto simp: validate_block_regarding_chain_def is_known_def Let_def and_then_eq_Inr
      check_first_withdrawal_iff split: sum.splits if_splits)

lemma validate_parent_not_panic: "validate_header_regarding_parent parent child spec \<noteq> Inl Panic"
proof
  assume panic: "validate_header_regarding_parent parent child spec = Inl Panic"
  then have "check_gas_limit (gas_limit_base spec (sh_header parent) (sh_header child))
        (h_gas_limit (sh_header child)) = Inr ()"
    and fee: "check_base_fee (sh_header parent) (sh_header child) spec = Inl Panic"
    by (auto simp: validate_header_regarding_parent_def Let_def and_then_eq_Inl gas_limit_base_def
        EIP1559_ELASTICITY_MULTIPLIER_def split: if_splits)
  then have "1024 \<le> unat (gas_limit_base spec (sh_header parent) (sh_header child))"
    by (auto simp: check_gas_limit_iff)
  moreover from fee have "\<not> transitions_at_block (spec_fork spec London) (h_number (sh_header child))"
    and "unat (h_gas_limit (sh_header parent)) < 2"
    using calculate_panics by (fastforce simp: check_base_fee_def and_then_eq_Inl ok_or_def
        split: if_splits option.splits)+
  ultimately show False
    by (simp add: gas_limit_base_def)
qed

text \<open>Chains of headers, newest first, that were validated one after the other.\<close>

inductive header_chain :: "chain_spec \<Rightarrow> sealed_header list \<Rightarrow> bool" for spec where
  header_chain_first: "header_chain spec [h]"
| header_chain_next: "header_chain spec (h # hs) \<Longrightarrow> pre_validate_header now spec c h = Inr () \<Longrightarrow>
    header_chain spec (c # h # hs)"

lemma pre_validate_header_iff:
  "pre_validate_header now spec c p = Inr () \<longleftrightarrow>
     header_ok now spec (sh_header c) \<and> child_ok spec (sh_header p) (sh_header c)"
  by (simp add: pre_validate_header_def and_then_eq_Inr validate_header_standalone_iff
      validate_header_regarding_parent_iff)

lemma child_gas_limit: "child_ok spec p c \<Longrightarrow> 1024 \<le> unat (h_gas_limit c)"
  by (auto simp: child_ok_def Let_def)

lemma header_chain_inv:
  assumes "header_chain spec hs" and "i < length hs"
  shows "h_number (sh_header (hd hs)) = h_number (sh_header (hs ! i)) + of_nat i \<and>
    h_timestamp (sh_header (hs ! i)) \<le> h_timestamp (sh_header (hd hs)) \<and>
    (Suc i < length hs \<longrightarrow> 1024 \<le> unat (h_gas_limit (sh_header (hs ! i))) \<and>
       h_gas_used (sh_header (hs ! i)) \<le> h_gas_limit (sh_header (hs ! i)))"
  using assms
proof (induction arbitrary: i rule: header_chain.induct)
  case (header_chain_next h hs now c)
  from header_chain_next.hyps(2) have ok: "header_ok now spec (sh_header c)" "child_ok spec (sh_header h) (sh_header c)"
    by (simp_all add: pre_validate_header_iff)
  then have c: "h_number (sh_header c) = h_number (sh_header h) + 1"
      "h_timestamp (sh_header h) \<le> h_timestamp (sh_header c)"
      "h_gas_used (sh_header c) \<le> h_gas_limit (sh_header c)"
    by (simp_all add: child_ok_def header_ok_def)
  show ?case
  proof (cases i)
    case 0
    with c child_gas_limit [OF ok(2)] show ?thesis
      by simp
  next
    case (Suc j)
    note IH = header_chain_next.IH [of j]
    have "h_timestamp (sh_header ((h # hs) ! j)) \<le> h_timestamp (sh_header c)"
      using IH Suc header_chain_next.prems order_trans [OF _ c(2)] by simp
    with IH Suc header_chain_next.prems c(1) show ?thesis
      by simp
  qed
qed simp

section \<open>Properties\<close>



text \<open>C35. Validation never panics. The division by the gas target of the parent is only reached when the
  gas limit of the parent is at least 1024.\<close>

theorem full_validation_never_panics:
  "full_validation keccak256 ordered_trie_root recover_ecdsa now b find_header basic_account
     latest_withdrawal spec \<noteq> Inl Panic \<and>
   pre_validate_header now spec header parent \<noteq> Inl Panic"
  using validate_parent_not_panic
  by (auto simp: full_validation_def pre_validate_header_def and_then_eq_Inl ok_or_def split: option.splits)

text \<open>C2. A block passes the full validation exactly when its header is well-formed, its body matches the
  roots and the withdrawal indices of the header and of the chain, the block is new, its parent is known
  and the header follows it, every signer is recovered, and every transaction is valid for the header and
  continues the nonces of its sender, who has no code.\<close>

theorem full_validation_iff:
  "full_validation keccak256 ordered_trie_root recover_ecdsa now b find_header basic_account
     latest_withdrawal spec = Inr () \<longleftrightarrow>
   (let h = sh_header (sb_header b) in
    header_ok now spec h \<and> roots_ok keccak256 ordered_trie_root spec b \<and>
    find_header (sh_hash (sb_header b)) = Inr None \<and>
    (\<exists>p. find_header (h_parent_hash h) = Inr (Some p) \<and> child_ok spec p h) \<and>
    first_withdrawal_ok latest_withdrawal (sb_withdrawals b) \<and>
    (\<exists>txs. map (try_ecrecovered keccak256 recover_ecdsa) (sb_body b) = map Some txs \<and>
       txs_in_order h basic_account spec txs))"
proof -
  have nonces: "validate_all_transaction_regarding_block_and_nonces txs h basic_account spec = Inr () \<longleftrightarrow>
      txs_in_order h basic_account spec txs" for txs h
    using validate_nonces_iff [of "[]" h basic_account spec txs]
    by (simp add: validate_all_transaction_regarding_block_and_nonces_def nonces_of_empty txs_in_order_def)
  show ?thesis
    unfolding full_validation_def Let_def
    by (auto simp: and_then_eq_Inr validate_header_standalone_iff validate_block_standalone_iff
        validate_block_regarding_chain_iff validate_header_regarding_parent_iff collect_option_Some nonces seal_def)
qed

text \<open>C23. In a chain of headers that were validated one after the other the numbers are consecutive,
  the timestamps do not decrease, and every header after the first has a gas limit of at least 1024 and
  uses at most its gas limit.\<close>

theorem header_chain_invariant:
  assumes "header_chain spec hs" and "i < length hs"
  shows "h_number (sh_header (hd hs)) = h_number (sh_header (hs ! i)) + of_nat i \<and>
    h_timestamp (sh_header (hs ! i)) \<le> h_timestamp (sh_header (hd hs)) \<and>
    (Suc i < length hs \<longrightarrow> 1024 \<le> unat (h_gas_limit (sh_header (hs ! i))) \<and>
       h_gas_used (sh_header (hs ! i)) \<le> h_gas_limit (sh_header (hs ! i)))"
  using assms by (rule header_chain_inv)

definition example_header :: "u64 \<Rightarrow> sealed_header" where
  "example_header n = seal (zero_header\<lparr>h_number := n, h_gas_limit := 5000, h_timestamp := n\<rparr>) []"

theorem header_chain_invariant_witness:
  "header_chain (ex_spec []) [example_header 3, example_header 2] \<and>
   1024 \<le> unat (h_gas_limit (sh_header (example_header 3))) \<and>
   h_number (sh_header (example_header 3)) = h_number (sh_header (example_header 2)) + 1"
proof -
  have "header_chain (ex_spec []) [example_header 3, example_header 2]"
    by (rule header_chain_next [where now = 10], rule header_chain_first)
      (simp add: pre_validate_header_iff header_ok_def child_ok_def fee_ok_def gas_limit_base_def
        example_header_def seal_def zero_header_def spec_fork_def ex_spec_def btree_get_def)
  then show ?thesis
    using header_chain_invariant [of "ex_spec []" "[example_header 3, example_header 2]" 0]
      header_chain_invariant [of "ex_spec []" "[example_header 3, example_header 2]" 1] by simp
qed

text \<open>The check of the chain id of a legacy transaction is reversed: with the chain id of the network
  it is accepted before the Spurious Dragon fork, which introduced the chain id, and rejected from it
  on.\<close>

theorem legacy_chain_id_reversed:
  assumes "lg_chain_id t = Some (cs_chain spec)"
  shows "validate_transaction_regarding_header (Legacy t) spec number None =
    (if active_at_block (spec_fork spec SpuriousDragon) number
     then Inl (InvalidTransaction OldLegacyChainId) else Inr ())"
  using assms by (simp add: validate_transaction_regarding_header_def)

theorem legacy_chain_id_reversed_witness:
  "validate_transaction_regarding_header
     (Legacy \<lparr>lg_chain_id = Some 1, lg_nonce = 0, lg_gas_price = 0, lg_gas_limit = 0, lg_to = Create,
        lg_value = 0, lg_input = []\<rparr>) (ex_spec mainnet_hardforks) 17000000 None =
   Inl (InvalidTransaction OldLegacyChainId)"
  by (subst legacy_chain_id_reversed)
    (simp_all add: ex_spec_def spec_fork_def btree_get_def mainnet_hardforks_def)

text \<open>A transaction of EIP-1559 is accepted from Berlin on, before the London fork that introduced
  it.\<close>

theorem eip1559_before_london:
  assumes "active_at_block (spec_fork spec Berlin) number" and "\<not> active_at_block (spec_fork spec London) number"
    and "df_chain_id t = cs_chain spec" and "df_max_priority_fee_per_gas t \<le> df_max_fee_per_gas t"
  shows "validate_transaction_regarding_header (Eip1559 t) spec number None = Inr ()"
  using assms by (simp add: validate_transaction_regarding_header_def not_less)

theorem eip1559_before_london_witness:
  "\<not> active_at_block (spec_fork (ex_spec mainnet_hardforks) London) 12500000 \<and>
   validate_transaction_regarding_header
     (Eip1559 \<lparr>df_chain_id = 1, df_nonce = 0, df_gas_limit = 0, df_max_fee_per_gas = 0,
        df_max_priority_fee_per_gas = 0, df_to = Create, df_value = 0, df_access_list = [], df_input = []\<rparr>)
     (ex_spec mainnet_hardforks) 12500000 None = Inr ()"
  using eip1559_before_london [of "ex_spec mainnet_hardforks" 12500000
     "\<lparr>df_chain_id = 1, df_nonce = 0, df_gas_limit = 0, df_max_fee_per_gas = 0,
        df_max_priority_fee_per_gas = 0, df_to = Create, df_value = 0, df_access_list = [], df_input = []\<rparr>"]
  by (simp add: ex_spec_def spec_fork_def btree_get_def mainnet_hardforks_def)

end
