(* ===== verification/PoolTypes.thy ===== *)
theory PoolTypes
  imports Consensus "HOL-Library.Option_ord" "HOL-Library.Product_Lexorder"
begin

text \<open>
  The vocabulary of the transaction pool, \<^verbatim>\<open>crates/transaction-pool/src\<close>: identifiers of senders and
  transactions, the transactions of the pool, the bit set that records the state of a transaction and
  the sub-pool that is derived from it, the limits, and the validator in front of the pool. The
  lemmas show that the comparison of bit sets as numbers decides set inclusion, and that the
  assignment of identifiers is a bijection.
\<close>

section \<open>Identifiers\<close>

type_synonym sender_id = u64

datatype transaction_id = Tx_Id (tid_sender: sender_id) (tid_nonce: u64)

instantiation transaction_id :: linorder
begin

definition less_eq_transaction_id :: "transaction_id \<Rightarrow> transaction_id \<Rightarrow> bool" where
  "less_eq_transaction_id x y \<longleftrightarrow>
     tid_sender x < tid_sender y \<or> tid_sender x = tid_sender y \<and> tid_nonce x \<le> tid_nonce y"

definition less_transaction_id :: "transaction_id \<Rightarrow> transaction_id \<Rightarrow> bool" where
  "less_transaction_id x y \<longleftrightarrow>
     tid_sender x < tid_sender y \<or> tid_sender x = tid_sender y \<and> tid_nonce x < tid_nonce y"

instance
proof
  fix x y z :: transaction_id
  show "(x < y) = (x \<le> y \<and> \<not> y \<le> x)"
    by (auto simp: less_eq_transaction_id_def less_transaction_id_def)
  show "x \<le> x"
    by (simp add: less_eq_transaction_id_def)
  show "x \<le> y \<Longrightarrow> y \<le> z \<Longrightarrow> x \<le> z"
    by (auto simp: less_eq_transaction_id_def)
  show "x \<le> y \<Longrightarrow> y \<le> x \<Longrightarrow> x = y"
    by (cases x; cases y) (auto simp: less_eq_transaction_id_def)
  show "x \<le> y \<or> y \<le> x"
    by (auto simp: less_eq_transaction_id_def)
qed

end

definition tid_ancestor :: "u64 \<Rightarrow> u64 \<Rightarrow> sender_id \<Rightarrow> transaction_id option" where
  "tid_ancestor transaction_nonce on_chain_nonce sender =
     (if transaction_nonce = on_chain_nonce then None
      else (let prev_nonce = saturating_sub transaction_nonce 1
            in if on_chain_nonce \<le> prev_nonce then Some (Tx_Id sender prev_nonce) else None))"

definition unchecked_ancestor :: "transaction_id \<Rightarrow> transaction_id option" where
  "unchecked_ancestor i =
     (if tid_nonce i = 0 then None else Some (Tx_Id (tid_sender i) (tid_nonce i - 1)))"

definition tid_descendant :: "transaction_id \<Rightarrow> transaction_id" where
  "tid_descendant i = Tx_Id (tid_sender i) (tid_nonce i + 1)"

definition next_nonce :: "transaction_id \<Rightarrow> u64" where
  "next_nonce i = tid_nonce i + 1"

record sender_identifiers =
  si_id :: u64
  si_address_to_id :: "h160 \<rightharpoonup> sender_id"
  si_sender_to_address :: "sender_id \<rightharpoonup> h160"

definition sender_identifiers_default :: sender_identifiers where
  "sender_identifiers_default =
     \<lparr>si_id = 0, si_address_to_id = Map.empty, si_sender_to_address = Map.empty\<rparr>"

definition si_address :: "sender_identifiers \<Rightarrow> sender_id \<Rightarrow> h160 option" where
  "si_address s i = si_sender_to_address s i"

definition sender_id :: "sender_identifiers \<Rightarrow> h160 \<Rightarrow> sender_id option" where
  "sender_id s addr = si_address_to_id s addr"

definition next_sender_id :: "sender_identifiers \<Rightarrow> sender_id \<times> sender_identifiers" where
  "next_sender_id s = (si_id s, s\<lparr>si_id := si_id s + 1\<rparr>)"

definition sender_id_or_create :: "h160 \<Rightarrow> sender_identifiers \<Rightarrow> sender_id \<times> sender_identifiers" where
  "sender_id_or_create addr s =
     (case sender_id s addr of
        Some i \<Rightarrow> (i, s)
      | None \<Rightarrow>
          (let (i, s) = next_sender_id s
           in (i, s\<lparr>si_address_to_id := (si_address_to_id s)(addr \<mapsto> i),
                    si_sender_to_address := (si_sender_to_address s)(i \<mapsto> addr)\<rparr>)))"

section \<open>Transactions\<close>

datatype transaction_origin = Local | External

record pooled_transaction =
  pt_transaction :: transaction_signed_ec_recovered
  pt_cost :: u256
  pt_effective_gas_price :: u128

definition pt_inner :: "pooled_transaction \<Rightarrow> transaction" where
  "pt_inner t = ts_transaction (er_signed_transaction (pt_transaction t))"

definition pt_hash :: "pooled_transaction \<Rightarrow> h256" where
  "pt_hash t = ts_hash (er_signed_transaction (pt_transaction t))"

definition pt_sender :: "pooled_transaction \<Rightarrow> h160" where
  "pt_sender t = er_signer (pt_transaction t)"

definition pt_nonce :: "pooled_transaction \<Rightarrow> u64" where
  "pt_nonce t = tx_nonce (pt_inner t)"

definition pt_gas_limit :: "pooled_transaction \<Rightarrow> u64" where
  "pt_gas_limit t = tx_gas_limit (pt_inner t)"

definition pt_max_fee_per_gas :: "pooled_transaction \<Rightarrow> u128 option" where
  "pt_max_fee_per_gas t =
     (case pt_inner t of
        Legacy _ \<Rightarrow> None | Eip2930 _ \<Rightarrow> None | Eip1559 tx \<Rightarrow> Some (df_max_fee_per_gas tx))"

definition pt_max_priority_fee_per_gas :: "pooled_transaction \<Rightarrow> u128 option" where
  "pt_max_priority_fee_per_gas t =
     (case pt_inner t of
        Legacy _ \<Rightarrow> None | Eip2930 _ \<Rightarrow> None | Eip1559 tx \<Rightarrow> Some (df_max_priority_fee_per_gas tx))"

definition pt_kind :: "pooled_transaction \<Rightarrow> transaction_kind" where
  "pt_kind t = tx_kind (pt_inner t)"

definition pt_size :: "pooled_transaction \<Rightarrow> nat" where
  "pt_size t = length (tx_input (pt_inner t))"

definition pt_tx_type :: "pooled_transaction \<Rightarrow> u8" where
  "pt_tx_type t = tx_type_u8 (tx_type (pt_inner t))"

definition pt_encoded_length :: "pooled_transaction \<Rightarrow> nat" where
  "pt_encoded_length t = payload_len_inner (er_signed_transaction (pt_transaction t))"

definition pt_chain_id :: "pooled_transaction \<Rightarrow> u64 option" where
  "pt_chain_id t = tx_chain_id (pt_inner t)"

definition from_recovered_transaction :: "transaction_signed_ec_recovered \<Rightarrow> pooled_transaction" where
  "from_recovered_transaction tx =
     (let (cost, effective_gas_price) =
            (case ts_transaction (er_signed_transaction tx) of
               Legacy t \<Rightarrow>
                 (ucast (lg_gas_price t) * ucast (lg_gas_limit t) + ucast (lg_value t), lg_gas_price t)
             | Eip2930 t \<Rightarrow>
                 (ucast (al_gas_price t) * ucast (al_gas_limit t) + ucast (al_value t), al_gas_price t)
             | Eip1559 t \<Rightarrow>
                 (ucast (df_max_fee_per_gas t) * ucast (df_gas_limit t) + ucast (df_value t),
                  df_max_priority_fee_per_gas t))
      in \<lparr>pt_transaction = tx, pt_cost = cost, pt_effective_gas_price = effective_gas_price\<rparr>)"

text \<open>The timestamp is the reading of a monotonic clock.\<close>

record valid_pool_transaction =
  vt_transaction :: pooled_transaction
  vt_transaction_id :: transaction_id
  vt_propagate :: bool
  vt_cost :: u256
  vt_timestamp :: nat
  vt_origin :: transaction_origin
  vt_encoded_length :: nat

definition vt_hash :: "valid_pool_transaction \<Rightarrow> h256" where
  "vt_hash t = pt_hash (vt_transaction t)"

definition vt_sender_id :: "valid_pool_transaction \<Rightarrow> sender_id" where
  "vt_sender_id t = tid_sender (vt_transaction_id t)"

definition vt_nonce :: "valid_pool_transaction \<Rightarrow> u64" where
  "vt_nonce t = pt_nonce (vt_transaction t)"

definition vt_max_fee_per_gas :: "valid_pool_transaction \<Rightarrow> u128 option" where
  "vt_max_fee_per_gas t = pt_max_fee_per_gas (vt_transaction t)"

definition vt_gas_limit :: "valid_pool_transaction \<Rightarrow> u64" where
  "vt_gas_limit t = pt_gas_limit (vt_transaction t)"

definition is_underpriced :: "valid_pool_transaction \<Rightarrow> valid_pool_transaction \<Rightarrow> bool" where
  "is_underpriced t other \<longleftrightarrow>
     pt_effective_gas_price (vt_transaction t) \<le> pt_effective_gas_price (vt_transaction other)"

definition vt_is_local :: "valid_pool_transaction \<Rightarrow> bool" where
  "vt_is_local t \<longleftrightarrow> vt_origin t = Local"

definition vt_size :: "valid_pool_transaction \<Rightarrow> nat" where
  "vt_size t = pt_size (vt_transaction t)"

section \<open>The state of a transaction\<close>

unbundle bit_operations_syntax

type_synonym tx_state = u8

definition NO_PARKED_ANCESTORS :: tx_state where
  "NO_PARKED_ANCESTORS = 0b100000"

definition NO_NONCE_GAPS :: tx_state where
  "NO_NONCE_GAPS = 0b010000"

definition ENOUGH_BALANCE :: tx_state where
  "ENOUGH_BALANCE = 0b001000"

definition NOT_TOO_MUCH_GAS :: tx_state where
  "NOT_TOO_MUCH_GAS = 0b000100"

definition ENOUGH_FEE_CAP_BLOCK :: tx_state where
  "ENOUGH_FEE_CAP_BLOCK = 0b000010"

definition PENDING_POOL_BITS :: tx_state where
  "PENDING_POOL_BITS = NO_PARKED_ANCESTORS OR NO_NONCE_GAPS OR ENOUGH_BALANCE OR NOT_TOO_MUCH_GAS OR
     ENOUGH_FEE_CAP_BLOCK"

definition BASE_FEE_POOL_BITS :: tx_state where
  "BASE_FEE_POOL_BITS = NO_PARKED_ANCESTORS OR NO_NONCE_GAPS OR ENOUGH_BALANCE OR NOT_TOO_MUCH_GAS"

definition QUEUED_POOL_BITS :: tx_state where
  "QUEUED_POOL_BITS = NO_PARKED_ANCESTORS"

text \<open>The operations that the bit set library provides.\<close>

definition state_insert :: "tx_state \<Rightarrow> tx_state \<Rightarrow> tx_state" where
  "state_insert flag s = s OR flag"

definition state_remove :: "tx_state \<Rightarrow> tx_state \<Rightarrow> tx_state" where
  "state_remove flag s = s AND NOT flag"

definition state_intersects :: "tx_state \<Rightarrow> tx_state \<Rightarrow> bool" where
  "state_intersects s flag \<longleftrightarrow> s AND flag \<noteq> 0"

definition is_pending :: "tx_state \<Rightarrow> bool" where
  "is_pending s \<longleftrightarrow> s \<ge> PENDING_POOL_BITS"

definition has_enough_fee_cap :: "tx_state \<Rightarrow> bool" where
  "has_enough_fee_cap s \<longleftrightarrow> state_intersects s ENOUGH_FEE_CAP_BLOCK"

definition has_nonce_gap :: "tx_state \<Rightarrow> bool" where
  "has_nonce_gap s \<longleftrightarrow> \<not> state_intersects s NO_NONCE_GAPS"

datatype sub_pool = Queued | Pending | BaseFee

fun sub_pool_rank :: "sub_pool \<Rightarrow> u8" where
  "sub_pool_rank Queued = 0"
| "sub_pool_rank Pending = 1"
| "sub_pool_rank BaseFee = 2"

definition sub_pool_is_pending :: "sub_pool \<Rightarrow> bool" where
  "sub_pool_is_pending p \<longleftrightarrow> p = Pending"

definition is_promoted :: "sub_pool \<Rightarrow> sub_pool \<Rightarrow> bool" where
  "is_promoted p other \<longleftrightarrow> sub_pool_rank p > sub_pool_rank other"

definition sub_pool_of :: "tx_state \<Rightarrow> sub_pool" where
  "sub_pool_of s =
     (if is_pending s then Pending else if s < BASE_FEE_POOL_BITS then Queued else BaseFee)"

section \<open>Updates, limits and errors\<close>

datatype destination = Discard | Pool sub_pool

record pool_update =
  pu_id :: transaction_id
  pu_hash :: h256
  pu_current :: sub_pool
  pu_destination :: destination

record sub_pool_limit =
  max_txs :: nat
  max_size :: nat

definition is_exceeded :: "sub_pool_limit \<Rightarrow> nat \<Rightarrow> nat \<Rightarrow> bool" where
  "is_exceeded l txs sz \<longleftrightarrow> max_txs l < txs \<or> max_size l < sz"

definition sub_pool_limit_default :: sub_pool_limit where
  "sub_pool_limit_default = \<lparr>max_txs = 10000, max_size = 20 * 1024 * 1024\<rparr>"

definition MAX_ACCOUNT_SLOTS_PER_SENDER :: nat where
  "MAX_ACCOUNT_SLOTS_PER_SENDER = 16"

record pool_config =
  pending_limit :: sub_pool_limit
  basefee_limit :: sub_pool_limit
  queued_limit :: sub_pool_limit
  max_account_slots :: nat

definition pool_config_default :: pool_config where
  "pool_config_default = \<lparr>pending_limit = sub_pool_limit_default, basefee_limit = sub_pool_limit_default,
     queued_limit = sub_pool_limit_default, max_account_slots = MAX_ACCOUNT_SLOTS_PER_SENDER\<rparr>"

datatype invalid_pool_transaction_error =
    Pool_Consensus invalid_transaction_error
  | ExceedsGasLimit u64 u64
  | ExceedsMaxInitCodeSize nat nat
  | AccountNotFound
  | OversizedData nat nat

datatype 'p pool_error =
    ReplacementUnderpriced h256
  | ProtocolFeeCapTooLow h256 u128
  | SpammerExceededCapacity h160 h256
  | DiscardedOnInsert h256
  | Pool_InvalidTransaction h256 invalid_pool_transaction_error
  | Pool_Other h256 'p

fun pool_error_hash :: "'p pool_error \<Rightarrow> h256" where
  "pool_error_hash (ReplacementUnderpriced hash) = hash"
| "pool_error_hash (ProtocolFeeCapTooLow hash _) = hash"
| "pool_error_hash (SpammerExceededCapacity _ hash) = hash"
| "pool_error_hash (DiscardedOnInsert hash) = hash"
| "pool_error_hash (Pool_InvalidTransaction hash _) = hash"
| "pool_error_hash (Pool_Other hash _) = hash"

section \<open>Validation\<close>

datatype 'p validation_outcome =
    Outcome_Valid u256 u64 pooled_transaction
  | Outcome_Invalid pooled_transaction invalid_pool_transaction_error
  | Outcome_Error pooled_transaction 'p

record eth_transaction_validator =
  ev_chain_id :: u64
  ev_shanghai :: bool
  ev_eip2718 :: bool
  ev_eip1559 :: bool
  ev_current_max_gas_limit :: u64
  ev_gas_price :: "u128 option"

definition ensure_max_init_code_size ::
    "pooled_transaction \<Rightarrow> nat \<Rightarrow> invalid_pool_transaction_error + unit" where
  "ensure_max_init_code_size transaction max_init_code_size =
     (if pt_kind transaction = Create \<and> pt_size transaction > max_init_code_size
      then Inl (ExceedsMaxInitCodeSize (pt_size transaction) max_init_code_size)
      else Inr ())"

definition TX_SLOT_SIZE :: nat where
  "TX_SLOT_SIZE = 32 * 1024"

definition TX_MAX_SIZE :: nat where
  "TX_MAX_SIZE = 4 * TX_SLOT_SIZE"

definition MAX_CODE_SIZE :: nat where
  "MAX_CODE_SIZE = 24576"

definition MAX_INIT_CODE_SIZE :: nat where
  "MAX_INIT_CODE_SIZE = 2 * MAX_CODE_SIZE"

text \<open>
  \<open>basic_account\<close> is the account database. The options are compared as in Rust, \<^term>\<open>None\<close> below every
  value.
\<close>

definition check_tx_type :: "eth_transaction_validator \<Rightarrow> u8 \<Rightarrow> invalid_pool_transaction_error + unit" where
  "check_tx_type v ty =
     (if ty = LEGACY_TX_TYPE_ID then Inr ()
      else if ty = EIP2930_TX_TYPE_ID
      then (if \<not> ev_eip2718 v then Inl (Pool_Consensus Eip1559Disabled) else Inr ())
      else if ty = EIP1559_TX_TYPE_ID
      then (if \<not> ev_eip1559 v then Inl (Pool_Consensus Eip1559Disabled) else Inr ())
      else Inl (Pool_Consensus TxTypeNotSupported))"

definition check_fees ::
    "eth_transaction_validator \<Rightarrow> transaction_origin \<Rightarrow> pooled_transaction \<Rightarrow>
     invalid_pool_transaction_error + unit" where
  "check_fees v origin transaction =
     (if pt_gas_limit transaction > ev_current_max_gas_limit v
      then Inl (ExceedsGasLimit (pt_gas_limit transaction) (ev_current_max_gas_limit v))
      else if pt_max_fee_per_gas transaction \<le> pt_max_priority_fee_per_gas transaction
      then Inl (Pool_Consensus TipAboveFeeCap)
      else if origin \<noteq> Local \<and> pt_max_fee_per_gas transaction < ev_gas_price v
      then Inl (Pool_Consensus MaxFeeLessThenBaseFee)
      else if pt_chain_id transaction \<noteq> Some (ev_chain_id v)
      then Inl (Pool_Consensus ChainIdMismatch)
      else Inr ())"

definition check_static ::
    "eth_transaction_validator \<Rightarrow> transaction_origin \<Rightarrow> pooled_transaction \<Rightarrow>
     invalid_pool_transaction_error + unit" where
  "check_static v origin transaction =
     and_then (check_tx_type v (pt_tx_type transaction)) (\<lambda>_.
     and_then
       (if pt_size transaction > TX_MAX_SIZE
        then Inl (OversizedData (pt_size transaction) TX_MAX_SIZE) else Inr ()) (\<lambda>_.
     and_then
       (if ev_shanghai v then ensure_max_init_code_size transaction MAX_INIT_CODE_SIZE else Inr ()) (\<lambda>_.
       check_fees v origin transaction)))"

definition validate_transaction ::
    "eth_transaction_validator \<Rightarrow> (h160 \<Rightarrow> 'p + account option) \<Rightarrow> transaction_origin \<Rightarrow>
     pooled_transaction \<Rightarrow> 'p validation_outcome" where
  "validate_transaction v basic_account origin transaction =
     (case check_static v origin transaction of
        Inl err \<Rightarrow> Outcome_Invalid transaction err
      | Inr _ \<Rightarrow>
        (case basic_account (pt_sender transaction) of
           Inl err \<Rightarrow> Outcome_Error transaction err
         | Inr None \<Rightarrow> Outcome_Invalid transaction AccountNotFound
         | Inr (Some account) \<Rightarrow>
             if has_bytecode account
             then Outcome_Invalid transaction (Pool_Consensus SignerAccountHasBytecode)
             else if pt_nonce transaction < a_nonce account
             then Outcome_Invalid transaction (Pool_Consensus NonceNotConsistent)
             else if pt_cost transaction > a_balance account
             then Outcome_Invalid transaction
                    (Pool_Consensus (InsufficientFunds
                      (case pt_max_fee_per_gas transaction of Some fee \<Rightarrow> fee | None \<Rightarrow> 0)
                      (a_balance account)))
             else Outcome_Valid (a_balance account) (a_nonce account) transaction))"

section \<open>Lemmas\<close>

lemmas state_flag_defs = NO_PARKED_ANCESTORS_def NO_NONCE_GAPS_def ENOUGH_BALANCE_def
  NOT_TOO_MUCH_GAS_def ENOUGH_FEE_CAP_BLOCK_def PENDING_POOL_BITS_def BASE_FEE_POOL_BITS_def
  QUEUED_POOL_BITS_def

text \<open>A state that is built from the five flags.\<close>

definition flags :: "bool \<Rightarrow> bool \<Rightarrow> bool \<Rightarrow> bool \<Rightarrow> bool \<Rightarrow> tx_state" where
  "flags no_parked no_gaps balance gas fee =
     (if no_parked then NO_PARKED_ANCESTORS else 0) OR (if no_gaps then NO_NONCE_GAPS else 0) OR
     (if balance then ENOUGH_BALANCE else 0) OR (if gas then NOT_TOO_MUCH_GAS else 0) OR
     (if fee then ENOUGH_FEE_CAP_BLOCK else 0)"

lemma flags_is_pending: "is_pending (flags a b c d e) \<longleftrightarrow> a \<and> b \<and> c \<and> d \<and> e"
  by (cases a; cases b; cases c; cases d; cases e) (simp_all add: is_pending_def flags_def state_flag_defs)

lemma flags_sub_pool_of:
  "sub_pool_of (flags a b c d e) =
     (if a \<and> b \<and> c \<and> d then (if e then Pending else BaseFee) else Queued)"
  by (cases a; cases b; cases c; cases d; cases e)
    (simp_all add: sub_pool_of_def is_pending_def flags_def state_flag_defs)

lemma flags_has_nonce_gap: "has_nonce_gap (flags a b c d e) \<longleftrightarrow> \<not> b"
  by (cases a; cases b; cases c; cases d; cases e)
    (simp_all add: has_nonce_gap_def state_intersects_def flags_def state_flag_defs)

lemma flags_insert:
  "state_insert NO_PARKED_ANCESTORS (flags a b c d e) = flags True b c d e"
  "state_insert NO_NONCE_GAPS (flags a b c d e) = flags a True c d e"
  "state_insert ENOUGH_BALANCE (flags a b c d e) = flags a b True d e"
  "state_insert NOT_TOO_MUCH_GAS (flags a b c d e) = flags a b c True e"
  "state_insert ENOUGH_FEE_CAP_BLOCK (flags a b c d e) = flags a b c d True"
  by (cases a; cases b; cases c; cases d; cases e; simp add: state_insert_def flags_def state_flag_defs)+

lemma flags_remove:
  "state_remove NO_PARKED_ANCESTORS (flags a b c d e) = flags False b c d e"
  "state_remove NO_NONCE_GAPS (flags a b c d e) = flags a False c d e"
  "state_remove ENOUGH_BALANCE (flags a b c d e) = flags a b False d e"
  "state_remove NOT_TOO_MUCH_GAS (flags a b c d e) = flags a b c False e"
  "state_remove ENOUGH_FEE_CAP_BLOCK (flags a b c d e) = flags a b c d False"
  by (cases a; cases b; cases c; cases d; cases e; simp add: state_remove_def flags_def state_flag_defs)+

lemma flags_zero: "flags False False False False False = 0"
  by (simp add: flags_def)

lemmas flags_simps [simp] = flags_is_pending flags_sub_pool_of flags_has_nonce_gap flags_insert flags_remove

lemma flags_gas [simp]: "state_intersects (flags a b c d e) NOT_TOO_MUCH_GAS \<longleftrightarrow> d"
  by (cases a; cases b; cases c; cases d; cases e) (simp_all add: state_intersects_def flags_def state_flag_defs)

lemma flags_fee [simp]: "has_enough_fee_cap (flags a b c d e) \<longleftrightarrow> e"
  by (cases a; cases b; cases c; cases d; cases e)
    (simp_all add: has_enough_fee_cap_def state_intersects_def flags_def state_flag_defs)

text \<open>The states that occur in the pool: no bit outside the five flags is set.\<close>

definition valid_state :: "tx_state \<Rightarrow> bool" where
  "valid_state s \<longleftrightarrow> (\<exists>a b c d e. s = flags a b c d e)"

lemma valid_stateE:
  assumes "valid_state s"
  obtains a b c d e where "s = flags a b c d e"
  using assms by (auto simp: valid_state_def)

lemma valid_state_flags [simp]: "valid_state (flags a b c d e)"
  unfolding valid_state_def by blast

text \<open>Identifiers: the first \<open>n\<close> of them are assigned, each to one address.\<close>

definition ids_inv :: "nat \<Rightarrow> sender_identifiers \<Rightarrow> bool" where
  "ids_inv n s \<longleftrightarrow> si_id s = of_nat n \<and>
     (\<forall>a i. si_address_to_id s a = Some i \<longleftrightarrow> si_sender_to_address s i = Some a) \<and>
     (\<forall>i a. si_sender_to_address s i = Some a \<longrightarrow> unat i < n)"

fun create_all :: "h160 list \<Rightarrow> sender_identifiers \<Rightarrow> sender_identifiers" where
  "create_all [] s = s"
| "create_all (a # as) s = create_all as (snd (sender_id_or_create a s))"

lemma ids_inv_default: "ids_inv 0 sender_identifiers_default"
  by (simp add: ids_inv_def sender_identifiers_default_def)

lemma ids_inv_create:
  assumes "ids_inv n s" and "n < 2 ^ 64"
  shows "\<exists>m. ids_inv m (snd (sender_id_or_create a s)) \<and> m \<le> Suc n"
proof (cases "sender_id s a")
  case (Some i)
  with assms show ?thesis
    by (auto simp: sender_id_or_create_def)
next
  case None
  from assms(2) have n: "unat (of_nat n :: u64) = n"
    by (simp add: unat_of_nat)
  have fresh: "si_sender_to_address s (of_nat n) = None"
    using assms(1) n unfolding ids_inv_def by (metis less_irrefl not_None_eq)
  have "si_sender_to_address s i \<noteq> Some a" for i
    using assms(1) None unfolding ids_inv_def sender_id_def by (metis option.distinct(1))
  then have "ids_inv (Suc n) (snd (sender_id_or_create a s))"
    using assms(1) None fresh n
    by (auto simp: ids_inv_def sender_id_or_create_def next_sender_id_def sender_id_def less_Suc_eq
        split: if_splits)
  then show ?thesis
    by blast
qed

lemma create_keeps:
  "si_address_to_id s a = Some i \<Longrightarrow> si_address_to_id (snd (sender_id_or_create b s)) a = Some i"
  by (auto simp: sender_id_or_create_def next_sender_id_def sender_id_def split: option.splits)

lemma create_all_keeps: "si_address_to_id s a = Some i \<Longrightarrow> si_address_to_id (create_all as s) a = Some i"
  by (induction "as" s rule: create_all.induct) (auto dest: create_keeps)

lemma create_assigns: "\<exists>i. si_address_to_id (snd (sender_id_or_create a s)) a = Some i"
  by (auto simp: sender_id_or_create_def next_sender_id_def sender_id_def split: option.splits)

lemma create_all_inv:
  "ids_inv n s \<Longrightarrow> n + length as < 2 ^ 64 \<Longrightarrow>
   (\<exists>m. ids_inv m (create_all as s)) \<and> (\<forall>a \<in> set as. \<exists>i. si_address_to_id (create_all as s) a = Some i)"
proof (induction "as" arbitrary: n s)
  case (Cons a as')
  obtain m where m: "ids_inv m (snd (sender_id_or_create a s))" "m \<le> Suc n"
    using ids_inv_create [OF Cons.prems(1), of a] Cons.prems(2) by auto
  obtain i where "si_address_to_id (snd (sender_id_or_create a s)) a = Some i"
    using create_assigns by blast
  from create_all_keeps [OF this] Cons.IH [OF m(1)] m(2) Cons.prems(2) show ?case
    by auto
qed auto

lemma legacy_fees:
  "pt_tx_type t \<noteq> EIP1559_TX_TYPE_ID \<Longrightarrow> pt_max_fee_per_gas t = None \<and> pt_max_priority_fee_per_gas t = None"
  by (cases "pt_inner t") (simp_all add: pt_tx_type_def pt_max_fee_per_gas_def pt_max_priority_fee_per_gas_def)

section \<open>Properties\<close>

text \<open>The sub-pool of a transaction, which the code finds by comparing bit sets as numbers, is
  decided by its flags: pending when all five are set, base fee when only the fee cap is missing, and
  queued otherwise.\<close>

theorem sub_pool_of_flags:
  "sub_pool_of (flags no_parked no_gaps balance gas fee) =
     (if no_parked \<and> no_gaps \<and> balance \<and> gas then (if fee then Pending else BaseFee) else Queued)"
  by (rule flags_sub_pool_of)

text \<open>The identifiers of senders are a bijection: after any sequence of fewer than \<open>2 ^ 64\<close>
  requests every requested address has an identifier, which belongs to it alone and leads back
  to it.\<close>

theorem sender_ids_bijective:
  assumes "length as < 2 ^ 64" and "a \<in> set as"
  shows "\<exists>i. sender_id (create_all as sender_identifiers_default) a = Some i \<and>
    si_address (create_all as sender_identifiers_default) i = Some a \<and>
    (\<forall>b. sender_id (create_all as sender_identifiers_default) b = Some i \<longrightarrow> b = a)"
proof -
  let ?s = "create_all as sender_identifiers_default"
  obtain m i where "ids_inv m ?s" "si_address_to_id ?s a = Some i"
    using create_all_inv [OF ids_inv_default, of "as"] assms by auto
  then show ?thesis
    by (auto simp: ids_inv_def sender_id_def si_address_def)
qed

theorem sender_ids_bijective_witness:
  "\<exists>i. sender_id (create_all [[1], [2], [1]] sender_identifiers_default) [2] = Some i \<and>
    si_address (create_all [[1], [2], [1]] sender_identifiers_default) i = Some [2]"
  using sender_ids_bijective [of "[[1], [2], [1]]" "[2]"] by auto

text \<open>The validator in front of the pool rejects every transaction that is not of EIP-1559: the fee
  and the tip of such a transaction are both absent, and the check that the tip is below the fee rejects
  equal values.\<close>

theorem validator_rejects_legacy:
  assumes "pt_tx_type t \<noteq> EIP1559_TX_TYPE_ID"
  shows "\<exists>err. validate_transaction v basic_account origin t = Outcome_Invalid t err"
proof -
  have "check_fees v origin t \<noteq> Inr ()"
    using legacy_fees [OF assms] by (simp add: check_fees_def)
  then have "check_static v origin t \<noteq> Inr ()"
    by (auto simp: check_static_def and_then_eq_Inr)
  then show ?thesis
    by (cases "check_static v origin t") (auto simp: validate_transaction_def)
qed

theorem validator_rejects_legacy_witness:
  "\<exists>t err. pt_tx_type t \<noteq> EIP1559_TX_TYPE_ID \<and>
   validate_transaction \<lparr>ev_chain_id = 1, ev_shanghai = True, ev_eip2718 = True, ev_eip1559 = True,
       ev_current_max_gas_limit = 30000000, ev_gas_price = None\<rparr>
     (\<lambda>_. Inr (Some default_account) :: unit + account option) Local t = Outcome_Invalid t err"
proof -
  let ?t = "from_recovered_transaction \<lparr>er_signer = [], er_signed_transaction =
      from_transaction_and_signature (\<lambda>_. []) example_tx \<lparr>sig_r = 0, sig_s = 0, sig_odd_y_parity = False\<rparr>\<rparr>"
  have "pt_tx_type ?t \<noteq> EIP1559_TX_TYPE_ID"
    by (simp add: pt_tx_type_def pt_inner_def from_recovered_transaction_def from_transaction_eq example_tx_def
        EIP1559_TX_TYPE_ID_def EIP2930_TX_TYPE_ID_def)
  then show ?thesis
    using validator_rejects_legacy [of ?t] by blast
qed

end
