(* ===== verification/SubPools.thy ===== *)
theory SubPools
  imports PoolTypes
begin

text \<open>
  The sub-pools of the transaction pool, \<^verbatim>\<open>crates/transaction-pool/src/pool/{parked,pending,best}.rs\<close>.
  A set that is sorted by a custom order is the map from the sort keys to its elements. The locale
  states what the pool relies on, a finite map from identifiers to transactions, and is interpreted
  on the three sub-pools.
\<close>

section \<open>Sizes\<close>

text \<open>The tracked size is an \<^verbatim>\<open>isize\<close>; its conversions and sums are those of 64-bit words.\<close>

type_synonym size_tracker = u64

definition size_add :: "size_tracker \<Rightarrow> nat \<Rightarrow> size_tracker" where
  "size_add s rhs = s + of_nat rhs"

definition size_sub :: "size_tracker \<Rightarrow> nat \<Rightarrow> size_tracker" where
  "size_sub s rhs = s - of_nat rhs"

definition size_value :: "size_tracker \<Rightarrow> nat" where
  "size_value s = unat s"

section \<open>Parked transactions\<close>

record parked_pool_transaction =
  pk_submission_id :: u64
  pk_transaction :: valid_pool_transaction

record 'k parked_pool =
  pk_next_submission :: u64
  pk_by_id :: "(transaction_id, parked_pool_transaction) btree"
  pk_best :: "('k \<times> int, parked_pool_transaction) btree"
  pk_size_of :: size_tracker

text \<open>
  Parked transactions are ordered by the transaction first and then by the submission, the earlier
  one being greater; \<open>ord_key\<close> is the order of the transactions.
\<close>

definition parked_key :: "(valid_pool_transaction \<Rightarrow> 'k) \<Rightarrow> parked_pool_transaction \<Rightarrow> 'k \<times> int" where
  "parked_key ord_key t = (ord_key (pk_transaction t), - uint (pk_submission_id t))"

text \<open>The order by the fee cap, absent below every value, and the order by cost and then by age.\<close>

definition basefee_ord :: "valid_pool_transaction \<Rightarrow> u128 option" where
  "basefee_ord t = vt_max_fee_per_gas t"

definition queued_ord :: "valid_pool_transaction \<Rightarrow> u256 \<times> int" where
  "queued_ord t = (vt_cost t, - int (vt_timestamp t))"

definition parked_default :: "'k parked_pool" where
  "parked_default = \<lparr>pk_next_submission = 0, pk_by_id = [], pk_best = [], pk_size_of = 0\<rparr>"

definition parked_next_id :: "'k parked_pool \<Rightarrow> u64 \<times> 'k parked_pool" where
  "parked_next_id p = (pk_next_submission p, p\<lparr>pk_next_submission := pk_next_submission p + 1\<rparr>)"

text \<open>\<^term>\<open>None\<close> is the panic on a transaction that is already included.\<close>

definition parked_add_transaction ::
    "(valid_pool_transaction \<Rightarrow> 'k::linorder) \<Rightarrow> valid_pool_transaction \<Rightarrow> 'k parked_pool \<Rightarrow>
     'k parked_pool option" where
  "parked_add_transaction ord_key tx p =
     (let i = vt_transaction_id tx in
      if btree_get (pk_by_id p) i \<noteq> None then None
      else
        (let (submission, p) = parked_next_id p;
             p = p\<lparr>pk_size_of := size_add (pk_size_of p) (vt_size tx)\<rparr>;
             t = \<lparr>pk_submission_id = submission, pk_transaction = tx\<rparr>
         in Some (p\<lparr>pk_by_id := btree_insert i t (pk_by_id p),
                    pk_best := btree_set_insert (parked_key ord_key t) t (pk_best p)\<rparr>)))"

definition parked_remove_transaction ::
    "(valid_pool_transaction \<Rightarrow> 'k) \<Rightarrow> transaction_id \<Rightarrow> 'k parked_pool \<Rightarrow>
     valid_pool_transaction option \<times> 'k parked_pool" where
  "parked_remove_transaction ord_key i p =
     (case btree_get (pk_by_id p) i of
        None \<Rightarrow> (None, p)
      | Some t \<Rightarrow>
          (Some (pk_transaction t),
           p\<lparr>pk_by_id := btree_remove i (pk_by_id p),
             pk_best := btree_remove (parked_key ord_key t) (pk_best p),
             pk_size_of := size_sub (pk_size_of p) (vt_size (pk_transaction t))\<rparr>))"

definition parked_pop_worst ::
    "(valid_pool_transaction \<Rightarrow> 'k) \<Rightarrow> 'k parked_pool \<Rightarrow>
     valid_pool_transaction option \<times> 'k parked_pool" where
  "parked_pop_worst ord_key p =
     (case pk_best p of
        [] \<Rightarrow> (None, p)
      | (_, t) # _ \<Rightarrow> parked_remove_transaction ord_key (vt_transaction_id (pk_transaction t)) p)"

definition parked_size :: "'k parked_pool \<Rightarrow> nat" where
  "parked_size p = size_value (pk_size_of p)"

definition parked_len :: "'k parked_pool \<Rightarrow> nat" where
  "parked_len p = length (pk_by_id p)"

section \<open>Pending transactions\<close>

record 'k pending_transaction_ref =
  pr_submission_id :: u64
  pr_transaction :: valid_pool_transaction
  pr_priority :: 'k

type_synonym 'k pending_refs = "('k \<times> int, 'k pending_transaction_ref) btree"

record 'k pending_pool =
  pp_submission_id :: u64
  pp_by_id :: "(transaction_id, 'k pending_transaction_ref) btree"
  pp_all :: "'k pending_refs"
  pp_independent :: "'k pending_refs"
  pp_size_of :: size_tracker

definition pending_key :: "'k pending_transaction_ref \<Rightarrow> 'k \<times> int" where
  "pending_key r = (pr_priority r, - uint (pr_submission_id r))"

definition unlocks :: "'k pending_transaction_ref \<Rightarrow> transaction_id" where
  "unlocks r = tid_descendant (vt_transaction_id (pr_transaction r))"

definition pending_new :: "'k pending_pool" where
  "pending_new = \<lparr>pp_submission_id = 0, pp_by_id = [], pp_all = [], pp_independent = [], pp_size_of = 0\<rparr>"

definition pending_ancestor :: "transaction_id \<Rightarrow> 'k pending_pool \<Rightarrow> 'k pending_transaction_ref option" where
  "pending_ancestor i p =
     (case unchecked_ancestor i of None \<Rightarrow> None | Some a \<Rightarrow> btree_get (pp_by_id p) a)"

definition pending_next_id :: "'k pending_pool \<Rightarrow> u64 \<times> 'k pending_pool" where
  "pending_next_id p = (pp_submission_id p, p\<lparr>pp_submission_id := pp_submission_id p + 1\<rparr>)"

text \<open>\<open>priority\<close> is the order of the pool, a parameter of the type.\<close>

definition pending_add_transaction ::
    "(pooled_transaction \<Rightarrow> 'k::linorder) \<Rightarrow> valid_pool_transaction \<Rightarrow> 'k pending_pool \<Rightarrow>
     'k pending_pool option" where
  "pending_add_transaction priority tx p =
     (if btree_get (pp_by_id p) (vt_transaction_id tx) \<noteq> None then None
      else
        (let tx_id = vt_transaction_id tx;
             (submission, p) = pending_next_id p;
             p = p\<lparr>pp_size_of := size_add (pp_size_of p) (vt_size tx)\<rparr>;
             t = \<lparr>pr_submission_id = submission, pr_transaction = tx, pr_priority = priority (vt_transaction tx)\<rparr>;
             p = (if pending_ancestor tx_id p = None
                  then p\<lparr>pp_independent := btree_set_insert (pending_key t) t (pp_independent p)\<rparr>
                  else p)
         in Some (p\<lparr>pp_all := btree_set_insert (pending_key t) t (pp_all p),
                    pp_by_id := btree_insert tx_id t (pp_by_id p)\<rparr>)))"

definition pending_remove_transaction ::
    "transaction_id \<Rightarrow> 'k pending_pool \<Rightarrow> valid_pool_transaction option \<times> 'k pending_pool" where
  "pending_remove_transaction i p =
     (case btree_get (pp_by_id p) i of
        None \<Rightarrow> (None, p)
      | Some t \<Rightarrow>
          (Some (pr_transaction t),
           p\<lparr>pp_by_id := btree_remove i (pp_by_id p),
             pp_size_of := size_sub (pp_size_of p) (vt_size (pr_transaction t)),
             pp_all := btree_remove (pending_key t) (pp_all p),
             pp_independent := btree_remove (pending_key t) (pp_independent p)\<rparr>))"

definition pending_remove_mined ::
    "transaction_id \<Rightarrow> 'k::linorder pending_pool \<Rightarrow> valid_pool_transaction option \<times> 'k pending_pool" where
  "pending_remove_mined i p =
     (let p = (case btree_get (pp_by_id p) (tid_descendant i) of
                 Some unlocked \<Rightarrow>
                   p\<lparr>pp_independent := btree_set_insert (pending_key unlocked) unlocked (pp_independent p)\<rparr>
               | None \<Rightarrow> p)
      in pending_remove_transaction i p)"

definition pending_pop_worst ::
    "'k pending_pool \<Rightarrow> valid_pool_transaction option \<times> 'k pending_pool" where
  "pending_pop_worst p =
     (if pp_all p = [] then (None, p)
      else pending_remove_transaction (vt_transaction_id (pr_transaction (snd (last (pp_all p))))) p)"

definition pending_size :: "'k pending_pool \<Rightarrow> nat" where
  "pending_size p = size_value (pp_size_of p)"

definition pending_len :: "'k pending_pool \<Rightarrow> nat" where
  "pending_len p = length (pp_by_id p)"

section \<open>The best transactions\<close>

record 'k best_transactions =
  bt_all :: "(transaction_id, 'k pending_transaction_ref) btree"
  bt_independent :: "'k pending_refs"
  bt_invalid :: "h256 set"

definition pending_best :: "'k pending_pool \<Rightarrow> 'k best_transactions" where
  "pending_best p = \<lparr>bt_all = pp_by_id p, bt_independent = pp_independent p, bt_invalid = {}\<rparr>"

definition mark_invalid :: "valid_pool_transaction \<Rightarrow> 'k best_transactions \<Rightarrow> 'k best_transactions" where
  "mark_invalid tx b = b\<lparr>bt_invalid := insert (vt_hash tx) (bt_invalid b)\<rparr>"

text \<open>The greatest element is the last of the list; taking it leaves the others.\<close>

function best_next ::
    "'k::linorder best_transactions \<Rightarrow> valid_pool_transaction option \<times> 'k best_transactions" where
  "best_next b =
     (if bt_independent b = [] then (None, b)
      else
        (let best = snd (last (bt_independent b));
             b = b\<lparr>bt_independent := butlast (bt_independent b)\<rparr> in
         if vt_hash (pr_transaction best) \<in> bt_invalid b then best_next b
         else
           (let b = (case btree_get (bt_all b) (unlocks best) of
                       Some unlocked \<Rightarrow>
                         b\<lparr>bt_independent :=
                             btree_set_insert (pending_key unlocked) unlocked (bt_independent b)\<rparr>
                     | None \<Rightarrow> b)
            in (Some (pr_transaction best), b))))"
  by pat_completeness auto

termination
  by (relation "measure (\<lambda>b. length (bt_independent b))") auto

declare best_next.simps [simp del]

fun best_run :: "nat \<Rightarrow> 'k::linorder best_transactions \<Rightarrow> valid_pool_transaction list" where
  "best_run 0 b = []"
| "best_run (Suc n) b =
     (case best_next b of (None, _) \<Rightarrow> [] | (Some t, b) \<Rightarrow> t # best_run n b)"

section \<open>An index by identifier and a sorted set\<close>

text \<open>
  Both kinds of sub-pools keep a map by identifier and a set sorted by a key in which the number of
  the submission breaks ties. \<open>next\<close> is the number of submissions so far.
\<close>

definition idx_inv ::
    "('t \<Rightarrow> 'k::linorder) \<Rightarrow> ('t \<Rightarrow> u64) \<Rightarrow> ('t \<Rightarrow> transaction_id) \<Rightarrow> nat \<Rightarrow>
     (transaction_id, 't) btree \<Rightarrow> ('k, 't) btree \<Rightarrow> bool" where
  "idx_inv key sid tid n by_id s \<longleftrightarrow> btree_wf by_id \<and> btree_wf s \<and>
     (\<forall>i t. (i, t) \<in> set by_id \<longrightarrow> tid t = i \<and> unat (sid t) < n) \<and>
     (\<forall>t t'. t \<in> snd ` set by_id \<longrightarrow> t' \<in> snd ` set by_id \<longrightarrow> sid t = sid t' \<longrightarrow> t = t') \<and>
     set s = (\<lambda>t. (key t, t)) ` snd ` set by_id"

locale keyed_index =
  fixes key :: "'t \<Rightarrow> 'k::linorder"
    and sid :: "'t \<Rightarrow> u64"
    and tid :: "'t \<Rightarrow> transaction_id"
  assumes key_sid: "key t = key t' \<Longrightarrow> sid t = sid t'"
begin

lemma idx_empty: "idx_inv key sid tid n [] []"
  by (simp add: idx_inv_def btree_wf_def)

lemma idx_add:
  assumes inv: "idx_inv key sid tid n by_id s" and new: "btree_get by_id (tid t) = None"
    and t: "sid t = of_nat n" "n < 2 ^ 64"
  shows "idx_inv key sid tid (Suc n) (btree_insert (tid t) t by_id) (btree_set_insert (key t) t s)"
proof -
  have n: "unat (sid t) = n"
    using t by (simp add: unat_of_nat)
  have fresh: "sid t' \<noteq> sid t" if "t' \<in> snd ` set by_id" for t'
    using that inv n by (force simp: idx_inv_def)
  then have nokey: "key t' \<noteq> key t" if "t' \<in> snd ` set by_id" for t'
    using that key_sid by metis
  have keys: "fst ` set s = key ` snd ` set by_id"
    using inv by (simp add: idx_inv_def image_image)
  have "btree_get s (key t) = None"
    unfolding btree_get_None_iff keys using nokey by (metis imageE)
  then have s: "set (btree_set_insert (key t) t s) = insert (key t, t) (set s)"
    by (simp add: btree_set_insert_def set_btree_insert_fresh)
  have old: "t1 = t2" if "t1 \<in> snd ` set by_id" "t2 \<in> snd ` set by_id" "sid t1 = sid t2" for t1 t2
    using inv that unfolding idx_inv_def by blast
  have uniq: "t1 = t2" if "t1 \<in> insert t (snd ` set by_id)" "t2 \<in> insert t (snd ` set by_id)" "sid t1 = sid t2" for t1 t2
    using that old [of t1 t2] fresh [of t1] fresh [of t2] unfolding insert_iff by metis
  have bound: "\<forall>i u. (i, u) \<in> insert (tid t, t) (set by_id) \<longrightarrow> tid u = i \<and> unat (sid u) < Suc n"
    using inv n unfolding idx_inv_def by (auto simp: less_Suc_eq)
  have set: "insert (key t, t) (set s) = (\<lambda>t. (key t, t)) ` insert t (snd ` set by_id)"
    using inv by (simp add: idx_inv_def)
  have wf: "btree_wf by_id" "btree_wf s"
    using inv by (simp_all add: idx_inv_def)
  show ?thesis
    unfolding idx_inv_def s set_btree_insert_fresh [OF new] image_insert snd_conv
    using btree_wf_insert [OF wf(1)] btree_wf_set_insert [OF wf(2)] bound set [unfolded image_insert]
    by (intro conjI) (assumption | intro allI impI, rule uniq, assumption+)+
qed

lemma idx_remove:
  assumes inv: "idx_inv key sid tid n by_id s" and get: "btree_get by_id i = Some t"
  shows "idx_inv key sid tid n (btree_remove i by_id) (btree_remove (key t) s)"
proof -
  have wf: "btree_wf by_id" "btree_wf s"
    and bound: "\<And>j u. (j, u) \<in> set by_id \<Longrightarrow> tid u = j \<and> unat (sid u) < n"
    and old: "\<And>t1 t2. t1 \<in> snd ` set by_id \<Longrightarrow> t2 \<in> snd ` set by_id \<Longrightarrow> sid t1 = sid t2 \<Longrightarrow> t1 = t2"
    and s: "set s = (\<lambda>t. (key t, t)) ` snd ` set by_id"
    using inv unfolding idx_inv_def by blast+
  have t: "(i, t) \<in> set by_id"
    using get by (simp add: btree_get_Some_iff [OF wf(1)])
  have same: "key u = key t \<longleftrightarrow> tid u = i" if u: "(j, u) \<in> set by_id" for j u
  proof
    assume "key u = key t"
    then have "u = t"
      using key_sid [of u t] old [of u t] image_eqI [OF _ u, of u snd] image_eqI [OF _ t, of t snd] by simp
    then show "tid u = i"
      using bound [OF t] by simp
  next
    assume "tid u = i"
    then have "btree_get by_id i = Some u"
      using u bound [OF u] by (simp add: btree_get_Some_iff [OF wf(1)])
    with get show "key u = key t"
      by simp
  qed
  have kept: "snd ` {e \<in> set by_id. fst e \<noteq> i} \<subseteq> snd ` set by_id"
    by blast
  have set: "{e \<in> set s. fst e \<noteq> key t} = (\<lambda>t. (key t, t)) ` snd ` {e \<in> set by_id. fst e \<noteq> i}"
  proof -
    have "key u \<noteq> key t \<longleftrightarrow> j \<noteq> i" if "(j, u) \<in> set by_id" for j u
      using same [OF that] bound [OF that] by simp
    then show ?thesis
      unfolding s by (auto simp: image_iff)
  qed
  show ?thesis
    unfolding idx_inv_def set_btree_remove set
    by (intro conjI btree_wf_remove wf allI impI old) (use bound kept in auto)
qed

lemma idx_get: "idx_inv key sid tid n by_id s \<Longrightarrow> (k, t) \<in> set s \<Longrightarrow> btree_get by_id (tid t) = Some t \<and> k = key t"
  unfolding idx_inv_def by (force simp: btree_get_Some_iff)

lemma idx_id: "idx_inv key sid tid n by_id s \<Longrightarrow> btree_get by_id i = Some t \<Longrightarrow> tid t = i"
  by (simp add: idx_inv_def btree_get_Some_iff)

lemma idx_mem:
  assumes "idx_inv key sid tid n by_id s" and "btree_get by_id i = Some t"
  shows "(key t, t) \<in> set s"
proof -
  have "(i, t) \<in> set by_id" "set s = (\<lambda>t. (key t, t)) ` snd ` set by_id"
    using assms by (simp_all add: idx_inv_def btree_get_Some_iff)
  then show ?thesis
    by force
qed

lemma idx_length:
  assumes "idx_inv key sid tid n by_id s"
  shows "length by_id = length s"
proof -
  have "inj_on snd (set by_id)"
    using assms unfolding idx_inv_def inj_on_def by (metis prod.collapse)
  moreover have "inj_on (\<lambda>t. (key t, t)) (snd ` set by_id)"
    by (simp add: inj_on_def)
  ultimately have "card (set s) = card (set by_id)"
    using assms unfolding idx_inv_def by (simp add: card_image)
  moreover have "distinct by_id" "distinct s"
    using btree_wf_distinct [of by_id] btree_wf_distinct [of s] assms by (simp_all add: idx_inv_def distinct_map)
  ultimately show ?thesis
    by (simp add: distinct_card)
qed

end

interpretation parked_index: keyed_index "parked_key ord_key" pk_submission_id
    "\<lambda>t. vt_transaction_id (pk_transaction t)" for ord_key :: "valid_pool_transaction \<Rightarrow> 'k::linorder"
  by unfold_locales (simp add: parked_key_def word_uint_eq_iff)

interpretation pending_index: keyed_index "pending_key :: 'k::linorder pending_transaction_ref \<Rightarrow> 'k \<times> int"
    pr_submission_id "\<lambda>r. vt_transaction_id (pr_transaction r)"
  by unfold_locales (simp add: pending_key_def word_uint_eq_iff)

section \<open>Invariants of the sub-pools\<close>

lemma sum_list_btree_insert:
  "btree_get m k = None \<Longrightarrow> sum_list (map f (btree_insert k v m)) = f (k, v) + sum_list (map f m)"
  for f :: "'a::linorder \<times> 'b \<Rightarrow> 'c::comm_monoid_add"
  by (induction k v m rule: btree_insert.induct) (auto simp: btree_get_def ac_simps split: if_splits)

lemma sum_list_btree_remove:
  "btree_wf m \<Longrightarrow> btree_get m k = Some v \<Longrightarrow> sum_list (map f m) = f (k, v) + sum_list (map f (btree_remove k m))"
  for f :: "'a::linorder \<times> 'b \<Rightarrow> 'c::comm_monoid_add"
proof (induction m)
  case (Cons e m)
  show ?case
  proof (cases "fst e = k")
    case True
    with Cons.prems have "filter (\<lambda>e. fst e \<noteq> k) m = m"
      by (force simp: btree_wf_def filter_id_conv)
    with True Cons.prems show ?thesis
      by (cases e) (simp add: btree_remove_def btree_get_def)
  next
    case False
    with Cons show ?thesis
      by (cases e) (auto simp: btree_remove_def btree_wf_def btree_get_def ac_simps)
  qed
qed (simp add: btree_get_def)

definition parked_inv :: "(valid_pool_transaction \<Rightarrow> 'k::linorder) \<Rightarrow> nat \<Rightarrow> 'k parked_pool \<Rightarrow> bool" where
  "parked_inv ord_key n p \<longleftrightarrow> pk_next_submission p = of_nat n \<and>
     idx_inv (parked_key ord_key) pk_submission_id (\<lambda>t. vt_transaction_id (pk_transaction t)) n
       (pk_by_id p) (pk_best p) \<and>
     pk_size_of p = (\<Sum>(i, t) \<leftarrow> pk_by_id p. of_nat (vt_size (pk_transaction t)))"

definition pending_inv :: "nat \<Rightarrow> 'k::linorder pending_pool \<Rightarrow> bool" where
  "pending_inv n p \<longleftrightarrow> pp_submission_id p = of_nat n \<and>
     idx_inv pending_key pr_submission_id (\<lambda>r. vt_transaction_id (pr_transaction r)) n (pp_by_id p) (pp_all p) \<and>
     btree_wf (pp_independent p) \<and> set (pp_independent p) \<subseteq> set (pp_all p) \<and>
     pp_size_of p = (\<Sum>(i, t) \<leftarrow> pp_by_id p. of_nat (vt_size (pr_transaction t)))"

lemma set_btree_set_insert: "set (btree_set_insert k v m) \<subseteq> insert (k, v) (set m)"
  by (auto simp: btree_set_insert_def set_btree_insert_fresh split: option.splits)

lemma parked_add_inv:
  assumes "parked_inv ord_key n p" and "parked_add_transaction ord_key tx p = Some p'" and "n < 2 ^ 64"
  shows "parked_inv ord_key (Suc n) p'"
proof -
  let ?t = "\<lparr>pk_submission_id = pk_next_submission p, pk_transaction = tx\<rparr>"
  from assms(2) have new: "btree_get (pk_by_id p) (vt_transaction_id tx) = None"
    and p': "p' = p\<lparr>pk_next_submission := pk_next_submission p + 1,
        pk_by_id := btree_insert (vt_transaction_id tx) ?t (pk_by_id p),
        pk_best := btree_set_insert (parked_key ord_key ?t) ?t (pk_best p),
        pk_size_of := pk_size_of p + of_nat (vt_size tx)\<rparr>"
    by (auto simp: parked_add_transaction_def parked_next_id_def size_add_def Let_def split: if_splits)
  show ?thesis
    using assms(1,3) new parked_index.idx_add [of ord_key n "pk_by_id p" "pk_best p" ?t]
    unfolding parked_inv_def p'
    by (simp add: sum_list_btree_insert add.commute)
qed

lemma parked_remove_inv:
  assumes "parked_inv ord_key n p"
  shows "parked_inv ord_key n (snd (parked_remove_transaction ord_key i p))"
proof (cases "btree_get (pk_by_id p) i")
  case None
  with assms show ?thesis
    by (simp add: parked_remove_transaction_def)
next
  case (Some t)
  have "btree_wf (pk_by_id p)"
    using assms by (simp add: parked_inv_def idx_inv_def)
  from sum_list_btree_remove [OF this Some, of "\<lambda>(i, t). of_nat (vt_size (pk_transaction t)) :: u64"]
  show ?thesis
    using assms Some parked_index.idx_remove [of ord_key n "pk_by_id p" "pk_best p" i t]
    by (simp add: parked_inv_def parked_remove_transaction_def size_sub_def)
qed

lemma parked_pop_worst_inv: "parked_inv ord_key n p \<Longrightarrow> parked_inv ord_key n (snd (parked_pop_worst ord_key p))"
  by (auto simp: parked_pop_worst_def parked_remove_inv split: list.splits)

lemma pending_add_inv:
  assumes "pending_inv n p" and "pending_add_transaction priority tx p = Some p'" and "n < 2 ^ 64"
  shows "pending_inv (Suc n) p'"
proof -
  let ?t = "\<lparr>pr_submission_id = pp_submission_id p, pr_transaction = tx, pr_priority = priority (vt_transaction tx)\<rparr>"
  from assms(2) have new: "btree_get (pp_by_id p) (vt_transaction_id tx) = None"
    and p': "p' = p\<lparr>pp_submission_id := pp_submission_id p + 1,
        pp_by_id := btree_insert (vt_transaction_id tx) ?t (pp_by_id p),
        pp_all := btree_set_insert (pending_key ?t) ?t (pp_all p),
        pp_independent := (if pending_ancestor (vt_transaction_id tx) p = None
          then btree_set_insert (pending_key ?t) ?t (pp_independent p) else pp_independent p),
        pp_size_of := pp_size_of p + of_nat (vt_size tx)\<rparr>"
    by (auto simp: pending_add_transaction_def pending_next_id_def size_add_def Let_def pending_ancestor_def
        split: if_splits option.splits)
  have idx: "idx_inv pending_key pr_submission_id (\<lambda>r. vt_transaction_id (pr_transaction r)) n (pp_by_id p) (pp_all p)"
    and wf: "btree_wf (pp_independent p)" and sub: "set (pp_independent p) \<subseteq> set (pp_all p)"
    using assms(1) by (simp_all add: pending_inv_def)
  have idx': "idx_inv pending_key pr_submission_id (\<lambda>r. vt_transaction_id (pr_transaction r)) (Suc n)
      (pp_by_id p') (pp_all p')"
    using pending_index.idx_add [OF idx, of ?t] new assms(1,3) unfolding p' by (simp add: pending_inv_def)
  then have "set (pp_all p') = insert (pending_key ?t, ?t) (set (pp_all p))"
    using idx new unfolding idx_inv_def p' by (simp add: set_btree_insert_fresh)
  then have "set (pp_independent p') \<subseteq> set (pp_all p')"
    using sub set_btree_set_insert [of "pending_key ?t" ?t "pp_independent p"] unfolding p' by auto
  moreover have "btree_wf (pp_independent p')"
    using wf unfolding p' by (simp add: btree_wf_set_insert)
  moreover have "pp_size_of p' = (\<Sum>(i, t) \<leftarrow> pp_by_id p'. of_nat (vt_size (pr_transaction t)))"
    using assms(1) new unfolding p' by (simp add: pending_inv_def sum_list_btree_insert add.commute)
  ultimately show ?thesis
    using idx' assms(1) unfolding pending_inv_def by (simp add: p')
qed

lemma pending_remove_inv:
  assumes "pending_inv n p"
  shows "pending_inv n (snd (pending_remove_transaction i p))"
proof (cases "btree_get (pp_by_id p) i")
  case None
  with assms show ?thesis
    by (simp add: pending_remove_transaction_def)
next
  case (Some t)
  have "btree_wf (pp_by_id p)"
    using assms by (simp add: pending_inv_def idx_inv_def)
  from sum_list_btree_remove [OF this Some, of "\<lambda>(i, t). of_nat (vt_size (pr_transaction t)) :: u64"]
  show ?thesis
    using assms Some pending_index.idx_remove [of n "pp_by_id p" "pp_all p" i t]
    by (auto simp: pending_inv_def pending_remove_transaction_def size_sub_def btree_wf_remove set_btree_remove)
qed

lemma pending_pop_worst_inv: "pending_inv n p \<Longrightarrow> pending_inv n (snd (pending_pop_worst p))"
  by (simp add: pending_pop_worst_def pending_remove_inv)

lemma pending_remove_mined_inv:
  assumes "pending_inv n p"
  shows "pending_inv n (snd (pending_remove_mined i p))"
proof -
  have "set (btree_set_insert (pending_key u) u (pp_independent p)) \<subseteq> set (pp_all p)"
    if "btree_get (pp_by_id p) (tid_descendant i) = Some u" for u
    using set_btree_set_insert [of "pending_key u" u "pp_independent p"] assms
      pending_index.idx_mem [OF _ that, of n "pp_all p"] unfolding pending_inv_def by blast
  then have "pending_inv n (case btree_get (pp_by_id p) (tid_descendant i) of
      Some u \<Rightarrow> p\<lparr>pp_independent := btree_set_insert (pending_key u) u (pp_independent p)\<rparr> | None \<Rightarrow> p)"
    using assms by (auto simp: pending_inv_def btree_wf_set_insert split: option.splits)
  then show ?thesis
    by (simp add: pending_remove_mined_def pending_remove_inv)
qed

section \<open>The interface to the pool\<close>

definition parked_look :: "'k parked_pool \<Rightarrow> transaction_id \<rightharpoonup> valid_pool_transaction" where
  "parked_look p i = map_option pk_transaction (btree_get (pk_by_id p) i)"

definition parked_ok :: "'k parked_pool \<Rightarrow> bool" where
  "parked_ok p \<longleftrightarrow> btree_wf (pk_by_id p)"

definition pending_look :: "'k pending_pool \<Rightarrow> transaction_id \<rightharpoonup> valid_pool_transaction" where
  "pending_look p i = map_option pr_transaction (btree_get (pp_by_id p) i)"

definition pending_ok :: "'k pending_pool \<Rightarrow> bool" where
  "pending_ok p \<longleftrightarrow> btree_wf (pp_by_id p)"

locale sub_pool_interface =
  fixes look :: "'p \<Rightarrow> transaction_id \<rightharpoonup> valid_pool_transaction"
    and add :: "valid_pool_transaction \<Rightarrow> 'p \<Rightarrow> 'p option"
    and remove :: "transaction_id \<Rightarrow> 'p \<Rightarrow> valid_pool_transaction option \<times> 'p"
    and ok :: "'p \<Rightarrow> bool"
  assumes add_panics: "add tx p = None \<longleftrightarrow> look p (vt_transaction_id tx) \<noteq> None"
    and add_look: "ok p \<Longrightarrow> add tx p = Some p' \<Longrightarrow> look p' = (look p)(vt_transaction_id tx \<mapsto> tx) \<and> ok p'"
    and remove_look: "ok p \<Longrightarrow> remove i p = (r, p') \<Longrightarrow> r = look p i \<and> look p' = (look p)(i := None) \<and> ok p'"
begin

lemma add_fresh: "ok p \<Longrightarrow> look p (vt_transaction_id tx) = None \<Longrightarrow>
    \<exists>p'. add tx p = Some p' \<and> look p' = (look p)(vt_transaction_id tx \<mapsto> tx) \<and> ok p'"
  using add_panics [of tx p] add_look [of p tx] by auto

lemma add_remove:
  assumes "ok p" and "add tx p = Some p'"
  shows "fst (remove (vt_transaction_id tx) p') = Some tx \<and> look (snd (remove (vt_transaction_id tx) p')) = look p"
proof -
  have "look p (vt_transaction_id tx) = None"
    using assms(2) add_panics [of tx p] by simp
  then show ?thesis
    using add_look [OF assms] remove_look [of p' "vt_transaction_id tx" "fst (remove (vt_transaction_id tx) p')"
        "snd (remove (vt_transaction_id tx) p')"]
    by (auto simp: fun_eq_iff)
qed

lemma remove_fst: "ok p \<Longrightarrow> fst (remove i p) = look p i"
  using remove_look [of p i "fst (remove i p)" "snd (remove i p)"] by simp

lemma remove_snd: "ok p \<Longrightarrow> look (snd (remove i p)) = (look p)(i := None) \<and> ok (snd (remove i p))"
  using remove_look [of p i "fst (remove i p)" "snd (remove i p)"] by simp

end

interpretation parked_pool: sub_pool_interface parked_look "parked_add_transaction ord_key"
    "parked_remove_transaction ord_key" parked_ok for ord_key :: "valid_pool_transaction \<Rightarrow> 'k::linorder"
  by unfold_locales
    (auto simp: parked_look_def parked_ok_def parked_add_transaction_def parked_remove_transaction_def
      parked_next_id_def Let_def btree.get_ins btree.get_del btree_wf_insert btree_wf_remove fun_eq_iff
      split: if_splits option.splits)

interpretation pending_pool: sub_pool_interface pending_look "pending_add_transaction priority"
    pending_remove_transaction pending_ok for priority :: "pooled_transaction \<Rightarrow> 'k::linorder"
  by unfold_locales
    (auto simp: pending_look_def pending_ok_def pending_add_transaction_def pending_remove_transaction_def
      pending_next_id_def Let_def btree.get_ins btree.get_del btree_wf_insert btree_wf_remove fun_eq_iff
      split: if_splits option.splits)

section \<open>Runs of operations\<close>

datatype parked_op = Op_Add valid_pool_transaction | Op_Remove transaction_id | Op_Pop

fun parked_run ::
    "(valid_pool_transaction \<Rightarrow> 'k::linorder) \<Rightarrow> parked_op list \<Rightarrow> 'k parked_pool \<Rightarrow> 'k parked_pool option" where
  "parked_run ord_key [] p = Some p"
| "parked_run ord_key (Op_Add tx # ops) p =
     (case parked_add_transaction ord_key tx p of None \<Rightarrow> None | Some p \<Rightarrow> parked_run ord_key ops p)"
| "parked_run ord_key (Op_Remove i # ops) p =
     parked_run ord_key ops (snd (parked_remove_transaction ord_key i p))"
| "parked_run ord_key (Op_Pop # ops) p = parked_run ord_key ops (snd (parked_pop_worst ord_key p))"

lemma parked_inv_default: "parked_inv ord_key 0 parked_default"
  by (simp add: parked_inv_def parked_default_def parked_index.idx_empty)

lemma parked_run_inv:
  "parked_inv ord_key n p \<Longrightarrow> parked_run ord_key ops p = Some p' \<Longrightarrow> n + length ops < 2 ^ 64 \<Longrightarrow>
   \<exists>m. parked_inv ord_key m p'"
proof (induction ord_key ops p arbitrary: n rule: parked_run.induct)
  case (2 ord_key tx ops p)
  then obtain q where "parked_add_transaction ord_key tx p = Some q"
    by (auto split: option.splits)
  with 2 parked_add_inv [OF 2(2) this] show ?case
    by auto
next
  case (3 ord_key i ops p)
  then show ?case
    using parked_remove_inv by fastforce
next
  case (4 ord_key ops p)
  then show ?case
    using parked_pop_worst_inv by fastforce
qed auto

lemma idx_values: "idx_inv key sid tid n by_id s \<Longrightarrow> snd ` set s = snd ` set by_id"
  by (auto simp: idx_inv_def image_image)

lemma parked_pop_worst_least:
  assumes inv: "parked_inv ord_key n p" and pop: "parked_pop_worst ord_key p = (Some tx, p')"
    and t: "t \<in> snd ` set (pk_by_id p)"
  shows "ord_key tx \<le> ord_key (pk_transaction t)"
proof -
  have idx: "idx_inv (parked_key ord_key) pk_submission_id (\<lambda>t. vt_transaction_id (pk_transaction t)) n
      (pk_by_id p) (pk_best p)"
    using inv by (simp add: parked_inv_def)
  from pop obtain k w rest where best: "pk_best p = (k, w) # rest"
    by (auto simp: parked_pop_worst_def split: list.splits)
  from parked_index.idx_get [OF idx, of k w] have w: "btree_get (pk_by_id p) (vt_transaction_id (pk_transaction w)) = Some w"
    "k = parked_key ord_key w"
    by (simp_all add: best)
  then have tx: "tx = pk_transaction w"
    using pop by (simp add: parked_pop_worst_def best parked_remove_transaction_def)
  obtain k' where t': "(k', t) \<in> set (pk_best p)"
    using t idx_values [OF idx] by force
  then have "k \<le> k'"
    using idx best by (auto simp: idx_inv_def btree_wf_def)
  then show ?thesis
    using w(2) parked_index.idx_get [OF idx t'] tx
    by (auto simp: parked_key_def less_eq_prod_def)
qed

lemma btree_last_greatest: "btree_wf m \<Longrightarrow> e \<in> set m \<Longrightarrow> fst e \<le> fst (last m)"
  by (induction m) (auto simp: btree_wf_def intro: less_imp_le)

section \<open>Dependencies of the best transactions\<close>

text \<open>Every transaction in \<open>s\<close> has no ancestor in the pool, or one whose identifier is in \<open>seen\<close>.\<close>

definition deps_met ::
    "(transaction_id, 'k pending_transaction_ref) btree \<Rightarrow> transaction_id set \<Rightarrow> transaction_id \<Rightarrow> bool" where
  "deps_met all seen i \<longleftrightarrow>
     (case unchecked_ancestor i of None \<Rightarrow> True | Some a \<Rightarrow> btree_get all a = None \<or> a \<in> seen)"

definition best_inv :: "transaction_id set \<Rightarrow> 'k best_transactions \<Rightarrow> bool" where
  "best_inv seen b \<longleftrightarrow>
     (\<forall>i r. btree_get (bt_all b) i = Some r \<longrightarrow> vt_transaction_id (pr_transaction r) = i) \<and>
     (\<forall>k r. (k, r) \<in> set (bt_independent b) \<longrightarrow>
        deps_met (bt_all b) seen (vt_transaction_id (pr_transaction r)))"

lemma deps_met_mono: "deps_met all seen i \<Longrightarrow> seen \<subseteq> seen' \<Longrightarrow> deps_met all seen' i"
  by (auto simp: deps_met_def split: option.splits)

lemma best_inv_mono: "best_inv seen b \<Longrightarrow> seen \<subseteq> seen' \<Longrightarrow> best_inv seen' b"
  unfolding best_inv_def using deps_met_mono by blast

lemma deps_met_descendant: "deps_met all (insert i seen) (tid_descendant i)"
  by (cases i) (simp add: deps_met_def unchecked_ancestor_def tid_descendant_def)

lemma best_next_inv:
  "best_inv seen b \<Longrightarrow> best_next b = (Some t, b') \<Longrightarrow>
   deps_met (bt_all b) seen (vt_transaction_id t) \<and> bt_all b' = bt_all b \<and>
   best_inv (insert (vt_transaction_id t) seen) b'"
proof (induction b rule: best_next.induct)
  case (1 b)
  let ?best = "snd (last (bt_independent b))"
  let ?b = "b\<lparr>bt_independent := butlast (bt_independent b)\<rparr>"
  have ne: "bt_independent b \<noteq> []"
    using 1(3) by (auto simp: best_next.simps [of b])
  have inv: "best_inv seen ?b"
    using 1(2) by (auto simp: best_inv_def dest: in_set_butlastD)
  have best: "deps_met (bt_all b) seen (vt_transaction_id (pr_transaction ?best))"
    using 1(2) last_in_set [OF ne] unfolding best_inv_def by (metis prod.collapse)
  show ?case
  proof (cases "vt_hash (pr_transaction ?best) \<in> bt_invalid b")
    case True
    then show ?thesis
      using 1(1) [OF ne refl refl] 1(3) ne inv by (simp add: best_next.simps [of b])
  next
    case False
    let ?b' = "case btree_get (bt_all b) (unlocks ?best) of
        Some u \<Rightarrow> ?b\<lparr>bt_independent := btree_set_insert (pending_key u) u (bt_independent ?b)\<rparr> | None \<Rightarrow> ?b"
    have t: "t = pr_transaction ?best" "b' = ?b'"
      using 1(3) ne False by (simp_all add: best_next.simps [of b] Let_def)
    have "best_inv (insert (vt_transaction_id t) seen) ?b"
      using inv by (rule best_inv_mono) blast
    moreover have "deps_met (bt_all b) (insert (vt_transaction_id t) seen) (vt_transaction_id (pr_transaction u))"
      if "btree_get (bt_all b) (unlocks ?best) = Some u" for u
      using that 1(2) deps_met_descendant [of "bt_all b" "vt_transaction_id t" seen]
      by (simp add: best_inv_def unlocks_def t(1))
    ultimately have "best_inv (insert (vt_transaction_id t) seen) ?b'"
      using set_btree_set_insert
      by (fastforce simp: best_inv_def split: option.splits)
    then show ?thesis
      using best t by (auto split: option.splits)
  qed
qed

lemma best_run_deps:
  "best_inv seen b \<Longrightarrow> i < length (best_run n b) \<Longrightarrow>
   deps_met (bt_all b) (seen \<union> vt_transaction_id ` set (take i (best_run n b))) (vt_transaction_id (best_run n b ! i))"
proof (induction n arbitrary: seen b i)
  case (Suc n)
  obtain t b' where next_: "best_next b = (Some t, b')"
    using Suc.prems(2) by (cases "best_next b") (auto split: option.splits)
  note inv = best_next_inv [OF Suc.prems(1) next_]
  show ?case
  proof (cases i)
    case 0
    then show ?thesis
      using inv next_ by simp
  next
    case (Suc j)
    then show ?thesis
      using inv next_ Suc.IH [of "insert (vt_transaction_id t) seen" b' j] Suc.prems(2) by simp
  qed
qed simp

lemma best_next_empty: "bt_independent b = [] \<Longrightarrow> best_next b = (None, b)"
  by (simp add: best_next.simps [of b])

lemma best_next_yields:
  "bt_independent b \<noteq> [] \<Longrightarrow> vt_hash (pr_transaction (snd (last (bt_independent b)))) \<notin> bt_invalid b \<Longrightarrow>
   best_next b =
     (let best = snd (last (bt_independent b)); rest = butlast (bt_independent b)
      in (Some (pr_transaction best),
          b\<lparr>bt_independent := (case btree_get (bt_all b) (unlocks best) of
               Some u \<Rightarrow> btree_set_insert (pending_key u) u rest | None \<Rightarrow> rest)\<rparr>))"
  by (simp add: best_next.simps [of b] Let_def split: option.splits)

lemmas best_next_steps = best_next_empty best_next_yields

section \<open>An example\<close>

definition example_capped :: "u128 \<Rightarrow> u64 \<Rightarrow> u256 \<Rightarrow> valid_pool_transaction" where
  "example_capped cap n cost =
     (let tx = Eip1559 \<lparr>df_chain_id = 1, df_nonce = n, df_gas_limit = 21000, df_max_fee_per_gas = cap,
            df_max_priority_fee_per_gas = 2, df_to = Create, df_value = 0, df_access_list = [], df_input = []\<rparr>
      in \<lparr>vt_transaction = \<lparr>pt_transaction = \<lparr>er_signer = [],
              er_signed_transaction = \<lparr>ts_hash = [ucast n],
                ts_signature = \<lparr>sig_r = 0, sig_s = 0, sig_odd_y_parity = False\<rparr>, ts_transaction = tx\<rparr>\<rparr>,
            pt_cost = cost, pt_effective_gas_price = 2\<rparr>,
          vt_transaction_id = Tx_Id 0 n, vt_propagate = False, vt_cost = cost, vt_timestamp = 0,
          vt_origin = External, vt_encoded_length = 0\<rparr>)"

definition example_valid :: "u64 \<Rightarrow> u256 \<Rightarrow> valid_pool_transaction" where
  "example_valid = example_capped 100"

lemmas example_defs = example_valid_def example_capped_def

definition example_pending :: "u256 pending_pool" where
  "example_pending =
     the (pending_add_transaction pt_cost (example_valid 1 9)
       (the (pending_add_transaction pt_cost (example_valid 0 5) pending_new)))"

lemma example_pending_eq:
  "example_pending =
     (let r0 = \<lparr>pr_submission_id = 0, pr_transaction = example_valid 0 5, pr_priority = 5\<rparr>;
          r1 = \<lparr>pr_submission_id = 1, pr_transaction = example_valid 1 9, pr_priority = 9\<rparr>
      in \<lparr>pp_submission_id = 2, pp_by_id = [(Tx_Id 0 0, r0), (Tx_Id 0 1, r1)],
          pp_all = [((5, 0), r0), ((9, - 1), r1)], pp_independent = [((5, 0), r0)], pp_size_of = 0\<rparr>)"
  by (simp add: example_pending_def pending_add_transaction_def pending_new_def example_defs btree_get_def
      pending_next_id_def pending_ancestor_def unchecked_ancestor_def btree_set_insert_def pending_key_def
      size_add_def vt_size_def pt_size_def pt_inner_def less_transaction_id_def Let_def)

lemma vt_id_example: "vt_transaction_id (example_valid n c) = Tx_Id 0 n"
  by (simp add: example_defs Let_def)

lemma vt_hash_example: "vt_hash (example_valid n c) = [ucast n]"
  by (simp add: example_defs vt_hash_def pt_hash_def Let_def)

lemma best_run_numeral: "best_run (numeral n) b =
    (case best_next b of (None, _) \<Rightarrow> [] | (Some t, b) \<Rightarrow> t # best_run (pred_numeral n) b)"
  by (simp add: numeral_eq_Suc)

lemma pending_inv_new: "pending_inv 0 pending_new"
  by (simp add: pending_inv_def pending_new_def pending_index.idx_empty btree_wf_def)

lemma example_pending_inv: "pending_inv 2 example_pending"
proof -
  obtain p where p: "pending_add_transaction pt_cost (example_valid 0 5) pending_new = Some (p :: u256 pending_pool)"
    by (simp add: pending_add_transaction_def pending_new_def pending_next_id_def btree_get_def Let_def)
  then have inv: "pending_inv 1 p"
    using pending_add_inv [OF pending_inv_new p] by simp
  have "pending_add_transaction pt_cost (example_valid 1 9) p = Some example_pending"
    using p by (auto simp: example_pending_def pending_add_transaction_def pending_new_def pending_next_id_def
        btree_get_def vt_id_example Let_def)
  from pending_add_inv [OF inv this] have "pending_inv (Suc 1) example_pending"
    by simp
  then show ?thesis
    by (simp add: numeral_2_eq_2)
qed

section \<open>Properties\<close>

text \<open>C27. A parked pool is a bijection, as its documentation says: after any sequence of fewer than
  \<open>2 ^ 64\<close> operations that does not panic the sorted set and the map by identifier hold the same
  transactions, the tracked size is the sum of their sizes, and the worst transaction is a least one in
  the order of the pool. It holds for both orders.\<close>

theorem parked_pool_bijection:
  assumes "parked_run ord_key ops parked_default = Some p" and "length ops < 2 ^ 64"
  shows "snd ` set (pk_best p) = snd ` set (pk_by_id p) \<and> length (pk_best p) = parked_len p \<and>
    pk_size_of p = (\<Sum>(i, t) \<leftarrow> pk_by_id p. of_nat (vt_size (pk_transaction t))) \<and>
    (\<forall>tx p'. parked_pop_worst ord_key p = (Some tx, p') \<longrightarrow>
       (\<forall>t \<in> snd ` set (pk_by_id p). ord_key tx \<le> ord_key (pk_transaction t)))"
proof -
  obtain m where inv: "parked_inv ord_key m p"
    using parked_run_inv [OF parked_inv_default assms(1)] assms(2) by auto
  then have idx: "idx_inv (parked_key ord_key) pk_submission_id (\<lambda>t. vt_transaction_id (pk_transaction t)) m
      (pk_by_id p) (pk_best p)"
    by (simp add: parked_inv_def)
  show ?thesis
    using idx_values [OF idx] parked_index.idx_length [OF idx] inv parked_pop_worst_least [OF inv]
    by (simp add: parked_len_def parked_inv_def)
qed

theorem parked_pool_bijection_witness:
  "\<exists>p. parked_run queued_ord [Op_Add (example_valid 0 5), Op_Add (example_valid 1 9), Op_Pop] parked_default = Some p \<and>
     snd ` set (pk_best p) = snd ` set (pk_by_id p) \<and> parked_len p = 1"
proof -
  have "\<exists>p. parked_run queued_ord [Op_Add (example_valid 0 5), Op_Add (example_valid 1 9), Op_Pop] parked_default = Some p
      \<and> parked_len p = 1"
    by (simp add: parked_default_def parked_add_transaction_def parked_next_id_def btree_get_def example_defs
        btree_set_insert_def parked_key_def queued_ord_def parked_pop_worst_def parked_remove_transaction_def
        less_transaction_id_def btree_remove_def parked_len_def Let_def)
  then obtain p where p: "parked_run queued_ord [Op_Add (example_valid 0 5), Op_Add (example_valid 1 9), Op_Pop]
      parked_default = Some p" "parked_len p = 1"
    by blast
  from parked_pool_bijection [OF p(1)] p show ?thesis
    by auto
qed



text \<open>C40. \<open>pop_worst\<close> of the pending pool, which the pool calls to shrink, removes a transaction of the
  greatest priority: the set iterates in ascending order and the code takes its last element.\<close>

theorem pending_pop_worst_takes_best:
  assumes "pending_inv n p" and "pending_pop_worst p = (Some tx, p')"
  shows "\<exists>w \<in> snd ` set (pp_by_id p). tx = pr_transaction w \<and>
    (\<forall>r \<in> snd ` set (pp_by_id p). pr_priority r \<le> pr_priority w) \<and>
    btree_get (pp_by_id p') (vt_transaction_id tx) = None"
proof -
  have ne: "pp_all p \<noteq> []"
    using assms(2) by (auto simp: pending_pop_worst_def)
  have idx: "idx_inv pending_key pr_submission_id (\<lambda>r. vt_transaction_id (pr_transaction r)) n (pp_by_id p) (pp_all p)"
    using assms(1) by (simp add: pending_inv_def)
  obtain k w where last: "last (pp_all p) = (k, w)"
    by (cases "last (pp_all p)")
  then have mem: "(k, w) \<in> set (pp_all p)"
    using last_in_set [OF ne] by simp
  from pending_index.idx_get [OF idx mem]
  have w: "btree_get (pp_by_id p) (vt_transaction_id (pr_transaction w)) = Some w" "k = pending_key w"
    by simp_all
  have tx: "tx = pr_transaction w" and p': "pp_by_id p' = btree_remove (vt_transaction_id tx) (pp_by_id p)"
    using assms(2) ne w(1) last by (auto simp: pending_pop_worst_def pending_remove_transaction_def)
  have "pr_priority r \<le> pr_priority w" if r: "r \<in> snd ` set (pp_by_id p)" for r
  proof -
    obtain k' where k': "(k', r) \<in> set (pp_all p)"
      using r idx_values [OF idx] by force
    have "k' \<le> k"
      using btree_last_greatest [OF _ k'] idx last by (simp add: idx_inv_def)
    then show ?thesis
      using w(2) pending_index.idx_get [OF idx k'] by (auto simp: pending_key_def less_eq_prod_def)
  qed
  moreover have "w \<in> snd ` set (pp_by_id p)"
    using mem idx_values [OF idx] by force
  moreover have "btree_get (pp_by_id p') (vt_transaction_id tx) = None"
    by (auto simp: p' btree_get_None_iff set_btree_remove)
  ultimately show ?thesis
    using tx by blast
qed

theorem pending_pop_worst_takes_best_witness:
  "\<exists>p'. pending_pop_worst example_pending = (Some (example_valid 1 9), p') \<and>
     (\<exists>w \<in> snd ` set (pp_by_id example_pending). example_valid 1 9 = pr_transaction w \<and>
       (\<forall>r \<in> snd ` set (pp_by_id example_pending). pr_priority r \<le> pr_priority w))"
proof -
  obtain p' where p': "pending_pop_worst example_pending = (Some (example_valid 1 9), p')"
    by (simp add: example_pending_eq pending_pop_worst_def pending_remove_transaction_def vt_id_example btree_get_def
        Let_def)
  then show ?thesis
    using pending_pop_worst_takes_best [OF example_pending_inv p'] by blast
qed

text \<open>Removing a transaction with \<open>remove_transaction\<close>, as the handler of a new block does, leaves its
  descendant in the pool and out of the independent ones, so the iterator yields nothing;
  \<open>remove_mined\<close> would have unlocked it.\<close>

theorem remove_transaction_strands_descendant:
  "pending_len (snd (pending_remove_transaction (Tx_Id 0 0) example_pending)) = 1 \<and>
   best_run 5 (pending_best (snd (pending_remove_transaction (Tx_Id 0 0) example_pending))) = [] \<and>
   best_run 5 (pending_best (snd (pending_remove_mined (Tx_Id 0 0) example_pending))) = [example_valid 1 9]"
  by (simp add: example_pending_eq pending_remove_transaction_def pending_remove_mined_def tid_descendant_def
      best_run_numeral best_next_steps pending_best_def unlocks_def vt_id_example btree_get_def btree_set_insert_def
      pending_key_def pending_len_def btree_remove_def Let_def)

text \<open>A transaction marked as invalid after the iterator yielded it does not keep its descendant from being
  yielded: the descendant was unlocked when the transaction was.\<close>

theorem mark_invalid_keeps_unlocked:
  "fst (best_next (mark_invalid (example_valid 0 5) (snd (best_next (pending_best example_pending))))) =
     Some (example_valid 1 9)"
  by (simp add: example_pending_eq mark_invalid_def best_next_steps pending_best_def unlocks_def vt_id_example
      btree_get_def btree_set_insert_def pending_key_def tid_descendant_def vt_hash_example Let_def)

end
