(* ===== verification/AllTransactions.thy ===== *)
theory AllTransactions
  imports SubPools
begin

text \<open>
  The container of all transactions of the pool, \<^verbatim>\<open>AllTransactions\<close> of
  \<^verbatim>\<open>crates/transaction-pool/src/pool/txpool.rs\<close>. The three maps are kept as the code has them:
  transactions by hash, transactions sorted by sender and nonce, and the number of transactions of each
  sender. The iterators over a range of the sorted map are the corresponding parts of the list.
\<close>

section \<open>State\<close>

record pool_internal_transaction =
  it_transaction :: valid_pool_transaction
  it_subpool :: sub_pool
  it_state :: tx_state
  it_cumulative_cost :: u256

definition next_cumulative_cost :: "pool_internal_transaction \<Rightarrow> u256" where
  "next_cumulative_cost tx = it_cumulative_cost tx + vt_cost (it_transaction tx)"

type_synonym pool_txs = "(transaction_id, pool_internal_transaction) btree"

record all_transactions =
  at_pending_basefee :: u128
  at_minimal_protocol_basefee :: u128
  at_block_gas_limit :: u64
  at_max_account_slots :: nat
  at_by_hash :: "h256 \<rightharpoonup> valid_pool_transaction"
  at_txs :: pool_txs
  at_tx_counter :: "sender_id \<rightharpoonup> nat"

definition MIN_PROTOCOL_BASE_FEE :: u128 where
  "MIN_PROTOCOL_BASE_FEE = 7"

definition at_new :: "nat \<Rightarrow> all_transactions" where
  "at_new slots =
     \<lparr>at_pending_basefee = 0, at_minimal_protocol_basefee = MIN_PROTOCOL_BASE_FEE,
      at_block_gas_limit = 30000000, at_max_account_slots = slots, at_by_hash = Map.empty, at_txs = [],
      at_tx_counter = Map.empty\<rparr>"

datatype insert_err =
    Err_Underpriced valid_pool_transaction h256
  | Err_ProtocolFeeCapTooLow valid_pool_transaction u128
  | Err_ExceededSenderTransactionsCapacity valid_pool_transaction
  | Err_TxGasLimitMoreThanAvailableBlockGas valid_pool_transaction u64 u64

record insert_ok =
  io_transaction :: valid_pool_transaction
  io_move_to :: sub_pool
  io_state :: tx_state
  io_replaced_tx :: "(valid_pool_transaction \<times> sub_pool) option"
  io_updates :: "pool_update list"

section \<open>Operations\<close>

definition at_contains :: "all_transactions \<Rightarrow> h256 \<Rightarrow> bool" where
  "at_contains a tx_hash \<longleftrightarrow> at_by_hash a tx_hash \<noteq> None"

definition at_len :: "all_transactions \<Rightarrow> nat" where
  "at_len a = length (at_txs a)"

definition tx_inc :: "sender_id \<Rightarrow> all_transactions \<Rightarrow> all_transactions" where
  "tx_inc sender a =
     (let count = (case at_tx_counter a sender of Some c \<Rightarrow> c | None \<Rightarrow> 0)
      in a\<lparr>at_tx_counter := (at_tx_counter a)(sender \<mapsto> count + 1)\<rparr>)"

text \<open>A stored counter is never 0, so the subtraction does not wrap.\<close>

definition tx_decr :: "sender_id \<Rightarrow> all_transactions \<Rightarrow> all_transactions" where
  "tx_decr sender a =
     (case at_tx_counter a sender of
        None \<Rightarrow> a
      | Some count \<Rightarrow>
          if count = 1 then a\<lparr>at_tx_counter := (at_tx_counter a)(sender := None)\<rparr>
          else a\<lparr>at_tx_counter := (at_tx_counter a)(sender \<mapsto> count - 1)\<rparr>)"

text \<open>The updates to push and the updated transaction.\<close>

definition record_subpool_update ::
    "pool_internal_transaction \<Rightarrow> pool_update list \<times> pool_internal_transaction" where
  "record_subpool_update tx =
     (let current_pool = it_subpool tx;
          tx = tx\<lparr>it_subpool := sub_pool_of (it_state tx)\<rparr>
      in (if current_pool \<noteq> it_subpool tx
          then [\<lparr>pu_id = vt_transaction_id (it_transaction tx), pu_hash = vt_hash (it_transaction tx),
                 pu_current = current_pool, pu_destination = Pool (it_subpool tx)\<rparr>]
          else [], tx))"

definition at_update_base_fee :: "u128 \<Rightarrow> pool_internal_transaction \<Rightarrow> pool_internal_transaction" where
  "at_update_base_fee pending_block_base_fee tx =
     (case vt_max_fee_per_gas (it_transaction tx) of
        None \<Rightarrow> tx
      | Some fee_cap \<Rightarrow>
          if fee_cap \<ge> pending_block_base_fee
          then tx\<lparr>it_state := state_insert ENOUGH_FEE_CAP_BLOCK (it_state tx)\<rparr>
          else tx\<lparr>it_state := state_remove ENOUGH_FEE_CAP_BLOCK (it_state tx)\<rparr>)"

definition set_parked_ancestor :: "bool \<Rightarrow> pool_internal_transaction \<Rightarrow> pool_internal_transaction" where
  "set_parked_ancestor has_parked_ancestor tx =
     (if has_parked_ancestor
      then tx\<lparr>it_state := state_remove NO_PARKED_ANCESTORS (it_state tx)\<rparr>
      else tx\<lparr>it_state := state_insert NO_PARKED_ANCESTORS (it_state tx)\<rparr>)"

text \<open>
  The inner loop of \<open>update\<close> over the transactions that follow the first one of a sender: the
  transactions it passes, the updates it pushes and where the iterator stands afterwards.
\<close>

fun update_consecutive ::
    "u128 \<Rightarrow> sender_id \<Rightarrow> bool \<Rightarrow> pool_txs \<Rightarrow> pool_txs \<times> pool_update list \<times> pool_txs" where
  "update_consecutive fee sender has_parked_ancestor [] = ([], [], [])"
| "update_consecutive fee sender has_parked_ancestor ((peek, tx) # iter) =
     (if tid_sender peek \<noteq> sender then ([], [], (peek, tx) # iter)
      else if has_nonce_gap (it_state tx)
      then (takeWhile (\<lambda>e. tid_sender (fst e) = sender) ((peek, tx) # iter), [],
            dropWhile (\<lambda>e. tid_sender (fst e) = sender) ((peek, tx) # iter))
      else
        (let tx = set_parked_ancestor has_parked_ancestor tx;
             has_parked_ancestor = \<not> is_pending (it_state tx);
             tx = at_update_base_fee fee tx;
             (pushed, tx) = record_subpool_update tx;
             (done, updates, rest) = update_consecutive fee sender has_parked_ancestor iter
         in ((peek, tx) # done, pushed @ updates, rest)))"

lemma update_consecutive_rest_length:
  "length (snd (snd (update_consecutive fee sender parked m))) \<le> length m"
  by (induction m arbitrary: parked)
    (auto simp: Let_def split_beta le_SucI length_dropWhile_le)

text \<open>The loop over the senders.\<close>

function update_senders :: "u128 \<Rightarrow> pool_txs \<Rightarrow> pool_txs \<times> pool_update list" where
  "update_senders fee [] = ([], [])"
| "update_senders fee ((i, tx) # iter) =
     (if has_nonce_gap (it_state tx)
      then
        (let (rest, updates) = update_senders fee (dropWhile (\<lambda>e. tid_sender (fst e) = tid_sender i) iter)
         in ((i, tx) # takeWhile (\<lambda>e. tid_sender (fst e) = tid_sender i) iter @ rest, updates))
      else
        (let tx = tx\<lparr>it_state := state_insert NO_PARKED_ANCESTORS (it_state tx)\<rparr>;
             tx = at_update_base_fee fee tx;
             (pushed, tx) = record_subpool_update tx;
             (done, updates, rest) = update_consecutive fee (tid_sender i) (\<not> is_pending (it_state tx)) iter;
             (rest, more) = update_senders fee rest
         in ((i, tx) # done @ rest, pushed @ updates @ more)))"
  by pat_completeness auto

termination
proof (relation "measure (\<lambda>(fee, m). length m)", goal_cases)
  case (2 fee i tx iter)
  then show ?case
    using length_dropWhile_le [of "\<lambda>e. tid_sender (fst e) = tid_sender i" iter] by simp
next
  case (3 fee i tx iter x xa xb pushed tx' xc passed y updates rest)
  have "rest = snd (snd (update_consecutive fee (tid_sender i) (\<not> is_pending (it_state tx')) iter))"
    using 3(6-8) by (metis snd_conv)
  then show ?case
    by (simp add: le_imp_less_Suc update_consecutive_rest_length)
qed simp

definition at_update :: "u128 \<Rightarrow> all_transactions \<Rightarrow> pool_update list \<times> all_transactions" where
  "at_update pending_block_base_fee a =
     (let a = a\<lparr>at_pending_basefee := pending_block_base_fee\<rparr>;
          (m, updates) = update_senders pending_block_base_fee (at_txs a)
      in (updates, a\<lparr>at_txs := m\<rparr>))"

definition same_sender :: "transaction_id \<Rightarrow> transaction_id \<times> 'a \<Rightarrow> bool" where
  "same_sender i e \<longleftrightarrow> tid_sender i = tid_sender (fst e)"

definition descendant_txs_exclusive :: "transaction_id \<Rightarrow> all_transactions \<Rightarrow> pool_txs" where
  "descendant_txs_exclusive i a = takeWhile (same_sender i) (filter (\<lambda>e. i < fst e) (at_txs a))"

definition descendant_txs :: "transaction_id \<Rightarrow> all_transactions \<Rightarrow> pool_txs" where
  "descendant_txs i a = takeWhile (same_sender i) (filter (\<lambda>e. i \<le> fst e) (at_txs a))"

text \<open>Replaces the transactions that \<open>descendant_txs_mut\<close> gives access to.\<close>

definition set_descendant_txs :: "transaction_id \<Rightarrow> pool_txs \<Rightarrow> all_transactions \<Rightarrow> all_transactions" where
  "set_descendant_txs i ds a =
     a\<lparr>at_txs := filter (\<lambda>e. fst e < i) (at_txs a) @ ds @
        dropWhile (same_sender i) (filter (\<lambda>e. i \<le> fst e) (at_txs a))\<rparr>"

definition at_remove_transaction_by_hash ::
    "h256 \<Rightarrow> all_transactions \<Rightarrow> (valid_pool_transaction \<times> sub_pool) option \<times> all_transactions" where
  "at_remove_transaction_by_hash tx_hash a =
     (case at_by_hash a tx_hash of
        None \<Rightarrow> (None, a)
      | Some tx \<Rightarrow>
          (let a = a\<lparr>at_by_hash := (at_by_hash a)(tx_hash := None)\<rparr> in
           case btree_get (at_txs a) (vt_transaction_id tx) of
             None \<Rightarrow> (None, a)
           | Some internal \<Rightarrow>
               (let a = a\<lparr>at_txs := btree_remove (vt_transaction_id tx) (at_txs a)\<rparr>
                in (Some (tx, it_subpool internal), tx_decr (vt_sender_id tx) a))))"

definition at_remove_transaction ::
    "transaction_id \<Rightarrow> all_transactions \<Rightarrow> (valid_pool_transaction \<times> sub_pool) option \<times> all_transactions" where
  "at_remove_transaction i a =
     (case btree_get (at_txs a) i of
        None \<Rightarrow> (None, a)
      | Some internal \<Rightarrow>
          (let a = a\<lparr>at_txs := btree_remove i (at_txs a)\<rparr>;
               a = tx_decr (vt_sender_id (it_transaction internal)) a;
               hash = vt_hash (it_transaction internal)
           in (case at_by_hash a hash of None \<Rightarrow> None | Some tx \<Rightarrow> Some (tx, it_subpool internal),
               a\<lparr>at_by_hash := (at_by_hash a)(hash := None)\<rparr>)))"

definition ensure_valid ::
    "all_transactions \<Rightarrow> valid_pool_transaction \<Rightarrow> insert_err + valid_pool_transaction" where
  "ensure_valid a transaction =
     (let current_txs = (case at_tx_counter a (vt_sender_id transaction) of Some c \<Rightarrow> c | None \<Rightarrow> 0) in
      if \<not> vt_is_local transaction \<and> current_txs \<ge> at_max_account_slots a
      then Inl (Err_ExceededSenderTransactionsCapacity transaction)
      else if vt_gas_limit transaction > at_block_gas_limit a
      then Inl (Err_TxGasLimitMoreThanAvailableBlockGas transaction (at_block_gas_limit a)
                  (vt_gas_limit transaction))
      else Inr transaction)"

text \<open>
  The loop of \<open>insert_tx\<close> over the transactions of the sender: the updated transactions, the updates it
  pushes and the state of the new transaction.
\<close>

fun insert_loop ::
    "transaction_id \<Rightarrow> u256 \<Rightarrow> u64 \<Rightarrow> u256 \<Rightarrow> bool \<Rightarrow> tx_state \<Rightarrow> pool_txs \<Rightarrow>
     pool_txs \<times> pool_update list \<times> tx_state" where
  "insert_loop tx_id balance next cost has_parked_ancestor state [] = ([], [], state)"
| "insert_loop tx_id balance next cost has_parked_ancestor state ((i, tx) # descendants) =
     (if next \<noteq> tid_nonce i then ((i, tx) # descendants, [], state)
      else
        (let tx = tx\<lparr>it_state := state_insert NO_NONCE_GAPS (it_state tx)\<rparr>;
             tx = tx\<lparr>it_cumulative_cost := cost\<rparr>;
             cost = next_cumulative_cost tx;
             tx = (if cost > balance
                   then tx\<lparr>it_state := state_remove ENOUGH_BALANCE (it_state tx)\<rparr>
                   else tx\<lparr>it_state := state_insert ENOUGH_BALANCE (it_state tx)\<rparr>);
             tx = set_parked_ancestor has_parked_ancestor tx;
             has_parked_ancestor = \<not> is_pending (it_state tx);
             (state, pushed, tx) =
               (if tx_id = i then (it_state tx, [], tx)
                else
                  (let current_pool = it_subpool tx;
                       tx = tx\<lparr>it_subpool := sub_pool_of (it_state tx)\<rparr>
                   in (state,
                       if current_pool \<noteq> it_subpool tx
                       then [\<lparr>pu_id = i, pu_hash = vt_hash (it_transaction tx), pu_current = current_pool,
                              pu_destination = Pool (it_subpool tx)\<rparr>]
                       else [], tx)));
             (done, updates, state) =
               insert_loop tx_id balance (next_nonce i) cost has_parked_ancestor state descendants
         in ((i, tx) # done, pushed @ updates, state)))"

text \<open>The state of a new transaction before the loop, or the fee cap that is too low.\<close>

definition initial_state ::
    "all_transactions \<Rightarrow> transaction_id option \<Rightarrow> valid_pool_transaction \<Rightarrow> insert_err + tx_state" where
  "initial_state a predecessor transaction =
     (let state = 0;
          state = (if predecessor = None
                   then state_insert NO_PARKED_ANCESTORS (state_insert NO_NONCE_GAPS state) else state)
      in and_then
           (case vt_max_fee_per_gas transaction of
              Some fee_cap \<Rightarrow>
                if fee_cap < at_minimal_protocol_basefee a
                then Inl (Err_ProtocolFeeCapTooLow transaction fee_cap)
                else if fee_cap \<ge> at_pending_basefee a
                then Inr (state_insert ENOUGH_FEE_CAP_BLOCK state)
                else Inr state
            | None \<Rightarrow> Inr (state_insert ENOUGH_FEE_CAP_BLOCK state))
         (\<lambda>state. Inr (if vt_gas_limit transaction < at_block_gas_limit a
                       then state_insert NOT_TOO_MUCH_GAS state else state)))"

text \<open>Enters the new transaction into the maps and returns the one it replaces.\<close>

definition insert_entry ::
    "pool_internal_transaction \<Rightarrow> all_transactions \<Rightarrow>
     insert_err + (valid_pool_transaction \<times> sub_pool) option \<times> all_transactions" where
  "insert_entry pool_tx a =
     (let transaction = it_transaction pool_tx; i = vt_transaction_id transaction in
      case btree_get (at_txs a) i of
        None \<Rightarrow>
          Inr (None, a\<lparr>at_by_hash := (at_by_hash a)(vt_hash transaction \<mapsto> transaction),
                       at_txs := btree_insert i pool_tx (at_txs a)\<rparr>)
      | Some existing \<Rightarrow>
          if is_underpriced transaction (it_transaction existing)
          then Inl (Err_Underpriced transaction (vt_hash (it_transaction existing)))
          else Inr (Some (it_transaction existing, it_subpool existing),
                    a\<lparr>at_by_hash := ((at_by_hash a)(vt_hash (it_transaction existing) := None))
                        (vt_hash transaction \<mapsto> transaction),
                      at_txs := btree_insert i pool_tx (at_txs a)\<rparr>))"

text \<open>The part of \<open>insert_tx\<close> before its loop, with the state of the new transaction.\<close>

definition insert_checked ::
    "valid_pool_transaction \<Rightarrow> transaction_id option \<Rightarrow> all_transactions \<Rightarrow>
     insert_err + tx_state \<times> (valid_pool_transaction \<times> sub_pool) option \<times> all_transactions" where
  "insert_checked transaction predecessor a =
     and_then (ensure_valid a transaction) (\<lambda>transaction.
     and_then (initial_state a predecessor transaction) (\<lambda>state.
     and_then
       (insert_entry \<lparr>it_transaction = transaction, it_subpool = Queued, it_state = state,
          it_cumulative_cost = 0\<rparr> a) (\<lambda>(replaced_tx, a).
     Inr (state, replaced_tx, a))))"

text \<open>Whether the first of the transactions of the sender has a parked ancestor; \<^term>\<open>None\<close> is the panic
  of the access to it.\<close>

definition first_parked :: "transaction_id option \<Rightarrow> transaction_id \<Rightarrow> pool_txs \<Rightarrow> bool option" where
  "first_parked predecessor tx_id descendants =
     (if predecessor = None then Some False
      else
        (case descendants of
           [] \<Rightarrow> None
         | (i, tx) # _ \<Rightarrow>
             Some (if tid_nonce i < tid_nonce tx_id then \<not> is_pending (it_state tx) else True)))"

text \<open>\<^term>\<open>None\<close> is a panic, of the assertion on the nonce or of the access above.\<close>

definition insert_tx ::
    "valid_pool_transaction \<Rightarrow> u256 \<Rightarrow> u64 \<Rightarrow> all_transactions \<Rightarrow>
     ((insert_err + insert_ok) \<times> all_transactions) option" where
  "insert_tx transaction on_chain_balance on_chain_nonce a =
     (if \<not> on_chain_nonce \<le> vt_nonce transaction then None
      else
        (let tx_id = vt_transaction_id transaction;
             predecessor = tid_ancestor (vt_nonce transaction) on_chain_nonce (tid_sender tx_id) in
         case insert_checked transaction predecessor a of
           Inl err \<Rightarrow> Some (Inl err, a)
         | Inr (state, replaced_tx, a) \<Rightarrow>
             (let on_chain_id = Tx_Id (vt_sender_id transaction) on_chain_nonce;
                  descendants = descendant_txs on_chain_id a in
              case first_parked predecessor tx_id descendants of
                None \<Rightarrow> None
              | Some has_parked_ancestor \<Rightarrow>
                  (let (ds, updates, state) =
                         insert_loop tx_id on_chain_balance on_chain_nonce 0 has_parked_ancestor state
                           descendants;
                       a = set_descendant_txs on_chain_id ds a;
                       a = (if replaced_tx = None then tx_inc (tid_sender tx_id) a else a)
                   in Some
                        (Inr \<lparr>io_transaction = transaction, io_move_to = sub_pool_of state, io_state = state,
                              io_replaced_tx = replaced_tx, io_updates = updates\<rparr>, a)))))"

section \<open>The transactions of the container\<close>

text \<open>What the container stands for: the transactions by their identifier.\<close>

definition txs_view :: "pool_txs \<Rightarrow> (transaction_id, valid_pool_transaction) btree" where
  "txs_view m = map (map_prod id it_transaction) m"

lemma txs_view_Nil [simp]: "txs_view [] = []"
  by (simp add: txs_view_def)

lemma txs_view_Cons [simp]: "txs_view ((i, p) # m) = (i, it_transaction p) # txs_view m"
  by (simp add: txs_view_def)

lemma txs_view_append [simp]: "txs_view (m @ m') = txs_view m @ txs_view m'"
  by (simp add: txs_view_def)

lemma txs_view_insert: "txs_view (btree_insert i p m) = btree_insert i (it_transaction p) (txs_view m)"
  by (induction i p m rule: btree_insert.induct) auto

lemma txs_view_filter: "txs_view (filter (\<lambda>e. P (fst e)) m) = filter (\<lambda>e. P (fst e)) (txs_view m)"
  by (induction m) auto

lemma txs_view_remove: "txs_view (btree_remove i m) = btree_remove i (txs_view m)"
  by (simp add: btree_remove_def txs_view_filter [where P = "\<lambda>j. j \<noteq> i"])

lemma txs_view_get: "btree_get (txs_view m) i = map_option it_transaction (btree_get m i)"
  by (induction m) (auto simp: btree_get_def)

lemma map_fst_txs_view [simp]: "map fst (txs_view m) = map fst m"
  by (induction m) auto

lemma btree_wf_txs_view: "btree_wf (txs_view m) \<longleftrightarrow> btree_wf m"
  by (simp add: btree_wf_def)

lemma record_transaction [simp]: "it_transaction (snd (record_subpool_update tx)) = it_transaction tx"
  by (simp add: record_subpool_update_def Let_def)

lemma base_fee_transaction [simp]: "it_transaction (at_update_base_fee fee tx) = it_transaction tx"
  by (simp add: at_update_base_fee_def split: option.splits)

lemma parked_transaction [simp]: "it_transaction (set_parked_ancestor b tx) = it_transaction tx"
  by (simp add: set_parked_ancestor_def)

lemma update_consecutive_stop:
  "tid_sender i \<noteq> s \<or> has_nonce_gap (it_state tx) \<Longrightarrow>
   update_consecutive fee s parked ((i, tx) # m) =
     (takeWhile (\<lambda>e. tid_sender (fst e) = s) ((i, tx) # m), [], dropWhile (\<lambda>e. tid_sender (fst e) = s) ((i, tx) # m))"
  by auto

lemma update_consecutive_step:
  "tid_sender i = s \<Longrightarrow> \<not> has_nonce_gap (it_state tx) \<Longrightarrow>
   update_consecutive fee s parked ((i, tx) # m) =
     (let r = record_subpool_update (at_update_base_fee fee (set_parked_ancestor parked tx));
          u = update_consecutive fee s (\<not> is_pending (it_state (set_parked_ancestor parked tx))) m
      in ((i, snd r) # fst u, fst r @ fst (snd u), snd (snd u)))"
  by (simp add: split_beta Let_def)

text \<open>Neither rechecking the transactions nor the loop of an insertion changes them.\<close>

lemma txs_view_update_consecutive:
  "txs_view (fst (update_consecutive fee s parked m)) @ txs_view (snd (snd (update_consecutive fee s parked m))) = txs_view m"
proof (induction m arbitrary: parked)
  case (Cons e m)
  obtain i tx where e: "e = (i, tx)"
    by (cases e)
  show ?case
  proof (cases "tid_sender i \<noteq> s \<or> has_nonce_gap (it_state tx)")
    case True
    then show ?thesis
      unfolding e update_consecutive_stop [OF True] fst_conv snd_conv
      by (simp only: takeWhile_dropWhile_id flip: txs_view_append)
  next
    case False
    with Cons show ?thesis
      by (simp add: e update_consecutive_step Let_def del: update_consecutive.simps)
  qed
qed simp

lemma txs_view_update_senders: "txs_view (fst (update_senders fee m)) = txs_view m"
proof (induction fee m rule: update_senders.induct)
  case (2 fee i tx iter)
  show ?case
  proof (cases "has_nonce_gap (it_state tx)")
    case True
    with 2(1) show ?thesis
      by (simp add: split_beta txs_view_append [symmetric] del: txs_view_append)
        (metis takeWhile_dropWhile_id txs_view_append)
  next
    case False
    obtain pushed tx' where r: "record_subpool_update (at_update_base_fee fee
        (tx\<lparr>it_state := state_insert NO_PARKED_ANCESTORS (it_state tx)\<rparr>)) = (pushed, tx')"
      by fastforce
    obtain passed us rest where c: "update_consecutive fee (tid_sender i) (\<not> is_pending (it_state tx')) iter = (passed, us, rest)"
      by (cases "update_consecutive fee (tid_sender i) (\<not> is_pending (it_state tx')) iter")
    have "txs_view (fst (update_senders fee rest)) = txs_view rest"
      by (rule 2(2) [OF False refl refl r [symmetric] refl refl c [symmetric] refl])
    moreover have "it_transaction tx' = it_transaction tx"
      using arg_cong [OF r, of "\<lambda>x. it_transaction (snd x)"] by simp
    ultimately show ?thesis
      using txs_view_update_consecutive [of fee "tid_sender i" "\<not> is_pending (it_state tx')" iter] False c r
      by (simp add: Let_def split_beta)
  qed
qed simp

lemma txs_view_insert_loop:
  "txs_view (fst (insert_loop tx_id balance nonce cost parked state m)) = txs_view m"
  by (induction m arbitrary: nonce cost parked state) (auto simp: Let_def split_beta)

lemma descendants_split:
  "btree_wf m \<Longrightarrow> filter (\<lambda>e. fst e < i) m @ filter (\<lambda>e. i \<le> fst e) m = m"
proof (induction m)
  case (Cons e m)
  show ?case
  proof (cases "fst e < i")
    case False
    with Cons.prems have "filter (\<lambda>e. fst e < i) m = []"
      by (auto simp: btree_wf_def filter_empty_conv)
    with False Cons show ?thesis
      by (auto simp: btree_wf_def)
  qed (use Cons in \<open>auto simp: btree_wf_def\<close>)
qed simp

lemma txs_view_set_descendant_txs:
  assumes "btree_wf (at_txs a)" and "txs_view ds = txs_view (descendant_txs i a)"
  shows "txs_view (at_txs (set_descendant_txs i ds a)) = txs_view (at_txs a)"
proof -
  have "txs_view (at_txs (set_descendant_txs i ds a)) =
      txs_view (filter (\<lambda>e. fst e < i) (at_txs a) @ filter (\<lambda>e. i \<le> fst e) (at_txs a))"
    by (simp add: set_descendant_txs_def assms(2)) (metis descendant_txs_def takeWhile_dropWhile_id txs_view_append)
  with assms(1) show ?thesis
    by (simp only: descendants_split)
qed

section \<open>The invariant\<close>

definition sender_count :: "sender_id \<Rightarrow> (transaction_id \<times> 'a) list \<Rightarrow> nat" where
  "sender_count s m = length (filter (\<lambda>e. tid_sender (fst e) = s) m)"

text \<open>The other two maps are determined by the sorted one.\<close>

definition view_inv ::
    "(transaction_id, valid_pool_transaction) btree \<Rightarrow> (h256 \<rightharpoonup> valid_pool_transaction) \<Rightarrow>
     (sender_id \<rightharpoonup> nat) \<Rightarrow> bool" where
  "view_inv m h c \<longleftrightarrow> btree_wf m \<and> (\<forall>i t. (i, t) \<in> set m \<longrightarrow> vt_transaction_id t = i) \<and>
     (\<forall>x t. h x = Some t \<longleftrightarrow> vt_hash t = x \<and> (vt_transaction_id t, t) \<in> set m) \<and>
     (\<forall>s. c s = (if sender_count s m = 0 then None else Some (sender_count s m)))"

definition at_inv :: "all_transactions \<Rightarrow> bool" where
  "at_inv a \<longleftrightarrow> view_inv (txs_view (at_txs a)) (at_by_hash a) (at_tx_counter a)"

text \<open>Identifiers that belong to one transaction at most: no transaction of the container with another
  identifier has the same hash.\<close>

definition hash_unique :: "valid_pool_transaction \<Rightarrow> (transaction_id, valid_pool_transaction) btree \<Rightarrow> bool" where
  "hash_unique t m \<longleftrightarrow> (\<forall>i t'. (i, t') \<in> set m \<longrightarrow> vt_hash t' = vt_hash t \<longrightarrow> i = vt_transaction_id t)"

lemma sender_count_insert_fresh:
  "btree_get m i = None \<Longrightarrow>
   sender_count s (btree_insert i t m) = (if tid_sender i = s then Suc (sender_count s m) else sender_count s m)"
  by (induction i t m rule: btree_insert.induct) (auto simp: sender_count_def btree_get_def split: if_splits)

lemma sender_count_replace:
  "btree_get m i = Some t' \<Longrightarrow> btree_wf m \<Longrightarrow> sender_count s (btree_insert i t m) = sender_count s m"
proof (induction i t m rule: btree_insert.induct)
  case (2 i t j t'' m)
  have "btree_wf m" and "\<not> (\<exists>x. btree_get m i = Some x \<and> i < j)"
    using 2(3) by (fastforce simp: btree_wf_def btree_get_def dest!: map_of_SomeD)+
  with 2 show ?case
    by (auto simp: sender_count_def btree_get_def split: if_splits)
qed (simp add: btree_get_def)

lemma sender_count_remove:
  assumes "btree_wf m" and "btree_get m i = Some t"
  shows "sender_count s (btree_remove i m) = (if tid_sender i = s then sender_count s m - 1 else sender_count s m)"
    and "tid_sender i = s \<Longrightarrow> 0 < sender_count s m"
proof -
  have "\<not> (\<exists>e \<in> set m. fst e = i \<and> tid_sender (fst e) = s)" if "tid_sender i \<noteq> s"
    using that by auto
  then have "sender_count s (btree_remove i m) = sender_count s m" if "tid_sender i \<noteq> s"
    using that unfolding sender_count_def btree_remove_def filter_filter
    by (metis (no_types, lifting))
  moreover have "Suc (sender_count s (btree_remove i m)) = sender_count s m" if s: "tid_sender i = s"
  proof -
    let ?m = "filter (\<lambda>e. tid_sender (fst e) = s) m"
    have "btree_wf ?m" and "btree_get ?m i = Some t"
      using assms s by (auto simp: btree_wf_filter btree_get_Some_iff)
    from length_btree_remove [OF this] show ?thesis
      by (simp add: sender_count_def btree_remove_def conj_commute)
  qed
  ultimately show "sender_count s (btree_remove i m) = (if tid_sender i = s then sender_count s m - 1 else sender_count s m)"
    and "tid_sender i = s \<Longrightarrow> 0 < sender_count s m"
    by fastforce+
qed

lemma at_inv_new: "at_inv (at_new slots)"
  by (simp add: at_inv_def at_new_def view_inv_def sender_count_def btree_wf_def)

lemma at_inv_update: "at_inv a \<Longrightarrow> at_inv (snd (at_update fee a))"
  using txs_view_update_senders [of fee "at_txs a"]
  by (simp add: at_inv_def at_update_def Let_def split_beta)

definition counter_decr :: "sender_id \<Rightarrow> (sender_id \<rightharpoonup> nat) \<Rightarrow> sender_id \<rightharpoonup> nat" where
  "counter_decr s c = c(s := if c s = Some 1 then None else map_option (\<lambda>n. n - 1) (c s))"

lemma view_inv_remove:
  assumes inv: "view_inv m h c" and t: "btree_get m i = Some t"
  shows "view_inv (btree_remove i m) (h(vt_hash t := None)) (counter_decr (tid_sender i) c)"
proof -
  from inv have wf: "btree_wf m" and ids: "\<And>i t. (i, t) \<in> set m \<Longrightarrow> vt_transaction_id t = i"
    and h: "\<And>x t. h x = Some t \<longleftrightarrow> vt_hash t = x \<and> (vt_transaction_id t, t) \<in> set m"
    and c: "\<And>s. c s = (if sender_count s m = 0 then None else Some (sender_count s m))"
    by (auto simp: view_inv_def)
  have mem: "(i, t) \<in> set m" and id: "vt_transaction_id t = i"
    using t wf ids by (auto simp: btree_get_Some_iff)
  have one: "t' = t" if "(i, t') \<in> set m" for t'
    using that t wf by (metis btree_get_Some_iff option.inject)
  have "(h(vt_hash t := None)) x = Some t' \<longleftrightarrow>
      vt_hash t' = x \<and> (vt_transaction_id t', t') \<in> set (btree_remove i m)" for x t'
  proof (cases "x = vt_hash t")
    case True
    have "vt_transaction_id t' = i" if "vt_hash t' = vt_hash t" "(vt_transaction_id t', t') \<in> set m"
      using that h [of "vt_hash t" t] h [of "vt_hash t" t'] mem id by simp
    with True show ?thesis
      by (auto simp: set_btree_remove)
  next
    case False
    have "vt_hash t' \<noteq> x" if "vt_transaction_id t' = i" "(vt_transaction_id t', t') \<in> set m"
      using that one False by auto
    with False h show ?thesis
      by (auto simp: set_btree_remove)
  qed
  moreover have "vt_transaction_id t' = j" if "(j, t') \<in> set (btree_remove i m)" for j t'
    using that ids by (simp add: set_btree_remove)
  moreover have "counter_decr (tid_sender i) c s =
      (if sender_count s (btree_remove i m) = 0 then None else Some (sender_count s (btree_remove i m)))" for s
    using sender_count_remove [OF wf t, of s] c [of s] by (auto simp: counter_decr_def)
  ultimately show ?thesis
    unfolding view_inv_def using btree_wf_remove [OF wf] by blast
qed

lemma tx_decr_eq: "tx_decr s a = a\<lparr>at_tx_counter := counter_decr s (at_tx_counter a)\<rparr>"
  by (auto simp: tx_decr_def counter_decr_def fun_upd_idem split: option.splits)

lemma view_inv_hash: "view_inv m h c \<Longrightarrow> h x = Some t \<Longrightarrow> vt_hash t = x \<and> btree_get m (vt_transaction_id t) = Some t"
  by (simp add: view_inv_def btree_get_Some_iff)

lemma view_inv_get:
  "view_inv m h c \<Longrightarrow> btree_get m i = Some t \<Longrightarrow> vt_transaction_id t = i \<and> h (vt_hash t) = Some t"
  by (auto simp: view_inv_def btree_get_Some_iff)

lemma at_remove_by_hash_None:
  "at_by_hash a x = None \<Longrightarrow> at_remove_transaction_by_hash x a = (None, a)"
  by (simp add: at_remove_transaction_by_hash_def)

lemma at_remove_by_hash_Some:
  assumes inv: "at_inv a" and t: "at_by_hash a x = Some t"
  shows "\<exists>p a'. at_remove_transaction_by_hash x a = (Some (t, it_subpool p), a') \<and>
    btree_get (at_txs a) (vt_transaction_id t) = Some p \<and> it_transaction p = t \<and>
    at_txs a' = btree_remove (vt_transaction_id t) (at_txs a) \<and> at_inv a'"
proof -
  have hash: "vt_hash t = x" and view: "btree_get (txs_view (at_txs a)) (vt_transaction_id t) = Some t"
    using view_inv_hash [OF inv [unfolded at_inv_def] t] by auto
  then obtain p where p: "btree_get (at_txs a) (vt_transaction_id t) = Some p" "it_transaction p = t"
    by (auto simp: txs_view_get)
  from view_inv_remove [OF inv [unfolded at_inv_def] view] hash p t show ?thesis
    by (simp add: at_remove_transaction_by_hash_def tx_decr_eq at_inv_def txs_view_remove vt_sender_id_def Let_def)
qed

lemma at_remove_None: "btree_get (at_txs a) i = None \<Longrightarrow> at_remove_transaction i a = (None, a)"
  by (simp add: at_remove_transaction_def)

lemma at_remove_Some:
  assumes inv: "at_inv a" and p: "btree_get (at_txs a) i = Some p"
  shows "\<exists>a'. at_remove_transaction i a = (Some (it_transaction p, it_subpool p), a') \<and>
    at_txs a' = btree_remove i (at_txs a) \<and> at_inv a'"
proof -
  have view: "btree_get (txs_view (at_txs a)) i = Some (it_transaction p)"
    using p by (simp add: txs_view_get)
  from view_inv_get [OF inv [unfolded at_inv_def] view] view_inv_remove [OF inv [unfolded at_inv_def] view] p show ?thesis
    by (simp add: at_remove_transaction_def tx_decr_eq at_inv_def txs_view_remove vt_sender_id_def Let_def)
qed

lemma view_inv_insert_fresh:
  assumes inv: "view_inv m h c" and t: "btree_get m (vt_transaction_id t) = None" and u: "hash_unique t m"
  shows "view_inv (btree_insert (vt_transaction_id t) t m) (h(vt_hash t \<mapsto> t))
    (c(tid_sender (vt_transaction_id t) \<mapsto>
      (case c (tid_sender (vt_transaction_id t)) of Some n \<Rightarrow> n | None \<Rightarrow> 0) + 1))"
proof -
  from inv have wf: "btree_wf m" and ids: "\<And>i t. (i, t) \<in> set m \<Longrightarrow> vt_transaction_id t = i"
    and h: "\<And>x t. h x = Some t \<longleftrightarrow> vt_hash t = x \<and> (vt_transaction_id t, t) \<in> set m"
    and c: "\<And>s. c s = (if sender_count s m = 0 then None else Some (sender_count s m))"
    by (auto simp: view_inv_def)
  have m': "set (btree_insert (vt_transaction_id t) t m) = insert (vt_transaction_id t, t) (set m)"
    using t by (rule set_btree_insert_fresh)
  have absent: "vt_hash t' \<noteq> vt_hash t" if "(vt_transaction_id t', t') \<in> set m" for t'
    using that u t unfolding hash_unique_def btree_get_None_iff by (metis fst_conv image_eqI)
  have "(h(vt_hash t \<mapsto> t)) x = Some t' \<longleftrightarrow>
      vt_hash t' = x \<and> (vt_transaction_id t', t') \<in> set (btree_insert (vt_transaction_id t) t m)" for x t'
    using absent [of t'] h [of x t'] by (auto simp: m')
  moreover have "vt_transaction_id t' = j" if "(j, t') \<in> set (btree_insert (vt_transaction_id t) t m)" for j t'
    using that ids by (auto simp: m')
  ultimately show ?thesis
    unfolding view_inv_def using btree_wf_insert [OF wf] c sender_count_insert_fresh [OF t] by auto
qed

lemma view_inv_insert_replace:
  assumes inv: "view_inv m h c" and t: "btree_get m (vt_transaction_id t) = Some t'" and u: "hash_unique t m"
  shows "view_inv (btree_insert (vt_transaction_id t) t m) (h(vt_hash t' := None, vt_hash t \<mapsto> t)) c"
proof -
  let ?m = "btree_remove (vt_transaction_id t) m" and ?s = "tid_sender (vt_transaction_id t)"
  from inv have wf: "btree_wf m" and c: "c ?s = (if sender_count ?s m = 0 then None else Some (sender_count ?s m))"
    by (auto simp: view_inv_def)
  have "view_inv (btree_insert (vt_transaction_id t) t ?m) (h(vt_hash t' := None, vt_hash t \<mapsto> t))
      ((counter_decr ?s c)(?s \<mapsto> (case counter_decr ?s c ?s of Some n \<Rightarrow> n | None \<Rightarrow> 0) + 1))"
    using u by (intro view_inv_insert_fresh view_inv_remove [OF inv t])
      (auto simp: btree.get_del [OF wf] hash_unique_def set_btree_remove)
  moreover have "(counter_decr ?s c)(?s \<mapsto> (case counter_decr ?s c ?s of Some n \<Rightarrow> n | None \<Rightarrow> 0) + 1) = c"
    using c sender_count_remove(2) [OF wf t refl] by (auto simp: counter_decr_def fun_eq_iff)
  ultimately show ?thesis
    using btree_insert_remove [OF wf] by simp
qed

definition counter_incr :: "sender_id \<Rightarrow> (sender_id \<rightharpoonup> nat) \<Rightarrow> sender_id \<rightharpoonup> nat" where
  "counter_incr s c = c(s \<mapsto> (case c s of Some n \<Rightarrow> n | None \<Rightarrow> 0) + 1)"

lemma tx_inc_eq: "tx_inc s a = a\<lparr>at_tx_counter := counter_incr s (at_tx_counter a)\<rparr>"
  by (simp add: tx_inc_def counter_incr_def)

lemma insert_checked_Inr:
  assumes "insert_checked t predecessor a = Inr (state, replaced, b)"
  shows "initial_state a predecessor t = Inr state"
    and "at_txs b = btree_insert (vt_transaction_id t)
      \<lparr>it_transaction = t, it_subpool = Queued, it_state = state, it_cumulative_cost = 0\<rparr> (at_txs a)"
    and "replaced = map_option (\<lambda>p. (it_transaction p, it_subpool p)) (btree_get (at_txs a) (vt_transaction_id t))"
    and "at_by_hash b = (case replaced of None \<Rightarrow> at_by_hash a | Some (t', _) \<Rightarrow> (at_by_hash a)(vt_hash t' := None))
      (vt_hash t \<mapsto> t)"
    and "at_tx_counter b = at_tx_counter a"
    and "b\<lparr>at_by_hash := at_by_hash a, at_txs := at_txs a\<rparr> = a"
  using assms
  by (cases "btree_get (at_txs a) (vt_transaction_id t)";
      auto simp: insert_checked_def and_then_eq_Inr insert_entry_def ensure_valid_def Let_def split: if_splits)+

lemma insert_checked_inv:
  assumes inv: "at_inv a" and u: "hash_unique t (txs_view (at_txs a))"
    and ok: "insert_checked t predecessor a = Inr (state, replaced, b)"
  shows "view_inv (txs_view (at_txs b)) (at_by_hash b)
      (if replaced = None then counter_incr (tid_sender (vt_transaction_id t)) (at_tx_counter b) else at_tx_counter b)"
    and "txs_view (at_txs b) = btree_insert (vt_transaction_id t) t (txs_view (at_txs a))"
proof -
  note b = insert_checked_Inr [OF ok]
  show view: "txs_view (at_txs b) = btree_insert (vt_transaction_id t) t (txs_view (at_txs a))"
    by (simp add: b(2) txs_view_insert)
  show "view_inv (txs_view (at_txs b)) (at_by_hash b)
      (if replaced = None then counter_incr (tid_sender (vt_transaction_id t)) (at_tx_counter b) else at_tx_counter b)"
    using view_inv_insert_fresh [OF inv [unfolded at_inv_def] _ u] view_inv_insert_replace [OF inv [unfolded at_inv_def] _ u]
    unfolding view b(4) b(5)
    by (auto simp: b(3) txs_view_get counter_incr_def split: option.splits)
qed

text \<open>The transactions of a sender from a nonce on; the iterator stops at the next sender.\<close>

lemma takeWhile_sender:
  assumes "btree_wf m" and "\<And>e. e \<in> set m \<Longrightarrow> i \<le> fst e"
  shows "takeWhile (same_sender i) m = filter (same_sender i) m"
  using assms
proof (induction m)
  case (Cons e m)
  show ?case
  proof (cases "same_sender i e")
    case False
    have "\<not> same_sender i e'" if "e' \<in> set m" for e'
      using False Cons.prems(1) Cons.prems(2) [of e] that
      by (auto simp: btree_wf_def same_sender_def less_eq_transaction_id_def less_transaction_id_def)
    with False show ?thesis
      by simp
  qed (use Cons in \<open>auto simp: btree_wf_def\<close>)
qed simp

lemma descendant_txs_eq:
  "btree_wf (at_txs a) \<Longrightarrow> descendant_txs i a = filter (\<lambda>e. i \<le> fst e \<and> same_sender i e) (at_txs a)"
  unfolding descendant_txs_def by (subst takeWhile_sender) (auto simp: btree_wf_filter conj_commute)

lemma insert_tx_OkE:
  assumes "insert_tx t balance nonce a = Some (Inr ok, a')"
  obtains state replaced b parked ds us state' where
    "nonce \<le> vt_nonce t"
    "insert_checked t (tid_ancestor (vt_nonce t) nonce (vt_sender_id t)) a = Inr (state, replaced, b)"
    "first_parked (tid_ancestor (vt_nonce t) nonce (vt_sender_id t)) (vt_transaction_id t)
       (descendant_txs (Tx_Id (vt_sender_id t) nonce) b) = Some parked"
    "insert_loop (vt_transaction_id t) balance nonce 0 parked state (descendant_txs (Tx_Id (vt_sender_id t) nonce) b) =
       (ds, us, state')"
    "ok = \<lparr>io_transaction = t, io_move_to = sub_pool_of state', io_state = state', io_replaced_tx = replaced, io_updates = us\<rparr>"
    "a' = (let a = set_descendant_txs (Tx_Id (vt_sender_id t) nonce) ds b
           in if replaced = None then tx_inc (vt_sender_id t) a else a)"
  using assms
  by (auto simp: insert_tx_def vt_sender_id_def Let_def split: if_splits sum.splits option.splits prod.splits)

lemma insert_tx_Ok:
  assumes inv: "at_inv a" and ok: "insert_tx t balance nonce a = Some (Inr ok, a')"
    and u: "hash_unique t (txs_view (at_txs a))"
  shows "at_inv a'" and "txs_view (at_txs a') = btree_insert (vt_transaction_id t) t (txs_view (at_txs a))"
proof -
  from ok obtain state replaced b parked ds us state' where
    b: "insert_checked t (tid_ancestor (vt_nonce t) nonce (vt_sender_id t)) a = Inr (state, replaced, b)"
    and loop: "insert_loop (vt_transaction_id t) balance nonce 0 parked state
      (descendant_txs (Tx_Id (vt_sender_id t) nonce) b) = (ds, us, state')"
    and a': "a' = (let a = set_descendant_txs (Tx_Id (vt_sender_id t) nonce) ds b
       in if replaced = None then tx_inc (vt_sender_id t) a else a)"
    by (rule insert_tx_OkE)
  have ds: "txs_view ds = txs_view (descendant_txs (Tx_Id (vt_sender_id t) nonce) b)"
    using txs_view_insert_loop [of "vt_transaction_id t" balance nonce 0 parked state] loop by (metis fst_conv)
  note inv' = insert_checked_inv [OF inv u b]
  have "btree_wf (at_txs b)"
    using inv'(1) by (simp add: view_inv_def btree_wf_txs_view)
  from txs_view_set_descendant_txs [OF this ds] have view: "txs_view (at_txs a') = txs_view (at_txs b)"
    by (simp add: a' tx_inc_eq Let_def)
  then show "txs_view (at_txs a') = btree_insert (vt_transaction_id t) t (txs_view (at_txs a))"
    by (simp add: inv'(2))
  show "at_inv a'"
    using inv'(1) unfolding at_inv_def view
    by (auto simp: a' tx_inc_eq set_descendant_txs_def vt_sender_id_def Let_def split: if_splits)
qed

lemma insert_tx_Err: "insert_tx t balance nonce a = Some (Inl err, a') \<Longrightarrow> a' = a"
  by (auto simp: insert_tx_def Let_def split: if_splits sum.splits option.splits prod.splits)

section \<open>The interface of the container\<close>

locale tx_container =
  fixes inv :: "'a \<Rightarrow> bool"
    and view :: "'a \<Rightarrow> (transaction_id, valid_pool_transaction) btree"
    and del :: "transaction_id \<Rightarrow> 'a \<Rightarrow> 'a"
    and del_hash :: "h256 \<Rightarrow> 'a \<Rightarrow> 'a"
  assumes inv_del: "inv a \<Longrightarrow> inv (del i a)"
    and inv_del_hash: "inv a \<Longrightarrow> inv (del_hash x a)"
    and view_del: "inv a \<Longrightarrow> view (del i a) = btree_remove i (view a)"
    and view_del_hash: "inv a \<Longrightarrow> view (del_hash x a) = filter (\<lambda>e. vt_hash (snd e) \<noteq> x) (view a)"
begin

lemma fold_del_hash:
  "inv a \<Longrightarrow> inv (fold del_hash xs a) \<and> view (fold del_hash xs a) = filter (\<lambda>e. vt_hash (snd e) \<notin> set xs) (view a)"
  by (induction xs arbitrary: a) (auto simp: inv_del_hash view_del_hash intro: filter_cong)

lemma fold_del:
  "inv a \<Longrightarrow> inv (fold del is a) \<and> view (fold del is a) = filter (\<lambda>e. fst e \<notin> set is) (view a)"
  by (induction "is" arbitrary: a) (auto simp: inv_del view_del btree_remove_def intro: filter_cong)

end

lemma at_remove_by_hash_view:
  assumes inv: "at_inv a"
  shows "at_inv (snd (at_remove_transaction_by_hash x a)) \<and>
    txs_view (at_txs (snd (at_remove_transaction_by_hash x a))) =
      filter (\<lambda>e. vt_hash (snd e) \<noteq> x) (txs_view (at_txs a))"
proof (cases "at_by_hash a x")
  case None
  have "vt_hash t \<noteq> x" if "(i, t) \<in> set (txs_view (at_txs a))" for i t
    using that inv None unfolding at_inv_def view_inv_def by (metis option.distinct(1))
  then have "filter (\<lambda>e. vt_hash (snd e) \<noteq> x) (txs_view (at_txs a)) = txs_view (at_txs a)"
    unfolding filter_id_conv by (metis prod.collapse)
  with None inv show ?thesis
    by (simp add: at_remove_by_hash_None)
next
  case (Some t)
  from at_remove_by_hash_Some [OF inv Some] obtain p a' where
    r: "at_remove_transaction_by_hash x a = (Some (t, it_subpool (p :: pool_internal_transaction)), a')"
    "at_txs a' = btree_remove (vt_transaction_id t) (at_txs a)" "at_inv a'"
    by (elim exE conjE) (rule that)
  have t: "vt_hash t = x" "btree_get (txs_view (at_txs a)) (vt_transaction_id t) = Some t"
    using view_inv_hash [OF inv [unfolded at_inv_def] Some] by auto
  have "vt_hash t' = x \<longleftrightarrow> i = vt_transaction_id t" if "(i, t') \<in> set (txs_view (at_txs a))" for i t'
    using that t inv Some unfolding at_inv_def view_inv_def
    by (metis btree_get_Some_iff option.inject)
  then have "filter (\<lambda>e. vt_hash (snd e) \<noteq> x) (txs_view (at_txs a)) = btree_remove (vt_transaction_id t) (txs_view (at_txs a))"
    unfolding btree_remove_def by (intro filter_cong) auto
  with r show ?thesis
    by (simp add: txs_view_remove)
qed

lemma at_remove_view:
  assumes inv: "at_inv a"
  shows "at_inv (snd (at_remove_transaction i a)) \<and>
    txs_view (at_txs (snd (at_remove_transaction i a))) = btree_remove i (txs_view (at_txs a))"
proof (cases "btree_get (at_txs a) i")
  case None
  then have "btree_remove i (at_txs a) = at_txs a"
    unfolding btree_remove_def btree_get_None_iff filter_id_conv by force
  with None inv show ?thesis
    by (simp add: at_remove_None flip: txs_view_remove)
next
  case (Some p)
  from at_remove_Some [OF inv Some] show ?thesis
    by (auto simp: txs_view_remove)
qed

interpretation all_txs: tx_container at_inv "\<lambda>a. txs_view (at_txs a)"
  "\<lambda>i a. snd (at_remove_transaction i a)" "\<lambda>x a. snd (at_remove_transaction_by_hash x a)"
  by unfold_locales (simp_all add: at_remove_by_hash_view at_remove_view)

end
