(* ===== verification/ReadyTransactions.thy ===== *)
theory ReadyTransactions
  imports AllTransactions
begin

text \<open>
  The states of the transactions in the container and the properties of its operations: the invariant on
  the state flags, the loops of \<^verbatim>\<open>AllTransactions::insert_tx\<close> and \<^verbatim>\<open>AllTransactions::update\<close>, the transactions
  that are ready to be executed, and sequences of operations.
\<close>

section \<open>The states of the transactions\<close>

text \<open>
  What holds of the state of every transaction: it consists of the five flags, the flag on the gas is
  the comparison with the limit of a block, a transaction without a fee cap has enough of it, and a
  fee cap is at least the minimum of the protocol.
\<close>

definition state_ok :: "u64 \<Rightarrow> u128 \<Rightarrow> valid_pool_transaction \<Rightarrow> tx_state \<Rightarrow> bool" where
  "state_ok limit fee t s \<longleftrightarrow> valid_state s \<and>
     (state_intersects s NOT_TOO_MUCH_GAS \<longleftrightarrow> vt_gas_limit t < limit) \<and>
     (vt_max_fee_per_gas t = None \<longrightarrow> has_enough_fee_cap s) \<and>
     (\<forall>f. vt_max_fee_per_gas t = Some f \<longrightarrow> fee \<le> f)"

definition entry_ok :: "u64 \<Rightarrow> u128 \<Rightarrow> pool_internal_transaction \<Rightarrow> bool" where
  "entry_ok limit fee p \<longleftrightarrow> state_ok limit fee (it_transaction p) (it_state p)"

definition entries_ok :: "u64 \<Rightarrow> u128 \<Rightarrow> pool_txs \<Rightarrow> bool" where
  "entries_ok limit fee m \<longleftrightarrow> (\<forall>e \<in> set m. entry_ok limit fee (snd e))"

lemma state_ok_insert:
  assumes "state_ok limit fee t s"
  shows "state_ok limit fee t (state_insert NO_PARKED_ANCESTORS s)"
    and "state_ok limit fee t (state_insert NO_NONCE_GAPS s)"
    and "state_ok limit fee t (state_insert ENOUGH_BALANCE s)"
    and "state_ok limit fee t (state_insert ENOUGH_FEE_CAP_BLOCK s)"
  using assms by (auto simp: state_ok_def elim!: valid_stateE)

lemma state_ok_remove:
  assumes "state_ok limit fee t s"
  shows "state_ok limit fee t (state_remove NO_PARKED_ANCESTORS s)"
    and "state_ok limit fee t (state_remove NO_NONCE_GAPS s)"
    and "state_ok limit fee t (state_remove ENOUGH_BALANCE s)"
    and "vt_max_fee_per_gas t \<noteq> None \<Longrightarrow> state_ok limit fee t (state_remove ENOUGH_FEE_CAP_BLOCK s)"
  using assms by (auto simp: state_ok_def elim!: valid_stateE)

lemma entries_ok_simps [simp]:
  "entries_ok limit fee []"
  "entries_ok limit fee (e # m) \<longleftrightarrow> entry_ok limit fee (snd e) \<and> entries_ok limit fee m"
  "entries_ok limit fee (m @ m') \<longleftrightarrow> entries_ok limit fee m \<and> entries_ok limit fee m'"
  by (auto simp: entries_ok_def)

lemma entries_ok_sub: "entries_ok limit fee m \<Longrightarrow> set m' \<subseteq> set m \<Longrightarrow> entries_ok limit fee m'"
  by (auto simp: entries_ok_def)

lemma entry_ok_set_parked: "entry_ok limit fee p \<Longrightarrow> entry_ok limit fee (set_parked_ancestor b p)"
  by (simp add: entry_ok_def set_parked_ancestor_def state_ok_insert state_ok_remove)

lemma entry_ok_update_base_fee: "entry_ok limit fee p \<Longrightarrow> entry_ok limit fee (at_update_base_fee f p)"
  by (simp add: entry_ok_def at_update_base_fee_def state_ok_insert state_ok_remove split: option.splits)

lemma entry_ok_record: "entry_ok limit fee p \<Longrightarrow> entry_ok limit fee (snd (record_subpool_update p))"
  by (simp add: entry_ok_def record_subpool_update_def Let_def)

lemma entry_ok_first:
  "entry_ok limit fee p \<Longrightarrow> entry_ok limit fee (p\<lparr>it_state := state_insert NO_PARKED_ANCESTORS (it_state p)\<rparr>)"
  by (simp add: entry_ok_def state_ok_insert)

lemmas entry_ok_steps = entry_ok_set_parked entry_ok_update_base_fee entry_ok_record entry_ok_first

lemma entries_ok_update_consecutive:
  "entries_ok limit fee m \<Longrightarrow> entries_ok limit fee (fst (update_consecutive f s parked m)) \<and>
   entries_ok limit fee (snd (snd (update_consecutive f s parked m)))"
proof (induction m arbitrary: parked)
  case (Cons e m)
  obtain i tx where e: "e = (i, tx)"
    by (cases e)
  show ?case
  proof (cases "tid_sender i \<noteq> s \<or> has_nonce_gap (it_state tx)")
    case True
    show ?thesis
      unfolding e update_consecutive_stop [OF True] fst_conv snd_conv
      by (intro conjI entries_ok_sub [OF Cons.prems [unfolded e]]) (auto dest: set_takeWhileD set_dropWhileD)
  next
    case False
    with Cons show ?thesis
      by (simp add: e update_consecutive_step Let_def entry_ok_steps del: update_consecutive.simps)
  qed
qed simp

lemma entries_ok_update_senders: "entries_ok limit fee m \<Longrightarrow> entries_ok limit fee (fst (update_senders f m))"
proof (induction f m rule: update_senders.induct)
  case (2 f i tx iter)
  show ?case
  proof (cases "has_nonce_gap (it_state tx)")
    case True
    have "entries_ok limit fee (takeWhile (\<lambda>e. tid_sender (fst e) = tid_sender i) iter)"
      "entries_ok limit fee (dropWhile (\<lambda>e. tid_sender (fst e) = tid_sender i) iter)"
      using 2(3) by (auto elim!: entries_ok_sub dest: set_takeWhileD set_dropWhileD)
    with True 2(1,3) show ?thesis
      by (simp add: split_beta)
  next
    case False
    obtain pushed tx' where r: "record_subpool_update (at_update_base_fee f
        (tx\<lparr>it_state := state_insert NO_PARKED_ANCESTORS (it_state tx)\<rparr>)) = (pushed, tx')"
      by fastforce
    obtain passed us rest where c: "update_consecutive f (tid_sender i) (\<not> is_pending (it_state tx')) iter = (passed, us, rest)"
      by (cases "update_consecutive f (tid_sender i) (\<not> is_pending (it_state tx')) iter")
    have iter: "entries_ok limit fee passed" "entries_ok limit fee rest"
      using 2(3) entries_ok_update_consecutive [of limit fee iter f "tid_sender i" "\<not> is_pending (it_state tx')"] c by simp_all
    have "entries_ok limit fee (fst (update_senders f rest))"
      using iter(2) by (rule 2(2) [OF False refl refl r [symmetric] refl refl c [symmetric] refl])
    moreover have "entry_ok limit fee tx'"
      using arg_cong [OF r, of snd] 2(3) by (auto simp: entry_ok_steps)
    ultimately show ?thesis
      using iter(1) False c r by (simp add: Let_def split_beta)
  qed
qed simp

text \<open>One step of the loop of an insertion.\<close>

definition loop_state :: "u256 \<Rightarrow> u256 \<Rightarrow> bool \<Rightarrow> pool_internal_transaction \<Rightarrow> tx_state" where
  "loop_state balance cost parked tx =
     (let s = state_insert NO_NONCE_GAPS (it_state tx);
          s = (if cost + vt_cost (it_transaction tx) > balance
               then state_remove ENOUGH_BALANCE s else state_insert ENOUGH_BALANCE s)
      in if parked then state_remove NO_PARKED_ANCESTORS s else state_insert NO_PARKED_ANCESTORS s)"

lemma insert_loop_stop:
  "nonce \<noteq> tid_nonce i \<Longrightarrow> insert_loop tx_id balance nonce cost parked state ((i, tx) # m) = ((i, tx) # m, [], state)"
  by simp

lemma insert_loop_step:
  "insert_loop tx_id balance (tid_nonce i) cost parked state ((i, tx) # m) =
     (let s = loop_state balance cost parked tx;
          (ds, us, state') = insert_loop tx_id balance (next_nonce i) (cost + vt_cost (it_transaction tx))
            (\<not> is_pending s) (if tx_id = i then s else state) m
      in ((i, tx\<lparr>it_state := s, it_cumulative_cost := cost,
              it_subpool := if tx_id = i then it_subpool tx else sub_pool_of s\<rparr>) # ds,
          (if tx_id \<noteq> i \<and> it_subpool tx \<noteq> sub_pool_of s
           then [\<lparr>pu_id = i, pu_hash = vt_hash (it_transaction tx), pu_current = it_subpool tx,
                  pu_destination = Pool (sub_pool_of s)\<rparr>] else []) @ us, state'))"
  by (simp add: loop_state_def next_cumulative_cost_def set_parked_ancestor_def split_beta Let_def)

lemma state_ok_loop_state:
  "entry_ok limit fee tx \<Longrightarrow> state_ok limit fee (it_transaction tx) (loop_state balance cost parked tx)"
  by (simp add: loop_state_def entry_ok_def Let_def state_ok_insert state_ok_remove)

lemma entries_ok_insert_loop:
  "entries_ok limit fee m \<Longrightarrow> entries_ok limit fee (fst (insert_loop tx_id balance nonce cost parked state m))"
proof (induction m arbitrary: nonce cost parked state)
  case (Cons e m)
  obtain i tx where e: "e = (i, tx)"
    by (cases e)
  show ?case
  proof (cases "nonce = tid_nonce i")
    case True
    with Cons show ?thesis
      using state_ok_loop_state [of limit fee tx]
      by (simp add: e insert_loop_step split_beta Let_def entry_ok_def del: insert_loop.simps)
  qed (use Cons.prems in \<open>simp add: e\<close>)
qed simp

definition at_ok :: "all_transactions \<Rightarrow> bool" where
  "at_ok a \<longleftrightarrow> at_inv a \<and> entries_ok (at_block_gas_limit a) (at_minimal_protocol_basefee a) (at_txs a)"

lemma at_ok_inv: "at_ok a \<Longrightarrow> at_inv a"
  by (simp add: at_ok_def)

lemma at_ok_new: "at_ok (at_new slots)"
  by (simp add: at_ok_def at_inv_new) (simp add: at_new_def)

lemma at_ok_update: "at_ok a \<Longrightarrow> at_ok (snd (at_update fee a))"
  using entries_ok_update_senders [of "at_block_gas_limit a" "at_minimal_protocol_basefee a" "at_txs a" fee]
    at_inv_update [of a fee]
  by (simp add: at_ok_def at_update_def Let_def split_beta)

lemma at_remove_frame:
  "at_block_gas_limit (snd (at_remove_transaction i a)) = at_block_gas_limit a"
  "at_minimal_protocol_basefee (snd (at_remove_transaction i a)) = at_minimal_protocol_basefee a"
  "set (at_txs (snd (at_remove_transaction i a))) \<subseteq> set (at_txs a)"
  by (auto simp: at_remove_transaction_def tx_decr_eq set_btree_remove Let_def split: option.splits)

lemma at_remove_hash_frame:
  "at_block_gas_limit (snd (at_remove_transaction_by_hash x a)) = at_block_gas_limit a"
  "at_minimal_protocol_basefee (snd (at_remove_transaction_by_hash x a)) = at_minimal_protocol_basefee a"
  "set (at_txs (snd (at_remove_transaction_by_hash x a))) \<subseteq> set (at_txs a)"
  by (auto simp: at_remove_transaction_by_hash_def tx_decr_eq set_btree_remove Let_def split: option.splits)

lemma at_ok_remove: "at_ok a \<Longrightarrow> at_ok (snd (at_remove_transaction i a))"
  using at_remove_frame [of i a] entries_ok_sub by (auto simp: at_ok_def all_txs.inv_del)

lemma at_ok_remove_hash: "at_ok a \<Longrightarrow> at_ok (snd (at_remove_transaction_by_hash x a))"
  using at_remove_hash_frame [of x a] entries_ok_sub by (auto simp: at_ok_def all_txs.inv_del_hash)

lemma initial_state_ok:
  "initial_state a predecessor t = Inr s \<Longrightarrow>
   state_ok (at_block_gas_limit a) (at_minimal_protocol_basefee a) t s"
  unfolding initial_state_def flags_zero [symmetric] Let_def
  by (auto simp: state_ok_def and_then_eq_Inr split: option.splits if_splits)

lemma set_btree_insert_subset: "set (btree_insert k v m) \<subseteq> insert (k, v) (set m)"
  by (induction k v m rule: btree_insert.induct) auto

lemma insert_checked_ok:
  assumes "at_ok a" and "insert_checked t predecessor a = Inr (state, replaced, b)"
  shows "entries_ok (at_block_gas_limit a) (at_minimal_protocol_basefee a) (at_txs b)"
proof -
  note b = insert_checked_Inr [OF assms(2)]
  let ?p = "\<lparr>it_transaction = t, it_subpool = Queued, it_state = state, it_cumulative_cost = 0\<rparr>"
  have "entry_ok (at_block_gas_limit a) (at_minimal_protocol_basefee a) ?p"
    using initial_state_ok [OF b(1)] by (simp add: entry_ok_def)
  with assms(1) show ?thesis
    unfolding b(2) at_ok_def entries_ok_def
    using set_btree_insert_subset [of "vt_transaction_id t" ?p "at_txs a"] by auto
qed

lemma insert_checked_frame:
  assumes "insert_checked t predecessor a = Inr (state, replaced, b)"
  shows "at_block_gas_limit b = at_block_gas_limit a" "at_minimal_protocol_basefee b = at_minimal_protocol_basefee a"
    "at_max_account_slots b = at_max_account_slots a" "at_pending_basefee b = at_pending_basefee a"
  using insert_checked_Inr(6) [OF assms] by (metis all_transactions.ext_inject all_transactions.surjective all_transactions.update_convs(5) all_transactions.update_convs(6))+

lemma at_ok_insert:
  assumes ok: "at_ok a" and ins: "insert_tx t balance nonce a = Some (r, a')"
    and u: "hash_unique t (txs_view (at_txs a))"
  shows "at_ok a'"
proof (cases r)
  case (Inl err)
  with ins ok show ?thesis
    using insert_tx_Err by blast
next
  case (Inr res)
  with ins have ins': "insert_tx t balance nonce a = Some (Inr res, a')"
    by simp
  then obtain state replaced b parked ds us state' where
    b: "insert_checked t (tid_ancestor (vt_nonce t) nonce (vt_sender_id t)) a = Inr (state, replaced, b)"
    and loop: "insert_loop (vt_transaction_id t) balance nonce 0 parked state
      (descendant_txs (Tx_Id (vt_sender_id t) nonce) b) = (ds, us, state')"
    and a': "a' = (let a = set_descendant_txs (Tx_Id (vt_sender_id t) nonce) ds b
       in if replaced = None then tx_inc (vt_sender_id t) a else a)"
    by (rule insert_tx_OkE)
  let ?L = "at_block_gas_limit a" and ?F = "at_minimal_protocol_basefee a"
  have eb: "entries_ok ?L ?F (at_txs b)"
    by (rule insert_checked_ok [OF ok b])
  have "entries_ok ?L ?F (descendant_txs (Tx_Id (vt_sender_id t) nonce) b)"
    by (rule entries_ok_sub [OF eb]) (auto simp: descendant_txs_def dest: set_takeWhileD)
  then have "entries_ok ?L ?F ds"
    using entries_ok_insert_loop loop by (metis fst_conv)
  moreover have "entries_ok ?L ?F (filter (\<lambda>e. fst e < i) (at_txs b))"
    "entries_ok ?L ?F (dropWhile (same_sender i) (filter (\<lambda>e. i \<le> fst e) (at_txs b)))" for i
    using eb by (auto elim!: entries_ok_sub dest: set_dropWhileD)
  ultimately have "entries_ok ?L ?F (at_txs a')"
    by (simp add: a' tx_inc_eq set_descendant_txs_def Let_def)
  then show ?thesis
    using insert_tx_Ok(1) [OF at_ok_inv [OF ok] ins' u] insert_checked_frame [OF b]
    by (simp add: at_ok_def a' tx_inc_eq set_descendant_txs_def Let_def split: if_splits)
qed

section \<open>The transactions that are ready\<close>

lemma unat_sum_list:
  fixes f :: "'a \<Rightarrow> 'b::len word"
  shows "(\<Sum>x\<leftarrow>xs. unat (f x)) < 2 ^ LENGTH('b) \<Longrightarrow> unat (\<Sum>x\<leftarrow>xs. f x) = (\<Sum>x\<leftarrow>xs. unat (f x))"
  by (induction xs) (simp_all add: unat_add_lem [THEN iffD1])

lemma is_pending_loop_state:
  "entry_ok limit fee tx \<Longrightarrow> is_pending (loop_state balance cost parked tx) \<longleftrightarrow>
     \<not> parked \<and> cost + vt_cost (it_transaction tx) \<le> balance \<and> vt_gas_limit (it_transaction tx) < limit \<and>
     has_enough_fee_cap (it_state tx)"
  unfolding entry_ok_def state_ok_def loop_state_def Let_def
  by (elim conjE valid_stateE) (auto simp: not_less)

lemma all_nth_Cons: "(\<forall>j \<le> Suc k. P ((x # xs) ! j)) \<longleftrightarrow> P x \<and> (\<forall>j \<le> k. P (xs ! j))"
  by (auto simp: nth_Cons split: nat.splits)

lemma insert_loop_chain:
  "entries_ok limit fee m \<Longrightarrow> k < length m \<Longrightarrow>
   (\<And>j. j \<le> k \<Longrightarrow> tid_nonce (fst (m ! j)) = nonce + of_nat j) \<Longrightarrow>
   is_pending (it_state (snd (fst (insert_loop tx_id balance nonce cost parked state m) ! k))) \<Longrightarrow>
   \<not> parked \<and> cost + (\<Sum>e\<leftarrow>take (Suc k) m. vt_cost (it_transaction (snd e))) \<le> balance \<and>
   (\<forall>j \<le> k. is_pending (it_state (snd (fst (insert_loop tx_id balance nonce cost parked state m) ! j))))"
proof (induction m arbitrary: k nonce cost parked state)
  case (Cons e m)
  obtain i tx where e: "e = (i, tx)"
    by (cases e)
  have nonce: "nonce = tid_nonce i"
    using Cons.prems(3) [of 0] by (simp add: e)
  have tx: "entry_ok limit fee tx" and m: "entries_ok limit fee m"
    using Cons.prems(1) by (simp_all add: e)
  let ?s = "loop_state balance cost parked tx"
  let ?rest = "insert_loop tx_id balance (next_nonce i) (cost + vt_cost (it_transaction tx)) (\<not> is_pending ?s)
    (if tx_id = i then ?s else state) m"
  let ?tx = "tx\<lparr>it_state := ?s, it_cumulative_cost := cost,
    it_subpool := if tx_id = i then it_subpool tx else sub_pool_of ?s\<rparr>"
  have loop: "fst (insert_loop tx_id balance nonce cost parked state (e # m)) = (i, ?tx) # fst ?rest"
    unfolding e nonce insert_loop_step by (simp add: split_beta Let_def)
  show ?case
  proof (cases k)
    case 0
    then show ?thesis
      using Cons.prems(4) is_pending_loop_state [OF tx, of balance cost parked]
      unfolding loop by (simp add: e)
  next
    case (Suc k')
    have nonces: "tid_nonce (fst (m ! j)) = next_nonce i + of_nat j" if "j \<le> k'" for j
      using Cons.prems(3) [of "Suc j"] that Suc by (simp add: nonce next_nonce_def)
    have len: "k' < length m" and pend: "is_pending (it_state (snd (fst ?rest ! k')))"
      using Cons.prems(2,4) unfolding loop Suc by simp_all
    note IH = Cons.IH [OF m len nonces pend, unfolded not_not]
    have s: "is_pending ?s"
      and sum: "cost + vt_cost (it_transaction tx) + (\<Sum>e\<leftarrow>take (Suc k') m. vt_cost (it_transaction (snd e))) \<le> balance"
      and rest: "\<forall>j \<le> k'. is_pending (it_state (snd (fst ?rest ! j)))"
      using IH by blast+
    have "\<forall>j \<le> Suc k'. is_pending (it_state (snd (((i, ?tx) # fst ?rest) ! j)))"
      by (rule all_nth_Cons [where P = "\<lambda>e. is_pending (it_state (snd e))", THEN iffD2, OF conjI [OF _ rest]])
        (simp add: s)
    moreover have "\<not> parked"
      using s is_pending_loop_state [OF tx, of balance cost parked] by simp
    moreover have "cost + (\<Sum>e\<leftarrow>take (Suc k) (e # m). vt_cost (it_transaction (snd e))) \<le> balance"
      using sum by (simp add: e Suc add.assoc)
    ultimately show ?thesis
      unfolding loop Suc by blast
  qed
qed simp

lemma map_fst_insert_loop: "map fst (fst (insert_loop tx_id balance nonce cost parked state m)) = map fst m"
  using txs_view_insert_loop [of tx_id balance nonce cost parked state m] by (metis map_fst_txs_view)

text \<open>The loop leaves the recorded sub-pool of the new transaction and returns its state.\<close>

lemma insert_loop_other:
  "tx_id \<notin> fst ` set m \<Longrightarrow> snd (snd (insert_loop tx_id balance nonce cost parked state m)) = state"
proof (induction m arbitrary: nonce cost parked state)
  case (Cons e m)
  obtain i tx where e: "e = (i, tx)"
    by (cases e)
  with Cons show ?case
    by (cases "nonce = tid_nonce i")
      (simp_all add: e insert_loop_step split_beta Let_def del: insert_loop.simps(2), simp)
qed simp

lemma insert_loop_new:
  "distinct (map fst m) \<Longrightarrow> (tx_id, p) \<in> set m \<Longrightarrow> it_state p = state \<Longrightarrow>
   \<exists>p'. (tx_id, p') \<in> set (fst (insert_loop tx_id balance nonce cost parked state m)) \<and>
     it_subpool p' = it_subpool p \<and> it_state p' = snd (snd (insert_loop tx_id balance nonce cost parked state m))"
proof (induction m arbitrary: nonce cost parked state)
  case (Cons e m)
  obtain i tx where e: "e = (i, tx)"
    by (cases e)
  let ?s = "loop_state balance cost parked tx"
  let ?rest = "insert_loop tx_id balance (next_nonce i) (cost + vt_cost (it_transaction tx)) (\<not> is_pending ?s)
    (if tx_id = i then ?s else state) m"
  let ?tx = "tx\<lparr>it_state := ?s, it_cumulative_cost := cost,
    it_subpool := if tx_id = i then it_subpool tx else sub_pool_of ?s\<rparr>"
  show ?case
  proof (cases "nonce = tid_nonce i")
    case True
    have loop: "fst (insert_loop tx_id balance nonce cost parked state (e # m)) = (i, ?tx) # fst ?rest"
      "snd (snd (insert_loop tx_id balance nonce cost parked state (e # m))) = snd (snd ?rest)"
      unfolding e True insert_loop_step by (simp_all add: split_beta Let_def)
    show ?thesis
    proof (cases "tx_id = i")
      case i: True
      then have "tx_id \<notin> fst ` set m" and "p = tx"
        using Cons.prems(1,2) by (force simp: e)+
      then show ?thesis
        unfolding loop using i insert_loop_other [of tx_id m] by auto
    next
      case False
      then show ?thesis
        unfolding loop using Cons.IH [of state] Cons.prems by (auto simp: e)
    qed
  next
    case False
    then show ?thesis
      using Cons.prems(2,3) unfolding e by (auto simp: insert_loop_stop)
  qed
qed simp

lemma set_descendant_txs_keys: "e \<in> set (descendant_txs i a) \<Longrightarrow> i \<le> fst e \<and> same_sender i e"
  by (auto simp: descendant_txs_def dest: set_takeWhileD)

lemma descendant_txs_set:
  assumes keys: "map fst ds = map fst (descendant_txs i a)"
  shows "descendant_txs i (set_descendant_txs i ds a) = ds"
proof -
  let ?C = "dropWhile (same_sender i) (filter (\<lambda>e. i \<le> fst e) (at_txs a))"
  have ds: "i \<le> fst e" "same_sender i e" if "e \<in> set ds" for e
  proof -
    have "fst e \<in> fst ` set (descendant_txs i a)"
      using that keys by (metis image_eqI list.set_map)
    then obtain e' where "e' \<in> set (descendant_txs i a)" "fst e' = fst e"
      by fastforce
    then show "i \<le> fst e" "same_sender i e"
      using set_descendant_txs_keys [of e' i a] by (auto simp: same_sender_def)
  qed
  have "filter (\<lambda>e. i \<le> fst e) (filter (\<lambda>e. fst e < i) (at_txs a)) = []"
    by (auto simp: filter_empty_conv)
  moreover have "filter (\<lambda>e. i \<le> fst e) ds = ds" "filter (\<lambda>e. i \<le> fst e) ?C = ?C"
    using ds(1) by (auto simp: filter_id_conv dest: set_dropWhileD)
  moreover have "at_txs (set_descendant_txs i ds a) = filter (\<lambda>e. fst e < i) (at_txs a) @ ds @ ?C"
    by (simp add: set_descendant_txs_def)
  ultimately have "filter (\<lambda>e. i \<le> fst e) (at_txs (set_descendant_txs i ds a)) = ds @ ?C"
    by (simp only: filter_append append_Nil)
  moreover have "takeWhile (same_sender i) ?C = []"
    by (metis dropWhile_eq_Nil_conv hd_dropWhile takeWhile_eq_Nil_iff)
  ultimately show ?thesis
    using ds(2) by (simp add: descendant_txs_def takeWhile_append2)
qed

lemma tx_inc_descendants [simp]: "descendant_txs i (tx_inc s a) = descendant_txs i a"
  by (simp add: descendant_txs_def tx_inc_eq)

text \<open>A new transaction is among the transactions of its sender, so that the access to the first of them
  does not panic.\<close>

lemma insert_checked_descendants:
  assumes "at_inv a" and "hash_unique t (txs_view (at_txs a))"
    and b: "insert_checked t predecessor a = Inr (state, replaced, b)"
    and "nonce \<le> tid_nonce (vt_transaction_id t)"
  shows "(vt_transaction_id t, \<lparr>it_transaction = t, it_subpool = Queued, it_state = state, it_cumulative_cost = 0\<rparr>)
    \<in> set (descendant_txs (Tx_Id (vt_sender_id t) nonce) b)" and "btree_wf (at_txs b)"
proof -
  let ?p = "\<lparr>it_transaction = t, it_subpool = Queued, it_state = state, it_cumulative_cost = 0\<rparr>"
  show wf: "btree_wf (at_txs b)"
    using insert_checked_inv(1) [OF assms(1-3)] by (simp add: view_inv_def btree_wf_txs_view)
  have wfa: "btree_wf (at_txs a)"
    using assms(1) by (simp add: at_inv_def view_inv_def btree_wf_txs_view)
  have "btree_get (at_txs b) (vt_transaction_id t) = Some ?p"
    by (simp add: insert_checked_Inr(2) [OF b] btree.get_ins [OF wfa])
  then have "(vt_transaction_id t, ?p) \<in> set (at_txs b)"
    using wf by (simp add: btree_get_Some_iff)
  then show "(vt_transaction_id t, ?p) \<in> set (descendant_txs (Tx_Id (vt_sender_id t) nonce) b)"
    using assms(4) wf by (simp add: descendant_txs_eq same_sender_def vt_sender_id_def less_eq_transaction_id_def)
qed

text \<open>What an insertion should do: refuse the transaction with an error, or enter it.\<close>

definition insert_spec ::
    "nat \<Rightarrow> u64 \<Rightarrow> u128 \<Rightarrow> (transaction_id, valid_pool_transaction) btree \<Rightarrow> valid_pool_transaction \<Rightarrow> insert_err option" where
  "insert_spec slots limit fee m t =
     (if \<not> vt_is_local t \<and> slots \<le> sender_count (vt_sender_id t) m
      then Some (Err_ExceededSenderTransactionsCapacity t)
      else if limit < vt_gas_limit t
      then Some (Err_TxGasLimitMoreThanAvailableBlockGas t limit (vt_gas_limit t))
      else if \<exists>f. vt_max_fee_per_gas t = Some f \<and> f < fee
      then Some (Err_ProtocolFeeCapTooLow t (the (vt_max_fee_per_gas t)))
      else
        (case btree_get m (vt_transaction_id t) of
           Some t' \<Rightarrow> if is_underpriced t t' then Some (Err_Underpriced t (vt_hash t')) else None
         | None \<Rightarrow> None))"

lemma insert_checked_spec:
  assumes inv: "at_inv a"
  shows "case insert_spec (at_max_account_slots a) (at_block_gas_limit a) (at_minimal_protocol_basefee a) (txs_view (at_txs a)) t of
      Some err \<Rightarrow> insert_checked t predecessor a = Inl err
    | None \<Rightarrow> \<exists>r. insert_checked t predecessor a = Inr r"
proof -
  have "(case at_tx_counter a s of Some c \<Rightarrow> c | None \<Rightarrow> 0) = sender_count s (txs_view (at_txs a))" for s
    using inv by (simp add: at_inv_def view_inv_def)
  then show ?thesis
    by (cases "vt_max_fee_per_gas t"; cases "btree_get (at_txs a) (vt_transaction_id t)")
      (auto simp: insert_spec_def insert_checked_def ensure_valid_def initial_state_def insert_entry_def txs_view_get
        and_then_def Let_def)
qed

lemma first_parked_Some: "ds \<noteq> [] \<Longrightarrow> \<exists>parked. first_parked predecessor i ds = Some parked"
  by (cases ds) (auto simp: first_parked_def split: prod.splits)

lemma insert_tx_checked:
  assumes "at_inv a" and "hash_unique t (txs_view (at_txs a))"
    and "insert_checked t (tid_ancestor (vt_nonce t) nonce (vt_sender_id t)) a = Inr r"
    and nonce: "nonce \<le> vt_nonce t" and id: "tid_nonce (vt_transaction_id t) = vt_nonce t"
  shows "\<exists>ok a'. insert_tx t balance nonce a = Some (Inr ok, a')"
proof -
  obtain state replaced b where r: "r = (state, replaced, b)"
    by (cases r)
  let ?d = "descendant_txs (Tx_Id (vt_sender_id t) nonce) b"
  from insert_checked_descendants(1) [OF assms(1,2) assms(3) [unfolded r], of nonce] nonce id
  have "?d \<noteq> []"
    by auto
  then obtain parked where "first_parked (tid_ancestor (vt_nonce t) nonce (vt_sender_id t)) (vt_transaction_id t) ?d = Some parked"
    using first_parked_Some by blast
  then show ?thesis
    using assms(3) nonce by (simp add: insert_tx_def vt_sender_id_def r split_beta Let_def)
qed

lemma insert_tx_spec:
  assumes inv: "at_inv a" and u: "hash_unique t (txs_view (at_txs a))"
    and id: "tid_nonce (vt_transaction_id t) = vt_nonce t"
  shows "if vt_nonce t < nonce then insert_tx t balance nonce a = None
    else
      (case insert_spec (at_max_account_slots a) (at_block_gas_limit a) (at_minimal_protocol_basefee a)
              (txs_view (at_txs a)) t of
         Some err \<Rightarrow> insert_tx t balance nonce a = Some (Inl err, a)
       | None \<Rightarrow> \<exists>ok a'. insert_tx t balance nonce a = Some (Inr ok, a') \<and> at_inv a' \<and>
           txs_view (at_txs a') = btree_insert (vt_transaction_id t) t (txs_view (at_txs a)))"
proof (cases "vt_nonce t < nonce")
  case False
  let ?spec = "insert_spec (at_max_account_slots a) (at_block_gas_limit a) (at_minimal_protocol_basefee a) (txs_view (at_txs a)) t"
    and ?pre = "tid_ancestor (vt_nonce t) nonce (vt_sender_id t)"
  show ?thesis
  proof (cases ?spec)
    case None
    then obtain r where "insert_checked t ?pre a = Inr r"
      using insert_checked_spec [OF inv, of t ?pre] by auto
    from insert_tx_checked [OF inv u this _ id] False
    obtain ok a' where "insert_tx t balance nonce a = Some (Inr ok, a')"
      by fastforce
    with insert_tx_Ok [OF inv this u] None False show ?thesis
      by simp
  next
    case (Some err)
    then show ?thesis
      using insert_checked_spec [OF inv, of t ?pre] False by (simp add: insert_tx_def vt_sender_id_def Let_def)
  qed
qed (simp add: insert_tx_def not_le)

text \<open>The transactions of the sender after an insertion are those that the loop produced.\<close>

lemma insert_tx_descendants:
  assumes inv: "at_inv a" and u: "hash_unique t (txs_view (at_txs a))"
    and ins: "insert_tx t balance nonce a = Some (Inr ok, a')"
  obtains state replaced b parked where
    "insert_checked t (tid_ancestor (vt_nonce t) nonce (vt_sender_id t)) a = Inr (state, replaced, b)"
    "descendant_txs (Tx_Id (vt_sender_id t) nonce) a' =
       fst (insert_loop (vt_transaction_id t) balance nonce 0 parked state (descendant_txs (Tx_Id (vt_sender_id t) nonce) b))"
    "io_state ok =
       snd (snd (insert_loop (vt_transaction_id t) balance nonce 0 parked state (descendant_txs (Tx_Id (vt_sender_id t) nonce) b)))"
    "io_move_to ok = sub_pool_of (io_state ok)"
proof -
  from ins obtain state replaced b parked ds us state' where
    b: "insert_checked t (tid_ancestor (vt_nonce t) nonce (vt_sender_id t)) a = Inr (state, replaced, b)"
    and loop: "insert_loop (vt_transaction_id t) balance nonce 0 parked state
      (descendant_txs (Tx_Id (vt_sender_id t) nonce) b) = (ds, us, state')"
    and ok: "ok = \<lparr>io_transaction = t, io_move_to = sub_pool_of state', io_state = state', io_replaced_tx = replaced, io_updates = us\<rparr>"
    and a': "a' = (let a = set_descendant_txs (Tx_Id (vt_sender_id t) nonce) ds b
       in if replaced = None then tx_inc (vt_sender_id t) a else a)"
    by (rule insert_tx_OkE)
  have "map fst ds = map fst (descendant_txs (Tx_Id (vt_sender_id t) nonce) b)"
    using map_fst_insert_loop loop by (metis fst_conv)
  from descendant_txs_set [OF this] show thesis
    using that [OF b, of parked] loop ok by (simp add: a' Let_def)
qed

lemma txs_view_take: "txs_view m = txs_view m' \<Longrightarrow> txs_view (take k m) = txs_view (take k m')"
  by (simp add: txs_view_def flip: take_map)

lemma txs_view_map: "map (\<lambda>e. f (it_transaction (snd e))) m = map (\<lambda>e. f (snd e)) (txs_view m)"
  by (simp add: txs_view_def)

section \<open>Sequences of operations\<close>

datatype at_op =
    At_Insert valid_pool_transaction u256 u64
  | At_Remove transaction_id
  | At_Remove_Hash h256
  | At_Update u128

fun at_run :: "at_op list \<Rightarrow> all_transactions \<Rightarrow> all_transactions option" where
  "at_run [] a = Some a"
| "at_run (At_Insert t balance nonce # ops) a =
     (case insert_tx t balance nonce a of None \<Rightarrow> None | Some (_, a) \<Rightarrow> at_run ops a)"
| "at_run (At_Remove i # ops) a = at_run ops (snd (at_remove_transaction i a))"
| "at_run (At_Remove_Hash x # ops) a = at_run ops (snd (at_remove_transaction_by_hash x a))"
| "at_run (At_Update fee # ops) a = at_run ops (snd (at_update fee a))"

fun inserted :: "at_op list \<Rightarrow> valid_pool_transaction set" where
  "inserted [] = {}"
| "inserted (At_Insert t _ _ # ops) = insert t (inserted ops)"
| "inserted (_ # ops) = inserted ops"

definition at_reach :: "valid_pool_transaction set \<Rightarrow> nat \<Rightarrow> all_transactions \<Rightarrow> bool" where
  "at_reach ts slots a \<longleftrightarrow> at_ok a \<and> snd ` set (txs_view (at_txs a)) \<subseteq> ts \<and> at_max_account_slots a = slots \<and>
     ((\<forall>t \<in> ts. \<not> vt_is_local t) \<longrightarrow> (\<forall>s. sender_count s (txs_view (at_txs a)) \<le> slots))"

lemma sender_count_filter_le: "sender_count s (filter P m) \<le> sender_count s m"
proof -
  have "filter (\<lambda>e. tid_sender (fst e) = s) (filter P m) = filter P (filter (\<lambda>e. tid_sender (fst e) = s) m)"
    by (simp add: conj_commute)
  then show ?thesis
    unfolding sender_count_def by (simp only: length_filter_le)
qed

lemma at_reach_filter:
  assumes r: "at_reach ts slots a" and "at_ok a'" and view: "txs_view (at_txs a') = filter P (txs_view (at_txs a))"
    and "at_max_account_slots a' = at_max_account_slots a"
  shows "at_reach ts slots a'"
proof -
  have "snd ` set (txs_view (at_txs a')) \<subseteq> ts"
    using r unfolding view at_reach_def by auto
  moreover have "\<forall>s. sender_count s (txs_view (at_txs a')) \<le> slots" if "\<forall>t \<in> ts. \<not> vt_is_local t"
    using r that order.trans [OF sender_count_filter_le] unfolding view at_reach_def by blast
  ultimately show ?thesis
    using assms(2,4) r by (simp add: at_reach_def)
qed

lemma at_remove_slots:
  "at_max_account_slots (snd (at_remove_transaction i a)) = at_max_account_slots a"
  "at_max_account_slots (snd (at_remove_transaction_by_hash x a)) = at_max_account_slots a"
  by (simp_all add: at_remove_transaction_def at_remove_transaction_by_hash_def tx_decr_eq Let_def split: option.splits)

lemma at_reach_ok: "at_reach ts slots a \<Longrightarrow> at_ok a"
  by (simp add: at_reach_def)

lemma at_reach_remove: "at_reach ts slots a \<Longrightarrow> at_reach ts slots (snd (at_remove_transaction i a))"
  by (rule at_reach_filter [OF _ at_ok_remove all_txs.view_del [unfolded btree_remove_def] at_remove_slots(1)])
    (simp_all add: at_reach_ok at_ok_inv)

lemma at_reach_remove_hash: "at_reach ts slots a \<Longrightarrow> at_reach ts slots (snd (at_remove_transaction_by_hash x a))"
  by (rule at_reach_filter [OF _ at_ok_remove_hash all_txs.view_del_hash at_remove_slots(2)])
    (simp_all add: at_reach_ok at_ok_inv)

lemma at_reach_update: "at_reach ts slots a \<Longrightarrow> at_reach ts slots (snd (at_update fee a))"
  using at_ok_update [of a fee] txs_view_update_senders [of fee "at_txs a"]
  by (simp add: at_reach_def at_update_def Let_def split_beta)

text \<open>No two transactions with different identifiers have the same hash.\<close>

definition hashes_unique :: "valid_pool_transaction set \<Rightarrow> bool" where
  "hashes_unique ts \<longleftrightarrow>
     (\<forall>t \<in> ts. \<forall>t' \<in> ts. vt_hash t = vt_hash t' \<longrightarrow> vt_transaction_id t = vt_transaction_id t')"

lemma at_reach_insert:
  assumes r: "at_reach ts slots a" and t: "t \<in> ts"
    and u: "hashes_unique ts" and ins: "insert_tx t balance nonce a = Some (res, a')"
  shows "at_reach ts slots a'"
proof (cases res)
  case (Inl err)
  then show ?thesis
    using insert_tx_Err ins r by blast
next
  case (Inr ok)
  let ?m = "txs_view (at_txs a)"
  have inv: "at_inv a"
    using r by (simp add: at_reach_def at_ok_def)
  have ids: "vt_transaction_id t' = i" if "(i, t') \<in> set ?m" for i t'
    using inv that by (simp add: at_inv_def view_inv_def)
  have unique: "hash_unique t ?m"
    unfolding hash_unique_def
  proof (intro allI impI)
    fix i t'
    assume "(i, t') \<in> set ?m" and "vt_hash t' = vt_hash t"
    moreover from this(1) have "t' \<in> ts"
      using r by (force simp: at_reach_def)
    ultimately show "i = vt_transaction_id t"
      using u t ids [of i t'] unfolding hashes_unique_def by metis
  qed
  have ok': "at_ok a'"
    using at_ok_insert [OF _ ins unique] r by (simp add: at_reach_def)
  have view: "txs_view (at_txs a') = btree_insert (vt_transaction_id t) t ?m"
    using insert_tx_Ok(2) [OF inv _ unique] ins Inr by simp
  have sub: "snd ` set (txs_view (at_txs a')) \<subseteq> ts"
    using image_mono [OF set_btree_insert_subset [of "vt_transaction_id t" t ?m], of snd] r t
    unfolding view at_reach_def by (simp add: order.trans)
  from ins Inr have ins': "insert_tx t balance nonce a = Some (Inr ok, a')"
    by simp
  then obtain state replaced b parked ds us state' where
    b: "insert_checked t (tid_ancestor (vt_nonce t) nonce (vt_sender_id t)) a = Inr (state, replaced, b)"
    and a': "a' = (let a = set_descendant_txs (Tx_Id (vt_sender_id t) nonce) ds b
       in if replaced = None then tx_inc (vt_sender_id t) a else a)"
    by (rule insert_tx_OkE)
  have slots: "at_max_account_slots a' = slots"
    using r insert_checked_frame(3) [OF b] by (simp add: a' tx_inc_eq set_descendant_txs_def at_reach_def Let_def)
  have less: "sender_count (vt_sender_id t) ?m < slots" if "\<not> vt_is_local t"
    using b that r inv
    by (auto simp: insert_checked_def and_then_eq_Inr ensure_valid_def at_reach_def at_inv_def view_inv_def Let_def
        split: if_splits)
  have le: "sender_count s (txs_view (at_txs a')) \<le>
      (if s = vt_sender_id t then Suc (sender_count s ?m) else sender_count s ?m)" for s
    using sender_count_insert_fresh [of ?m "vt_transaction_id t" s t]
      sender_count_replace [of ?m "vt_transaction_id t" _ s t] inv
    unfolding view by (cases "btree_get ?m (vt_transaction_id t)") (auto simp: vt_sender_id_def at_inv_def view_inv_def)
  have "sender_count s (txs_view (at_txs a')) \<le> slots" if "\<forall>t \<in> ts. \<not> vt_is_local t" for s
    using le [of s] less that t r unfolding at_reach_def
    by (cases "s = vt_sender_id t") (auto intro: order.trans)
  with ok' sub slots show ?thesis
    by (simp add: at_reach_def)
qed

lemma at_run_reach:
  assumes "hashes_unique ts"
  shows "at_run ops a = Some a' \<Longrightarrow> inserted ops \<subseteq> ts \<Longrightarrow> at_reach ts slots a \<Longrightarrow> at_reach ts slots a'"
proof (induction ops a rule: at_run.induct)
  case (2 t balance nonce ops a)
  then obtain res b where b: "insert_tx t balance nonce a = Some (res, b)" "at_run ops b = Some a'"
    by (auto split: option.splits)
  have "at_reach ts slots b"
    using at_reach_insert [OF "2.prems"(3) _ assms b(1)] "2.prems"(2) by simp
  with 2 b show ?case
    by auto
qed (simp_all add: at_reach_remove at_reach_remove_hash at_reach_update)

lemma at_reach_new: "at_reach ts slots (at_new slots)"
  using at_ok_new [of slots] by (simp add: at_reach_def) (simp add: at_new_def sender_count_def)

section \<open>The updates that are reported\<close>

text \<open>The moves that take the recorded sub-pools of one list of transactions to those of another.\<close>

definition subpool_change ::
    "transaction_id \<times> pool_internal_transaction \<Rightarrow> transaction_id \<times> pool_internal_transaction \<Rightarrow> pool_update list" where
  "subpool_change e e' =
     (if it_subpool (snd e) = it_subpool (snd e') then []
      else [\<lparr>pu_id = fst e, pu_hash = vt_hash (it_transaction (snd e)), pu_current = it_subpool (snd e),
             pu_destination = Pool (it_subpool (snd e'))\<rparr>])"

definition subpool_changes :: "pool_txs \<Rightarrow> pool_txs \<Rightarrow> pool_update list" where
  "subpool_changes m m' = concat (map2 subpool_change m m')"

lemma subpool_changes_append:
  "length m = length m' \<Longrightarrow> subpool_changes (m @ n) (m' @ n') = subpool_changes m m' @ subpool_changes n n'"
  by (simp add: subpool_changes_def)

lemma subpool_changes_Cons: "subpool_changes (e # m) (e' # m') = subpool_change e e' @ subpool_changes m m'"
  by (simp add: subpool_changes_def)

lemma subpool_changes_same: "subpool_changes m m = []"
  by (induction m) (simp_all add: subpool_changes_def subpool_change_def)

lemma subpool_set_parked [simp]: "it_subpool (set_parked_ancestor b tx) = it_subpool tx"
  by (simp add: set_parked_ancestor_def)

lemma subpool_base_fee [simp]: "it_subpool (at_update_base_fee fee tx) = it_subpool tx"
  by (simp add: at_update_base_fee_def split: option.splits)

lemma record_change:
  "vt_transaction_id (it_transaction tx) = i \<Longrightarrow> it_transaction tx = it_transaction tx' \<Longrightarrow> it_subpool tx = it_subpool tx' \<Longrightarrow>
   fst (record_subpool_update tx) = subpool_change (i, tx') (i, snd (record_subpool_update tx))"
  by (simp add: record_subpool_update_def subpool_change_def Let_def)

definition ids_ok :: "pool_txs \<Rightarrow> bool" where
  "ids_ok m \<longleftrightarrow> (\<forall>e \<in> set m. vt_transaction_id (it_transaction (snd e)) = fst e)"

lemma update_consecutive_changes:
  "ids_ok m \<Longrightarrow> \<exists>pre. m = pre @ snd (snd (update_consecutive fee s parked m)) \<and>
     length pre = length (fst (update_consecutive fee s parked m)) \<and>
     fst (snd (update_consecutive fee s parked m)) = subpool_changes pre (fst (update_consecutive fee s parked m))"
proof (induction m arbitrary: parked)
  case (Cons e m)
  obtain i tx where e: "e = (i, tx)"
    by (cases e)
  show ?case
  proof (cases "tid_sender i \<noteq> s \<or> has_nonce_gap (it_state tx)")
    case True
    show ?thesis
      unfolding e update_consecutive_stop [OF True] fst_conv snd_conv
      by (intro exI [of _ "takeWhile (\<lambda>e. tid_sender (fst e) = s) ((i, tx) # m)"]) (simp add: subpool_changes_same)
  next
    case False
    let ?r = "record_subpool_update (at_update_base_fee fee (set_parked_ancestor parked tx))"
      and ?u = "update_consecutive fee s (\<not> is_pending (it_state (set_parked_ancestor parked tx))) m"
    obtain pre where pre: "m = pre @ snd (snd ?u)" "length pre = length (fst ?u)" "fst (snd ?u) = subpool_changes pre (fst ?u)"
      using Cons by (auto simp: ids_ok_def)
    have "fst ?r = subpool_change (i, tx) (i, snd ?r)"
      using Cons.prems by (intro record_change) (simp_all add: e ids_ok_def)
    with pre False show ?thesis
      unfolding e by (intro exI [of _ "(i, tx) # pre"])
        (simp add: update_consecutive_step subpool_changes_Cons Let_def del: update_consecutive.simps)
  qed
qed (simp add: subpool_changes_def)

lemma update_senders_changes:
  "ids_ok m \<Longrightarrow> length (fst (update_senders fee m)) = length m \<and>
     snd (update_senders fee m) = subpool_changes m (fst (update_senders fee m))"
proof (induction fee m rule: update_senders.induct)
  case (2 fee i tx iter)
  let ?same = "\<lambda>e. tid_sender (fst e) = tid_sender i"
  show ?case
  proof (cases "has_nonce_gap (it_state tx)")
    case True
    have "ids_ok (dropWhile ?same iter)"
      using 2(3) by (auto simp: ids_ok_def dest: set_dropWhileD)
    note IH = 2(1) [OF True this]
    let ?u = "update_senders fee (dropWhile ?same iter)"
    have "subpool_changes iter (takeWhile ?same iter @ fst ?u) = subpool_changes (takeWhile ?same iter @ dropWhile ?same iter) (takeWhile ?same iter @ fst ?u)"
      by simp
    also have "\<dots> = snd ?u"
      using IH by (simp add: subpool_changes_append subpool_changes_same del: takeWhile_dropWhile_id)
    finally have "subpool_changes iter (takeWhile ?same iter @ fst ?u) = snd ?u" .
    moreover have "length (takeWhile ?same iter) + length (dropWhile ?same iter) = length iter"
      by (metis length_append takeWhile_dropWhile_id)
    ultimately show ?thesis
      using True IH by (simp add: split_beta subpool_changes_Cons subpool_change_def)
  next
    case False
    obtain pushed tx' where r: "record_subpool_update (at_update_base_fee fee
        (tx\<lparr>it_state := state_insert NO_PARKED_ANCESTORS (it_state tx)\<rparr>)) = (pushed, tx')"
      by fastforce
    obtain passed us rest where c: "update_consecutive fee (tid_sender i) (\<not> is_pending (it_state tx')) iter = (passed, us, rest)"
      by (cases "update_consecutive fee (tid_sender i) (\<not> is_pending (it_state tx')) iter")
    have ids: "ids_ok iter" and id: "vt_transaction_id (it_transaction tx) = i"
      using 2(3) by (simp_all add: ids_ok_def)
    obtain pre where pre: "iter = pre @ rest" "length pre = length passed" "us = subpool_changes pre passed"
      using update_consecutive_changes [OF ids, of fee "tid_sender i" "\<not> is_pending (it_state tx')"] unfolding c by auto
    have "ids_ok rest"
      using ids pre(1) by (auto simp: ids_ok_def)
    note IH = 2(2) [OF False refl refl r [symmetric] refl refl c [symmetric] refl this]
    have "pushed = subpool_change (i, tx) (i, tx')"
      using record_change [of "at_update_base_fee fee (tx\<lparr>it_state := state_insert NO_PARKED_ANCESTORS (it_state tx)\<rparr>)" i tx]
      by (simp add: r id)
    with IH pre show ?thesis
      using False c r by (simp add: Let_def split_beta subpool_changes_Cons subpool_changes_append)
  qed
qed (simp add: subpool_changes_def)

text \<open>Without nonce gaps every transaction is rechecked.\<close>

definition rechecked :: "u128 \<Rightarrow> pool_internal_transaction \<Rightarrow> bool" where
  "rechecked fee p \<longleftrightarrow> it_subpool p = sub_pool_of (it_state p) \<and>
     (\<forall>f. vt_max_fee_per_gas (it_transaction p) = Some f \<longrightarrow> (has_enough_fee_cap (it_state p) \<longleftrightarrow> fee \<le> f))"

lemma rechecked_record:
  "entry_ok limit fee' tx \<Longrightarrow> rechecked fee (snd (record_subpool_update (at_update_base_fee fee tx)))"
  unfolding entry_ok_def state_ok_def
  by (elim conjE valid_stateE)
    (auto simp: rechecked_def record_subpool_update_def at_update_base_fee_def Let_def split: option.splits)

lemma rechecked_consecutive:
  "entries_ok limit fee' m \<Longrightarrow> \<forall>e \<in> set m. \<not> has_nonce_gap (it_state (snd e)) \<Longrightarrow>
   \<forall>e \<in> set (fst (update_consecutive fee s parked m)). rechecked fee (snd e)"
proof (induction m arbitrary: parked)
  case (Cons e m)
  obtain i tx where e: "e = (i, tx)"
    by (cases e)
  show ?case
  proof (cases "tid_sender i = s")
    case True
    with Cons show ?thesis
      using rechecked_record [OF entry_ok_set_parked [of limit fee' tx parked]]
      by (simp add: e update_consecutive_step Let_def del: update_consecutive.simps)
  qed (simp add: e)
qed simp

lemma rechecked_senders:
  "entries_ok limit fee' m \<Longrightarrow> \<forall>e \<in> set m. \<not> has_nonce_gap (it_state (snd e)) \<Longrightarrow> ids_ok m \<Longrightarrow>
   \<forall>e \<in> set (fst (update_senders fee m)). rechecked fee (snd e)"
proof (induction fee m rule: update_senders.induct)
  case (2 fee i tx iter)
  have gap: "\<not> has_nonce_gap (it_state tx)" and iter: "\<forall>e \<in> set iter. \<not> has_nonce_gap (it_state (snd e))"
    using 2(4) by simp_all
  have tx: "entry_ok limit fee' tx" and ok: "entries_ok limit fee' iter" and ids: "ids_ok iter"
    using 2(3,5) by (simp_all add: ids_ok_def)
  obtain pushed tx' where r: "record_subpool_update (at_update_base_fee fee
      (tx\<lparr>it_state := state_insert NO_PARKED_ANCESTORS (it_state tx)\<rparr>)) = (pushed, tx')"
    by fastforce
  obtain passed us rest where c: "update_consecutive fee (tid_sender i) (\<not> is_pending (it_state tx')) iter = (passed, us, rest)"
    by (cases "update_consecutive fee (tid_sender i) (\<not> is_pending (it_state tx')) iter")
  obtain pre where pre: "iter = pre @ rest"
    using update_consecutive_changes [OF ids, of fee "tid_sender i" "\<not> is_pending (it_state tx')"] unfolding c by auto
  have "rechecked fee tx'"
    using rechecked_record [OF entry_ok_first [OF tx], of fee] by (simp add: r)
  moreover have "\<forall>e \<in> set passed. rechecked fee (snd e)"
    using rechecked_consecutive [OF ok iter, of fee "tid_sender i" "\<not> is_pending (it_state tx')"] by (simp add: c)
  moreover have "\<forall>e \<in> set (fst (update_senders fee rest)). rechecked fee (snd e)"
    using 2(2) [OF gap refl refl r [symmetric] refl refl c [symmetric] refl] ok iter ids by (auto simp: pre ids_ok_def)
  ultimately show ?case
    using gap c r by (simp add: Let_def split_beta ball_Un)
qed simp

lemma at_inv_ids: "at_inv a \<Longrightarrow> ids_ok (at_txs a)"
  by (force simp: at_inv_def view_inv_def ids_ok_def txs_view_def)

section \<open>An example\<close>

definition example_at :: "at_op list \<Rightarrow> all_transactions" where
  "example_at ops = the (at_run ops (at_new 16))"

definition recorded :: "all_transactions \<Rightarrow> (u64 \<times> sub_pool \<times> sub_pool) list" where
  "recorded a = map (\<lambda>(i, p). (tid_nonce i, it_subpool p, sub_pool_of (it_state p))) (at_txs a)"

lemma example_vt [simp]:
  "vt_transaction_id (example_capped cap n c) = Tx_Id 0 n" "vt_nonce (example_capped cap n c) = n"
  "vt_hash (example_capped cap n c) = [ucast n]" "vt_is_local (example_capped cap n c) = False"
  "vt_gas_limit (example_capped cap n c) = 21000" "vt_max_fee_per_gas (example_capped cap n c) = Some cap"
  "vt_sender_id (example_capped cap n c) = 0" "vt_cost (example_capped cap n c) = c"
  by (simp_all add: example_capped_def vt_nonce_def pt_nonce_def pt_inner_def vt_hash_def pt_hash_def vt_is_local_def
      vt_gas_limit_def pt_gas_limit_def vt_max_fee_per_gas_def pt_max_fee_per_gas_def vt_sender_id_def Let_def)

lemma hash_unique_Nil: "hash_unique t []"
  by (simp add: hash_unique_def)

text \<open>A container with one transaction, to which a second one of the sender is added.\<close>

definition example_one :: all_transactions where
  "example_one = example_at [At_Insert (example_capped 100 0 5) 100 0]"

lemma example_one_run: "at_run [At_Insert (example_capped 100 0 5) 100 0] (at_new 16) = Some example_one"
proof -
  have "at_run [At_Insert (example_capped 100 0 5) 100 0] (at_new 16) \<noteq> None"
    by code_simp
  then show ?thesis
    by (auto simp: example_one_def example_at_def)
qed

lemma example_one_ok: "at_ok example_one" "hash_unique (example_capped 100 1 5) (txs_view (at_txs example_one))"
proof -
  have "hashes_unique {example_capped 100 0 5}"
    by (simp add: hashes_unique_def)
  from at_run_reach [OF this example_one_run _ at_reach_new] have r: "at_reach {example_capped 100 0 5} 16 example_one"
    by simp
  then show "at_ok example_one"
    by (rule at_reach_ok)
  have "t = example_capped 100 0 5" if "(i, t) \<in> set (txs_view (at_txs example_one))" for i t
    using r that by (force simp: at_reach_def)
  then show "hash_unique (example_capped 100 1 5) (txs_view (at_txs example_one))"
    by (fastforce simp: hash_unique_def)
qed

lemma example_two:
  "case insert_tx (example_capped 100 1 5) 100 0 example_one of
     Some (Inr ok, a) \<Rightarrow> map (\<lambda>(i, p). (tid_nonce i, is_pending (it_state p), vt_cost (it_transaction p)))
       (descendant_txs (Tx_Id 0 0) a) = [(0, True, 5), (1, True, 5)]
   | _ \<Rightarrow> False"
  by code_simp

lemma example_two_inserted:
  obtains ok a where "insert_tx (example_capped 100 1 5) 100 0 example_one = Some (Inr ok, a)"
    "map (\<lambda>(i, p). (tid_nonce i, is_pending (it_state p), vt_cost (it_transaction p)))
       (descendant_txs (Tx_Id 0 0) a) = [(0, True, 5), (1, True, 5)]"
proof (cases "insert_tx (example_capped 100 1 5) 100 0 example_one")
  case (Some r)
  with that example_two show ?thesis
    by (cases r; cases "fst r") simp_all
qed (use example_two in simp)

section \<open>Properties\<close>

text \<open>C11. The container of all transactions is consistent after every sequence of insertions, removals and
  updates: the map by hash holds exactly the transactions of the sorted map, the counters are the numbers
  of transactions of the senders, every transaction has a fee cap of at least the minimum, and a sender of
  external transactions never has more than the configured slots. Hashes are assumed not to collide.\<close>

theorem all_transactions_consistent:
  assumes "at_run ops (at_new slots) = Some a" and "hashes_unique (inserted ops)"
  shows "(\<forall>x t. at_by_hash a x = Some t \<longleftrightarrow>
      vt_hash t = x \<and> map_option it_transaction (btree_get (at_txs a) (vt_transaction_id t)) = Some t) \<and>
    (\<forall>s. at_tx_counter a s = (let n = sender_count s (at_txs a) in if n = 0 then None else Some n)) \<and>
    (\<forall>i p f. btree_get (at_txs a) i = Some p \<longrightarrow> vt_max_fee_per_gas (it_transaction p) = Some f \<longrightarrow>
       at_minimal_protocol_basefee a \<le> f) \<and>
    ((\<forall>t \<in> inserted ops. \<not> vt_is_local t) \<longrightarrow> (\<forall>s. sender_count s (at_txs a) \<le> slots))"
proof -
  have r: "at_reach (inserted ops) slots a"
    by (rule at_run_reach [OF assms(2,1) order.refl at_reach_new])
  then have inv: "view_inv (txs_view (at_txs a)) (at_by_hash a) (at_tx_counter a)"
    by (simp add: at_reach_def at_ok_def at_inv_def)
  have count: "sender_count s (txs_view m) = sender_count s m" for s m
    by (induction m) (auto simp: sender_count_def)
  have wf: "btree_wf (at_txs a)"
    using inv by (simp add: view_inv_def btree_wf_txs_view)
  have "at_minimal_protocol_basefee a \<le> f"
    if "btree_get (at_txs a) i = Some p" "vt_max_fee_per_gas (it_transaction p) = Some f" for i p f
    using that r wf by (force simp: at_reach_def at_ok_def entries_ok_def entry_ok_def state_ok_def btree_get_Some_iff)
  then show ?thesis
    using inv r unfolding view_inv_def at_reach_def count Let_def
    by (simp add: btree_get_Some_iff [symmetric] txs_view_get)
qed

theorem all_transactions_consistent_witness:
  "hashes_unique (inserted [At_Insert (example_capped 100 0 5) 100 0]) \<and>
   at_run [At_Insert (example_capped 100 0 5) 100 0] (at_new 16) = Some example_one \<and>
   (\<forall>s. sender_count s (at_txs example_one) \<le> 16)"
proof -
  have u: "hashes_unique (inserted [At_Insert (example_capped 100 0 5) 100 0])"
    by (simp add: hashes_unique_def)
  from all_transactions_consistent [OF example_one_run u] u example_one_run show ?thesis
    by simp
qed



text \<open>C4. Inserting a transaction refines a map update with four error cases. The operation panics exactly when the
  nonce is below the one of the chain. Otherwise it returns the first error that applies, of a sender without
  free slots, a gas limit above the one of a block, a fee cap below the minimum of the protocol, and a
  replacement that is underpriced, and leaves the container as it was; or it succeeds, and the container
  holds the transaction under its identifier and is consistent.\<close>

theorem insert_refines_spec:
  assumes inv: "at_inv a" and u: "hash_unique t (txs_view (at_txs a))"
    and id: "tid_nonce (vt_transaction_id t) = vt_nonce t"
  shows "if vt_nonce t < nonce then insert_tx t balance nonce a = None
    else
      (case insert_spec (at_max_account_slots a) (at_block_gas_limit a) (at_minimal_protocol_basefee a)
              (txs_view (at_txs a)) t of
         Some err \<Rightarrow> insert_tx t balance nonce a = Some (Inl err, a)
       | None \<Rightarrow> \<exists>ok a'. insert_tx t balance nonce a = Some (Inr ok, a') \<and> at_inv a' \<and>
           txs_view (at_txs a') = btree_insert (vt_transaction_id t) t (txs_view (at_txs a)))"
  by (rule insert_tx_spec [OF inv u id])

theorem insert_refines_spec_witness:
  "\<exists>ok a'. insert_tx (example_capped 100 0 5) 100 0 (at_new 16) = Some (Inr ok, a') \<and> at_inv a' \<and>
     txs_view (at_txs a') = [(Tx_Id 0 0, example_capped 100 0 5)]"
proof -
  have new: "at_txs (at_new 16) = []" "at_max_account_slots (at_new 16) = 16" "at_block_gas_limit (at_new 16) = 30000000"
    "at_minimal_protocol_basefee (at_new 16) = 7"
    by (simp_all add: at_new_def MIN_PROTOCOL_BASE_FEE_def)
  have "insert_spec 16 30000000 7 [] (example_capped 100 0 5) = None"
    by (simp add: insert_spec_def sender_count_def btree_get_def)
  then show ?thesis
    using insert_refines_spec [OF at_inv_new [of 16], of "example_capped 100 0 5" 0 100] by (simp add: new hash_unique_Nil)
qed

text \<open>The new transaction is recorded in the queue, whatever sub-pool it is moved to; its state is the
  one that decides the move.\<close>

theorem insert_records_queued:
  assumes "at_inv a" and "hash_unique t (txs_view (at_txs a))" and id: "tid_nonce (vt_transaction_id t) = vt_nonce t"
    and ins: "insert_tx t balance nonce a = Some (Inr ok, a')"
  shows "\<exists>p. btree_get (at_txs a') (vt_transaction_id t) = Some p \<and> it_subpool p = Queued \<and>
    it_state p = io_state ok \<and> io_move_to ok = sub_pool_of (io_state ok)"
proof -
  obtain state replaced b parked where
    b: "insert_checked t (tid_ancestor (vt_nonce t) nonce (vt_sender_id t)) a = Inr (state, replaced, b)"
    and d: "descendant_txs (Tx_Id (vt_sender_id t) nonce) a' =
       fst (insert_loop (vt_transaction_id t) balance nonce 0 parked state (descendant_txs (Tx_Id (vt_sender_id t) nonce) b))"
    and s: "io_state ok =
       snd (snd (insert_loop (vt_transaction_id t) balance nonce 0 parked state (descendant_txs (Tx_Id (vt_sender_id t) nonce) b)))"
    and mv: "io_move_to ok = sub_pool_of (io_state ok)"
    using insert_tx_descendants [OF assms(1,2) ins] by blast
  have "nonce \<le> tid_nonce (vt_transaction_id t)"
    using ins id by (auto simp: insert_tx_def split: if_splits)
  note desc = insert_checked_descendants [OF assms(1,2) b this]
  have "distinct (map fst (descendant_txs (Tx_Id (vt_sender_id t) nonce) b))"
    using btree_wf_distinct [OF btree_wf_filter [OF desc(2)]] by (simp add: descendant_txs_eq [OF desc(2)])
  from insert_loop_new [OF this desc(1), of state balance nonce 0 parked]
  obtain p where p: "(vt_transaction_id t, p) \<in> set (descendant_txs (Tx_Id (vt_sender_id t) nonce) a')"
    "it_subpool p = Queued" "it_state p = io_state ok"
    unfolding d s by auto
  have "btree_wf (at_txs a')"
    using insert_tx_Ok(1) [OF assms(1) ins assms(2)] by (simp add: at_inv_def view_inv_def btree_wf_txs_view)
  with p have "btree_get (at_txs a') (vt_transaction_id t) = Some p"
    by (simp add: btree_get_Some_iff descendant_txs_eq)
  with p mv show ?thesis
    by blast
qed

theorem insert_records_queued_witness:
  "\<exists>ok a' p. insert_tx (example_capped 100 1 5) 100 0 example_one = Some (Inr ok, a') \<and>
     btree_get (at_txs a') (Tx_Id 0 1) = Some p \<and> it_subpool p = Queued"
proof -
  obtain ok a' where ins: "insert_tx (example_capped 100 1 5) 100 0 example_one = Some (Inr ok, a')"
    by (rule example_two_inserted)
  with insert_records_queued [OF at_ok_inv [OF example_one_ok(1)] example_one_ok(2) _ ins] show ?thesis
    by auto
qed

text \<open>C6. After an insertion, every pending transaction that is reached from the nonce of the chain without a
  gap can be executed: all the transactions of the sender before it are pending as well, and the balance
  covers the costs of all of them together. The hypothesis on the sum excludes the wrap-around of the
  256-bit costs.\<close>

theorem pending_chain_affordable:
  assumes ok: "at_ok a" and u: "hash_unique t (txs_view (at_txs a))"
    and ins: "insert_tx t balance nonce a = Some (Inr res, a')"
    and chain: "chain = descendant_txs (Tx_Id (vt_sender_id t) nonce) a'"
    and k: "k < length chain"
    and gapless: "\<forall>j \<le> k. tid_nonce (fst (chain ! j)) = nonce + of_nat j"
    and pend: "is_pending (it_state (snd (chain ! k)))"
    and bound: "(\<Sum>e\<leftarrow>take (Suc k) chain. unat (vt_cost (it_transaction (snd e)))) < 2 ^ 256"
  shows "(\<Sum>e\<leftarrow>take (Suc k) chain. unat (vt_cost (it_transaction (snd e)))) \<le> unat balance \<and>
    (\<forall>j \<le> k. is_pending (it_state (snd (chain ! j))))"
proof -
  obtain state replaced b parked where
    b: "insert_checked t (tid_ancestor (vt_nonce t) nonce (vt_sender_id t)) a = Inr (state, replaced, b)"
    and d: "descendant_txs (Tx_Id (vt_sender_id t) nonce) a' =
       fst (insert_loop (vt_transaction_id t) balance nonce 0 parked state (descendant_txs (Tx_Id (vt_sender_id t) nonce) b))"
    using insert_tx_descendants [OF at_ok_inv [OF ok] u ins] by metis
  note d = d [folded chain]
  let ?m = "descendant_txs (Tx_Id (vt_sender_id t) nonce) b"
  have m: "entries_ok (at_block_gas_limit a) (at_minimal_protocol_basefee a) ?m"
    by (rule entries_ok_sub [OF insert_checked_ok [OF ok b]]) (auto simp: descendant_txs_def dest: set_takeWhileD)
  have view: "txs_view chain = txs_view ?m"
    unfolding d by (rule txs_view_insert_loop)
  then have keys: "map fst chain = map fst ?m"
    by (metis map_fst_txs_view)
  then have "k < length ?m" and nonces: "\<And>j. j \<le> k \<Longrightarrow> tid_nonce (fst (?m ! j)) = nonce + of_nat j"
    using k gapless by (metis length_map, metis (no_types, lifting) le_less_trans length_map nth_map)
  from insert_loop_chain [OF m this pend [unfolded d]]
  have sum: "(\<Sum>e\<leftarrow>take (Suc k) ?m. vt_cost (it_transaction (snd e))) \<le> balance"
    and all: "\<forall>j \<le> k. is_pending (it_state (snd (chain ! j)))"
    unfolding d [symmetric] add_0 by blast+
  have "(\<Sum>e\<leftarrow>take (Suc k) chain. vt_cost (it_transaction (snd e))) \<le> balance"
    using sum txs_view_take [OF view, of "Suc k"] by (simp only: txs_view_map)
  then show ?thesis
    using unat_sum_list [of "\<lambda>e. vt_cost (it_transaction (snd e))" "take (Suc k) chain"] bound all
    by (simp add: word_le_nat_alt)
qed

theorem pending_chain_affordable_witness:
  "\<exists>res a'. insert_tx (example_capped 100 1 5) 100 0 example_one = Some (Inr res, a') \<and>
     (\<Sum>e\<leftarrow>take (Suc 1) (descendant_txs (Tx_Id 0 0) a'). unat (vt_cost (it_transaction (snd e)))) \<le> 100 \<and>
     length (descendant_txs (Tx_Id 0 0) a') = 2"
proof -
  obtain ok a' where ins: "insert_tx (example_capped 100 1 5) 100 0 example_one = Some (Inr ok, a')"
    and chain: "map (\<lambda>(i, p). (tid_nonce i, is_pending (it_state p), vt_cost (it_transaction p)))
       (descendant_txs (Tx_Id 0 0) a') = [(0, True, 5), (1, True, 5)]"
    by (rule example_two_inserted)
  then obtain i p j q where d: "descendant_txs (Tx_Id 0 0) a' = [(i, p), (j, q)]" "tid_nonce i = 0" "tid_nonce j = 1"
    "is_pending (it_state q)" "vt_cost (it_transaction p) = 5" "vt_cost (it_transaction q) = 5"
    by (auto simp: map_eq_Cons_conv)
  have "(\<Sum>e\<leftarrow>take (Suc 1) (descendant_txs (Tx_Id 0 0) a'). unat (vt_cost (it_transaction (snd e)))) \<le> unat (100 :: u256) \<and>
    (\<forall>n \<le> 1. is_pending (it_state (snd (descendant_txs (Tx_Id 0 0) a' ! n))))"
    using d by (intro pending_chain_affordable [OF example_one_ok ins]) (auto simp: le_Suc_eq)
  with ins d(1) show ?thesis
    by auto
qed

text \<open>Three sequences after which a sub-pool is wrong, with the nonces, the recorded and the computed
  sub-pools. A base fee of 60 demotes the second of three transactions, whose cap is 50, and leaves the
  third one pending, because the inner loop decides whether there is a parked ancestor before it rechecks
  the fee. A base fee is not applied to a transaction with a nonce gap, so that a cap of 50 is pending under
  a base fee of 60 once the gap is closed. A first transaction that was queued for lack of funds stays
  queued when the next insertion sees enough funds, because it is taken for its own parked ancestor.\<close>

theorem sub_pools_stale:
  "recorded (example_at [At_Insert (example_capped 100 0 5) 100 0, At_Insert (example_capped 50 1 5) 100 0,
      At_Insert (example_capped 100 2 5) 100 0, At_Update 60]) =
     [(0, Pending, Pending), (1, BaseFee, BaseFee), (2, Pending, Pending)] \<and>
   recorded (example_at [At_Insert (example_capped 50 1 5) 100 0, At_Update 60, At_Insert (example_capped 100 0 5) 100 0]) =
     [(0, Queued, Pending), (1, Pending, Pending)] \<and>
   recorded (example_at [At_Insert (example_capped 100 0 5) 0 0, At_Insert (example_capped 100 1 5) 100 0]) =
     [(0, Queued, Queued), (1, Queued, Queued)]"
  by (intro conjI; code_simp)

end
