(* ===== verification/TxPool.thy ===== *)
theory TxPool
  imports ReadyTransactions
begin

text \<open>
  The transaction pool: \<^verbatim>\<open>TxPool\<close> of \<^verbatim>\<open>crates/transaction-pool/src/pool/txpool.rs\<close>, which keeps the sub-pools
  in step with the container of all transactions, \<^verbatim>\<open>PoolInner\<close> of \<^verbatim>\<open>pool/mod.rs\<close> around it, and the entry
  point of \<^verbatim>\<open>lib.rs\<close> that validates transactions first. \<open>priority\<close> is the order of the pool. An operation that
  can panic returns an option, \<^term>\<open>None\<close> being the panic; locks, metrics and the channels to listeners
  are left out.
\<close>

section \<open>State\<close>

record sender_info =
  sn_state_nonce :: u64
  sn_balance :: u256

record 'k tx_pool =
  tp_sender_info :: "PoolTypes.sender_id \<rightharpoonup> sender_info"
  tp_pending_pool :: "'k pending_pool"
  tp_config :: pool_config
  tp_queued_pool :: "(u256 \<times> int) parked_pool"
  tp_basefee_pool :: "(u128 option) parked_pool"
  tp_all_transactions :: all_transactions

definition tp_new :: "pool_config \<Rightarrow> 'k tx_pool" where
  "tp_new config =
     \<lparr>tp_sender_info = Map.empty, tp_pending_pool = pending_new, tp_config = config,
      tp_queued_pool = parked_default, tp_basefee_pool = parked_default,
      tp_all_transactions = at_new (max_account_slots config)\<rparr>"

record pool_size =
  ps_pending :: nat
  ps_pending_size :: nat
  ps_basefee :: nat
  ps_basefee_size :: nat
  ps_queued :: nat
  ps_queued_size :: nat

definition tp_size :: "'k tx_pool \<Rightarrow> pool_size" where
  "tp_size p =
     \<lparr>ps_pending = pending_len (tp_pending_pool p), ps_pending_size = pending_size (tp_pending_pool p),
      ps_basefee = parked_len (tp_basefee_pool p), ps_basefee_size = parked_size (tp_basefee_pool p),
      ps_queued = parked_len (tp_queued_pool p), ps_queued_size = parked_size (tp_queued_pool p)\<rparr>"

definition tp_best_transactions :: "'k tx_pool \<Rightarrow> 'k best_transactions" where
  "tp_best_transactions p = pending_best (tp_pending_pool p)"

definition tp_contains :: "'k tx_pool \<Rightarrow> h256 \<Rightarrow> bool" where
  "tp_contains p tx_hash = at_contains (tp_all_transactions p) tx_hash"

definition tp_get :: "'k tx_pool \<Rightarrow> h256 \<Rightarrow> valid_pool_transaction option" where
  "tp_get p tx_hash = at_by_hash (tp_all_transactions p) tx_hash"

definition tp_get_all :: "'k tx_pool \<Rightarrow> h256 list \<Rightarrow> valid_pool_transaction list" where
  "tp_get_all p txs = List.map_filter (tp_get p) txs"

definition tp_len :: "'k tx_pool \<Rightarrow> nat" where
  "tp_len p = at_len (tp_all_transactions p)"

record update_outcome =
  uo_promoted :: "h256 list"
  uo_discarded :: "h256 list"

datatype added_transaction =
    Added_Pending valid_pool_transaction "h256 list" "h256 list"
  | Added_Parked valid_pool_transaction sub_pool

record on_new_block_event =
  ev_hash :: h256
  ev_pending_block_base_fee :: u128
  ev_mined_transactions :: "h256 list"

record on_new_block_outcome =
  oc_block_hash :: h256
  oc_mined :: "h256 list"
  oc_promoted :: "h256 list"
  oc_discarded :: "h256 list"

section \<open>Operations\<close>

definition remove_from_subpool ::
    "sub_pool \<Rightarrow> transaction_id \<Rightarrow> 'k tx_pool \<Rightarrow> valid_pool_transaction option \<times> 'k tx_pool" where
  "remove_from_subpool pool tx p =
     (case pool of
        Queued \<Rightarrow>
          (let (r, q) = parked_remove_transaction queued_ord tx (tp_queued_pool p)
           in (r, p\<lparr>tp_queued_pool := q\<rparr>))
      | Pending \<Rightarrow>
          (let (r, q) = pending_remove_transaction tx (tp_pending_pool p)
           in (r, p\<lparr>tp_pending_pool := q\<rparr>))
      | BaseFee \<Rightarrow>
          (let (r, q) = parked_remove_transaction basefee_ord tx (tp_basefee_pool p)
           in (r, p\<lparr>tp_basefee_pool := q\<rparr>)))"

definition add_transaction_to_subpool ::
    "(pooled_transaction \<Rightarrow> 'k::linorder) \<Rightarrow> sub_pool \<Rightarrow> valid_pool_transaction \<Rightarrow> 'k tx_pool \<Rightarrow>
     'k tx_pool option" where
  "add_transaction_to_subpool priority pool tx p =
     (case pool of
        Queued \<Rightarrow> map_option (\<lambda>q. p\<lparr>tp_queued_pool := q\<rparr>) (parked_add_transaction queued_ord tx (tp_queued_pool p))
      | Pending \<Rightarrow> map_option (\<lambda>q. p\<lparr>tp_pending_pool := q\<rparr>) (pending_add_transaction priority tx (tp_pending_pool p))
      | BaseFee \<Rightarrow> map_option (\<lambda>q. p\<lparr>tp_basefee_pool := q\<rparr>) (parked_add_transaction basefee_ord tx (tp_basefee_pool p)))"

definition add_new_transaction ::
    "(pooled_transaction \<Rightarrow> 'k::linorder) \<Rightarrow> valid_pool_transaction \<Rightarrow>
     (valid_pool_transaction \<times> sub_pool) option \<Rightarrow> sub_pool \<Rightarrow> 'k tx_pool \<Rightarrow> 'k tx_pool option" where
  "add_new_transaction priority transaction replaced pool p =
     (let p = (case replaced of
                 Some (replaced, replaced_pool) \<Rightarrow>
                   snd (remove_from_subpool replaced_pool (vt_transaction_id replaced) p)
               | None \<Rightarrow> p)
      in add_transaction_to_subpool priority pool transaction p)"

definition move_transaction ::
    "(pooled_transaction \<Rightarrow> 'k::linorder) \<Rightarrow> sub_pool \<Rightarrow> sub_pool \<Rightarrow> transaction_id \<Rightarrow> 'k tx_pool \<Rightarrow>
     'k tx_pool option" where
  "move_transaction priority from to i p =
     (case remove_from_subpool from i p of
        (Some tx, p) \<Rightarrow> add_transaction_to_subpool priority to tx p
      | (None, p) \<Rightarrow> Some p)"

fun process_updates ::
    "(pooled_transaction \<Rightarrow> 'k::linorder) \<Rightarrow> pool_update list \<Rightarrow> update_outcome \<Rightarrow> 'k tx_pool \<Rightarrow>
     (update_outcome \<times> 'k tx_pool) option" where
  "process_updates priority [] outcome p = Some (outcome, p)"
| "process_updates priority (u # updates) outcome p =
     (case pu_destination u of
        Discard \<Rightarrow>
          process_updates priority updates (outcome\<lparr>uo_discarded := uo_discarded outcome @ [pu_hash u]\<rparr>) p
      | Pool move_to \<Rightarrow>
          (case move_transaction priority (pu_current u) move_to (pu_id u) p of
             None \<Rightarrow> None
           | Some p \<Rightarrow>
               process_updates priority updates
                 (if move_to = Pending
                  then outcome\<lparr>uo_promoted := uo_promoted outcome @ [pu_hash u]\<rparr> else outcome) p))"

definition empty_outcome :: update_outcome where
  "empty_outcome = \<lparr>uo_promoted = [], uo_discarded = []\<rparr>"

fun insert_error :: "insert_err \<Rightarrow> 'e pool_error" where
  "insert_error (Err_Underpriced _ existing) = ReplacementUnderpriced existing"
| "insert_error (Err_ProtocolFeeCapTooLow transaction fee_cap) = ProtocolFeeCapTooLow (vt_hash transaction) fee_cap"
| "insert_error (Err_ExceededSenderTransactionsCapacity transaction) =
     SpammerExceededCapacity (pt_sender (vt_transaction transaction)) (vt_hash transaction)"
| "insert_error (Err_TxGasLimitMoreThanAvailableBlockGas transaction block_gas_limit gas_limit) =
     Pool_InvalidTransaction (vt_hash transaction) (ExceedsGasLimit block_gas_limit gas_limit)"

definition tp_add_transaction ::
    "(pooled_transaction \<Rightarrow> 'k::linorder) \<Rightarrow> valid_pool_transaction \<Rightarrow> u256 \<Rightarrow> u64 \<Rightarrow> 'k tx_pool \<Rightarrow>
     (('e pool_error + added_transaction) \<times> 'k tx_pool) option" where
  "tp_add_transaction priority tx on_chain_balance on_chain_nonce p =
     (let p = p\<lparr>tp_sender_info := (tp_sender_info p)
            (vt_sender_id tx \<mapsto> \<lparr>sn_state_nonce = on_chain_nonce, sn_balance = on_chain_balance\<rparr>)\<rparr> in
      case insert_tx tx on_chain_balance on_chain_nonce (tp_all_transactions p) of
        None \<Rightarrow> None
      | Some (Inl err, a) \<Rightarrow> Some (Inl (insert_error err), p\<lparr>tp_all_transactions := a\<rparr>)
      | Some (Inr ok, a) \<Rightarrow>
          (let p = p\<lparr>tp_all_transactions := a\<rparr> in
           case add_new_transaction priority (io_transaction ok) (io_replaced_tx ok) (io_move_to ok) p of
             None \<Rightarrow> None
           | Some p \<Rightarrow>
               (case process_updates priority (io_updates ok) empty_outcome p of
                  None \<Rightarrow> None
                | Some (outcome, p) \<Rightarrow>
                    Some (Inr (if sub_pool_is_pending (io_move_to ok)
                               then Added_Pending (io_transaction ok) (uo_promoted outcome) (uo_discarded outcome)
                               else Added_Parked (io_transaction ok) (io_move_to ok)), p))))"

definition tp_remove_transaction ::
    "transaction_id \<Rightarrow> 'k tx_pool \<Rightarrow> valid_pool_transaction option \<times> 'k tx_pool" where
  "tp_remove_transaction i p =
     (case at_remove_transaction i (tp_all_transactions p) of
        (None, a) \<Rightarrow> (None, p\<lparr>tp_all_transactions := a\<rparr>)
      | (Some (tx, pool), a) \<Rightarrow>
          remove_from_subpool pool (vt_transaction_id tx) (p\<lparr>tp_all_transactions := a\<rparr>))"

definition tp_remove_transaction_by_hash ::
    "h256 \<Rightarrow> 'k tx_pool \<Rightarrow> valid_pool_transaction option \<times> 'k tx_pool" where
  "tp_remove_transaction_by_hash tx_hash p =
     (case at_remove_transaction_by_hash tx_hash (tp_all_transactions p) of
        (None, a) \<Rightarrow> (None, p\<lparr>tp_all_transactions := a\<rparr>)
      | (Some (tx, pool), a) \<Rightarrow>
          remove_from_subpool pool (vt_transaction_id tx) (p\<lparr>tp_all_transactions := a\<rparr>))"

fun remove_invalid :: "h256 list \<Rightarrow> 'k tx_pool \<Rightarrow> valid_pool_transaction list \<times> 'k tx_pool" where
  "remove_invalid [] p = ([], p)"
| "remove_invalid (hash # hashes) p =
     (let (r, p) = tp_remove_transaction_by_hash hash p;
          (removed, p) = remove_invalid hashes p
      in (case r of Some tx \<Rightarrow> tx # removed | None \<Rightarrow> removed, p))"

definition tp_on_new_block ::
    "(pooled_transaction \<Rightarrow> 'k::linorder) \<Rightarrow> on_new_block_event \<Rightarrow> 'k tx_pool \<Rightarrow>
     (on_new_block_outcome \<times> 'k tx_pool) option" where
  "tp_on_new_block priority event p =
     (let p = fold (\<lambda>tx_hash p. snd (tp_remove_transaction_by_hash tx_hash p)) (ev_mined_transactions event) p;
          (updates, a) = at_update (ev_pending_block_base_fee event) (tp_all_transactions p);
          p = p\<lparr>tp_all_transactions := a\<rparr>
      in case process_updates priority updates empty_outcome p of
           None \<Rightarrow> None
         | Some (outcome, p) \<Rightarrow>
             Some (\<lparr>oc_block_hash = ev_hash event, oc_mined = ev_mined_transactions event,
                    oc_promoted = uo_promoted outcome, oc_discarded = uo_discarded outcome\<rparr>, p))"

lemma remove_from_subpool_all [simp]:
  "tp_all_transactions (snd (remove_from_subpool pool i p)) = tp_all_transactions p"
  by (simp add: remove_from_subpool_def split_beta Let_def split: sub_pool.splits)

lemma tp_remove_all:
  "tp_all_transactions (snd (tp_remove_transaction i p)) = snd (at_remove_transaction i (tp_all_transactions p))"
  by (simp add: tp_remove_transaction_def split: prod.splits option.splits)

lemma at_remove_txs: "at_txs (snd (at_remove_transaction i a)) = btree_remove i (at_txs a)"
proof (cases "btree_get (at_txs a) i")
  case None
  then have "btree_remove i (at_txs a) = at_txs a"
    unfolding btree_remove_def btree_get_None_iff filter_id_conv by force
  with None show ?thesis
    by (simp add: at_remove_None)
qed (simp add: at_remove_transaction_def tx_decr_eq Let_def)

text \<open>The loop goes on from the transaction it removed, so it ends after the last one of the sender.\<close>

function remove_descendants ::
    "transaction_id \<Rightarrow> valid_pool_transaction list \<Rightarrow> 'k tx_pool \<Rightarrow> valid_pool_transaction list \<times> 'k tx_pool" where
  "remove_descendants i removed p =
     (case descendant_txs_exclusive i (tp_all_transactions p) of
        [] \<Rightarrow> (removed, p)
      | (descendant, _) # _ \<Rightarrow>
          remove_descendants descendant
            (case fst (tp_remove_transaction descendant p) of Some tx \<Rightarrow> removed @ [tx] | None \<Rightarrow> removed)
            (snd (tp_remove_transaction descendant p)))"
  by pat_completeness auto

termination
proof (relation "measure (\<lambda>(i, removed, p). length (filter (\<lambda>e. i < fst e) (at_txs (tp_all_transactions p))))", goal_cases)
  case (2 i removed p e es d x)
  then have d: "(d, x) \<in> set (filter (\<lambda>e. i < fst e) (at_txs (tp_all_transactions p)))"
    by (metis descendant_txs_exclusive_def list.set_intros(1) set_takeWhileD)
  let ?m = "at_txs (tp_all_transactions p)"
  have "filter (\<lambda>e. d < fst e) ?m = filter (\<lambda>e. d < fst e) (filter (\<lambda>e. i < fst e) ?m)"
    using d by (auto simp: filter_filter intro!: filter_cong)
  then have "length (filter (\<lambda>e. d < fst e) ?m) < length (filter (\<lambda>e. i < fst e) ?m)"
    using length_filter_less [OF d, of "\<lambda>e. d < fst e"] by (simp only: fst_conv less_irrefl not_False_eq_True)
  moreover have "filter (\<lambda>e. d < fst e) (btree_remove d ?m) = filter (\<lambda>e. d < fst e) ?m"
    by (auto simp: btree_remove_def filter_filter intro!: filter_cong)
  ultimately show ?case
    by (simp add: tp_remove_all at_remove_txs)
qed simp

declare remove_descendants.simps [simp del]

text \<open>
  The three loops of \<open>discard_worst\<close>, one for each sub-pool. A loop that finds its sub-pool empty goes on
  without a change.
\<close>

partial_function (option) discard_pending ::
    "valid_pool_transaction list \<Rightarrow> 'k tx_pool \<Rightarrow> (valid_pool_transaction list \<times> 'k tx_pool) option" where
  "discard_pending removed p =
     (if is_exceeded (pending_limit (tp_config p)) (pending_len (tp_pending_pool p)) (pending_size (tp_pending_pool p))
      then
        (case pending_pop_worst (tp_pending_pool p) of
           (None, q) \<Rightarrow> discard_pending removed (p\<lparr>tp_pending_pool := q\<rparr>)
         | (Some tx, q) \<Rightarrow>
             (case remove_descendants (vt_transaction_id tx) (removed @ [tx]) (p\<lparr>tp_pending_pool := q\<rparr>) of
                (removed, p) \<Rightarrow> discard_pending removed p))
      else Some (removed, p))"

partial_function (option) discard_basefee ::
    "valid_pool_transaction list \<Rightarrow> 'k tx_pool \<Rightarrow> (valid_pool_transaction list \<times> 'k tx_pool) option" where
  "discard_basefee removed p =
     (if is_exceeded (basefee_limit (tp_config p)) (parked_len (tp_basefee_pool p)) (parked_size (tp_basefee_pool p))
      then
        (case parked_pop_worst basefee_ord (tp_basefee_pool p) of
           (None, q) \<Rightarrow> discard_basefee removed (p\<lparr>tp_basefee_pool := q\<rparr>)
         | (Some tx, q) \<Rightarrow>
             (case remove_descendants (vt_transaction_id tx) (removed @ [tx]) (p\<lparr>tp_basefee_pool := q\<rparr>) of
                (removed, p) \<Rightarrow> discard_basefee removed p))
      else Some (removed, p))"

partial_function (option) discard_queued ::
    "valid_pool_transaction list \<Rightarrow> 'k tx_pool \<Rightarrow> (valid_pool_transaction list \<times> 'k tx_pool) option" where
  "discard_queued removed p =
     (if is_exceeded (queued_limit (tp_config p)) (parked_len (tp_queued_pool p)) (parked_size (tp_queued_pool p))
      then
        (case parked_pop_worst queued_ord (tp_queued_pool p) of
           (None, q) \<Rightarrow> discard_queued removed (p\<lparr>tp_queued_pool := q\<rparr>)
         | (Some tx, q) \<Rightarrow>
             (case remove_descendants (vt_transaction_id tx) (removed @ [tx]) (p\<lparr>tp_queued_pool := q\<rparr>) of
                (removed, p) \<Rightarrow> discard_queued removed p))
      else Some (removed, p))"

definition discard_worst :: "'k tx_pool \<Rightarrow> (valid_pool_transaction list \<times> 'k tx_pool) option" where
  "discard_worst p =
     Option.bind (discard_pending [] p) (\<lambda>(removed, p).
     Option.bind (discard_basefee removed p) (\<lambda>(removed, p).
       discard_queued removed p))"

section \<open>The pool behind the validator\<close>

record 'k pool_inner =
  pi_identifiers :: sender_identifiers
  pi_pool :: "'k tx_pool"

definition pi_new :: "pool_config \<Rightarrow> 'k pool_inner" where
  "pi_new config = \<lparr>pi_identifiers = sender_identifiers_default, pi_pool = tp_new config\<rparr>"

fun added_hash :: "added_transaction \<Rightarrow> h256" where
  "added_hash (Added_Pending tx _ _) = vt_hash tx"
| "added_hash (Added_Parked tx _) = vt_hash tx"

fun added_as_pending :: "added_transaction \<Rightarrow> h256 option" where
  "added_as_pending (Added_Pending tx _ _) = Some (vt_hash tx)"
| "added_as_pending (Added_Parked _ _) = None"

text \<open>The transaction that is built from a valid outcome; \<open>now\<close> is the reading of the clock.\<close>

definition valid_transaction ::
    "nat \<Rightarrow> transaction_origin \<Rightarrow> PoolTypes.sender_id \<Rightarrow> pooled_transaction \<Rightarrow> valid_pool_transaction" where
  "valid_transaction now origin sender transaction =
     \<lparr>vt_transaction = transaction, vt_transaction_id = Tx_Id sender (pt_nonce transaction), vt_propagate = False,
      vt_cost = pt_cost transaction, vt_timestamp = now, vt_origin = origin,
      vt_encoded_length = pt_encoded_length transaction\<rparr>"

definition pi_add_transaction ::
    "(pooled_transaction \<Rightarrow> 'k::linorder) \<Rightarrow> transaction_origin \<Rightarrow> nat \<Rightarrow> 'e validation_outcome \<Rightarrow>
     'k pool_inner \<Rightarrow> (('e pool_error + h256) \<times> 'k pool_inner) option" where
  "pi_add_transaction priority origin now tx s =
     (case tx of
        Outcome_Valid balance state_nonce transaction \<Rightarrow>
          (let (sender, ids) = sender_id_or_create (pt_sender transaction) (pi_identifiers s);
               s = s\<lparr>pi_identifiers := ids\<rparr> in
           case tp_add_transaction priority (valid_transaction now origin sender transaction) balance state_nonce
                  (pi_pool s) of
             None \<Rightarrow> None
           | Some (Inl err, p) \<Rightarrow> Some (Inl err, s\<lparr>pi_pool := p\<rparr>)
           | Some (Inr added, p) \<Rightarrow> Some (Inr (added_hash added), s\<lparr>pi_pool := p\<rparr>))
      | Outcome_Invalid tx err \<Rightarrow> Some (Inl (Pool_InvalidTransaction (pt_hash tx) err), s)
      | Outcome_Error tx err \<Rightarrow> Some (Inl (Pool_Other (pt_hash tx) err), s))"

fun pi_add_all ::
    "(pooled_transaction \<Rightarrow> 'k::linorder) \<Rightarrow> transaction_origin \<Rightarrow> (nat \<times> 'e validation_outcome) list \<Rightarrow>
     'k pool_inner \<Rightarrow> (('e pool_error + h256) list \<times> 'k pool_inner) option" where
  "pi_add_all priority origin [] s = Some ([], s)"
| "pi_add_all priority origin ((now, tx) # txs) s =
     Option.bind (pi_add_transaction priority origin now tx s) (\<lambda>(r, s).
     Option.bind (pi_add_all priority origin txs s) (\<lambda>(rs, s). Some (r # rs, s)))"

definition pi_add_transactions ::
    "(pooled_transaction \<Rightarrow> 'k::linorder) \<Rightarrow> transaction_origin \<Rightarrow> (nat \<times> 'e validation_outcome) list \<Rightarrow>
     'k pool_inner \<Rightarrow> (('e pool_error + h256) list \<times> 'k pool_inner) option" where
  "pi_add_transactions priority origin transactions s =
     Option.bind (pi_add_all priority origin transactions s) (\<lambda>(added, s).
       if \<exists>r \<in> set added. \<not> isl r then
         Option.bind (discard_worst (pi_pool s)) (\<lambda>(removed, p).
           (let discarded = vt_hash ` set removed; s = s\<lparr>pi_pool := p\<rparr>
            in Some (if discarded = {} then added
                     else map (\<lambda>res. case res of
                                 Inr hash \<Rightarrow> if hash \<in> discarded then Inl (DiscardedOnInsert hash) else res
                               | Inl _ \<Rightarrow> res) added, s)))
       else Some (added, s))"

definition pi_on_new_block ::
    "(pooled_transaction \<Rightarrow> 'k::linorder) \<Rightarrow> on_new_block_event \<Rightarrow> 'k pool_inner \<Rightarrow> 'k pool_inner option" where
  "pi_on_new_block priority block s =
     map_option (\<lambda>(_, p). s\<lparr>pi_pool := p\<rparr>) (tp_on_new_block priority block (pi_pool s))"

definition pi_remove_invalid ::
    "h256 list \<Rightarrow> 'k pool_inner \<Rightarrow> valid_pool_transaction list \<times> 'k pool_inner" where
  "pi_remove_invalid hashes s =
     (let (removed, p) = remove_invalid hashes (pi_pool s) in (removed, s\<lparr>pi_pool := p\<rparr>))"

definition retain_unknown :: "h256 list \<Rightarrow> 'k pool_inner \<Rightarrow> h256 list" where
  "retain_unknown hashes s = filter (\<lambda>tx. \<not> tp_contains (pi_pool s) tx) hashes"

text \<open>\<open>Pool::add_transaction\<close>: validates the transaction and adds it when it is valid.\<close>

definition pool_add_transaction ::
    "(pooled_transaction \<Rightarrow> 'k::linorder) \<Rightarrow> eth_transaction_validator \<Rightarrow> (h160 \<Rightarrow> 'e + account option) \<Rightarrow>
     transaction_origin \<Rightarrow> nat \<Rightarrow> pooled_transaction \<Rightarrow> 'k pool_inner \<Rightarrow>
     (('e pool_error + h256) \<times> 'k pool_inner) option" where
  "pool_add_transaction priority v basic_account origin now transaction s =
     (let outcome = validate_transaction v basic_account origin transaction in
      case outcome of
        Outcome_Valid _ _ _ \<Rightarrow>
          Option.bind (pi_add_transactions priority origin [(now, outcome)] s) (\<lambda>(rs, s).
            (case rs of [] \<Rightarrow> None | _ \<Rightarrow> Some (last rs, s)))
      | Outcome_Invalid tx err \<Rightarrow> Some (Inl (Pool_InvalidTransaction (pt_hash tx) err), s)
      | Outcome_Error tx err \<Rightarrow> Some (Inl (Pool_Other (pt_hash tx) err), s))"

section \<open>Discarding transactions\<close>

text \<open>A loop that pops from a sub-pool while its limit is exceeded, and what the operations of the loop promise.\<close>

locale discard_loop =
  fixes loop :: "'r \<Rightarrow> 'p \<Rightarrow> ('r \<times> 'p) option"
    and exceeded :: "'p \<Rightarrow> bool"
    and pop :: "'p \<Rightarrow> 't option \<times> 'p"
    and step :: "'t \<Rightarrow> 'r \<Rightarrow> 'p \<Rightarrow> 'r \<times> 'p"
    and len :: "'p \<Rightarrow> nat"
    and inv :: "'p \<Rightarrow> bool"
    and shrinks :: "'p \<Rightarrow> 'p \<Rightarrow> bool"
  assumes loop_unfold: "loop r p =
      (if exceeded p
       then (case pop p of (None, q) \<Rightarrow> loop r q | (Some t, q) \<Rightarrow> (case step t r q of (r, p) \<Rightarrow> loop r p))
       else Some (r, p))"
    and pop_exceeded: "inv p \<Longrightarrow> exceeded p \<Longrightarrow>
      \<exists>t q. pop p = (Some t, q) \<and> inv q \<and> shrinks p q \<and> len q < len p"
    and step_shrinks: "inv p \<Longrightarrow> inv (snd (step t r p)) \<and> shrinks p (snd (step t r p))"
    and shrinks_refl: "shrinks p p"
    and shrinks_trans: "shrinks p q \<Longrightarrow> shrinks q q' \<Longrightarrow> shrinks p q'"
    and shrinks_len: "shrinks p q \<Longrightarrow> len q \<le> len p"
begin

lemma loop_returns: "inv p \<Longrightarrow> \<exists>r' q. loop r p = Some (r', q) \<and> inv q \<and> shrinks p q \<and> \<not> exceeded q"
proof (induction "len p" arbitrary: r p rule: less_induct)
  case less
  show ?case
  proof (cases "exceeded p")
    case True
    obtain t q where q: "pop p = (Some t, q)" "inv q" "shrinks p q" "len q < len p"
      using pop_exceeded [OF less.prems True] by blast
    obtain r' p' where p': "step t r q = (r', p')" "inv p'" "shrinks q p'"
      using step_shrinks [OF q(2), of t r] by (cases "step t r q") auto
    have "len p' < len p"
      using shrinks_len [OF p'(3)] q(4) by simp
    from less.hyps [OF this p'(2), of r'] obtain r'' q' where
      "loop r' p' = Some (r'', q')" "inv q'" "shrinks p' q'" "\<not> exceeded q'"
      by blast
    with q(1) p'(1) True show ?thesis
      using shrinks_trans [OF q(3) shrinks_trans [OF p'(3)]] by (simp add: loop_unfold [of r p])
  next
    case False
    then show ?thesis
      using less.prems shrinks_refl by (simp add: loop_unfold [of r p])
  qed
qed

end

definition pools_inv :: "'k::linorder tx_pool \<Rightarrow> bool" where
  "pools_inv p \<longleftrightarrow> (\<exists>n. pending_inv n (tp_pending_pool p)) \<and> (\<exists>n. parked_inv queued_ord n (tp_queued_pool p)) \<and>
     (\<exists>n. parked_inv basefee_ord n (tp_basefee_pool p))"

text \<open>The sub-pools lose transactions only.\<close>

definition kept :: "'a list \<Rightarrow> 'a list \<Rightarrow> bool" where
  "kept m m' \<longleftrightarrow> (\<exists>P. m' = filter P m)"

lemma kept_refl: "kept m m"
  unfolding kept_def by (intro exI [of _ "\<lambda>_. True"]) simp

lemma kept_trans: "kept m m' \<Longrightarrow> kept m' m'' \<Longrightarrow> kept m m''"
  unfolding kept_def by auto

lemma kept_remove: "kept m (btree_remove k m)"
  unfolding kept_def btree_remove_def by blast

lemma kept_length: "kept m m' \<Longrightarrow> length m' \<le> length m"
  unfolding kept_def by auto

lemma kept_sum: "kept m m' \<Longrightarrow> sum_list (map f m') \<le> sum_list (map f m)" for f :: "'a \<Rightarrow> nat"
  unfolding kept_def by (auto simp: sum_list_filter_le_nat)

definition pools_shrink :: "'k tx_pool \<Rightarrow> 'k tx_pool \<Rightarrow> bool" where
  "pools_shrink p q \<longleftrightarrow> tp_config q = tp_config p \<and>
     kept (pp_by_id (tp_pending_pool p)) (pp_by_id (tp_pending_pool q)) \<and>
     kept (pk_by_id (tp_queued_pool p)) (pk_by_id (tp_queued_pool q)) \<and>
     kept (pk_by_id (tp_basefee_pool p)) (pk_by_id (tp_basefee_pool q))"

lemma pools_shrink_refl: "pools_shrink p p"
  by (simp add: pools_shrink_def kept_refl)

lemma pools_shrink_trans: "pools_shrink p q \<Longrightarrow> pools_shrink q q' \<Longrightarrow> pools_shrink p q'"
  unfolding pools_shrink_def by (elim conjE, intro conjI) (simp, (erule (1) kept_trans)+)

lemma pending_remove_by_id: "kept (pp_by_id p) (pp_by_id (snd (pending_remove_transaction i p)))"
  by (cases "btree_get (pp_by_id p) i") (auto simp: pending_remove_transaction_def kept_remove kept_refl)

lemma parked_remove_by_id: "kept (pk_by_id p) (pk_by_id (snd (parked_remove_transaction ord_key i p)))"
  by (cases "btree_get (pk_by_id p) i") (auto simp: parked_remove_transaction_def kept_remove kept_refl)

lemma remove_from_subpool_shrinks:
  assumes "pools_inv p"
  shows "pools_inv (snd (remove_from_subpool pool i p)) \<and> pools_shrink p (snd (remove_from_subpool pool i p))"
  using assms by (cases pool)
    (auto simp: remove_from_subpool_def pools_inv_def pools_shrink_def split_beta Let_def kept_refl
      pending_remove_by_id parked_remove_by_id intro: pending_remove_inv parked_remove_inv)

lemma pools_all [simp]:
  "pools_inv (p\<lparr>tp_all_transactions := a\<rparr>) = pools_inv p" "pools_shrink p (q\<lparr>tp_all_transactions := a\<rparr>) = pools_shrink p q"
  "pools_shrink (p\<lparr>tp_all_transactions := a\<rparr>) q = pools_shrink p q"
  by (simp_all add: pools_inv_def pools_shrink_def)

lemma tp_remove_shrinks:
  assumes "pools_inv p"
  shows "pools_inv (snd (tp_remove_transaction i p)) \<and> pools_shrink p (snd (tp_remove_transaction i p))"
  using remove_from_subpool_shrinks [of "p\<lparr>tp_all_transactions := snd (at_remove_transaction i (tp_all_transactions p))\<rparr>"] assms
  by (auto simp: tp_remove_transaction_def pools_shrink_refl split: prod.splits option.splits)

lemma remove_descendants_shrinks:
  "pools_inv p \<Longrightarrow> pools_inv (snd (remove_descendants i removed p)) \<and> pools_shrink p (snd (remove_descendants i removed p))"
proof (induction i removed p rule: remove_descendants.induct)
  case (1 i removed p)
  show ?case
  proof (cases "descendant_txs_exclusive i (tp_all_transactions p)")
    case Nil
    with 1 show ?thesis
      by (simp add: remove_descendants.simps [of i] pools_shrink_refl)
  next
    case (Cons e es)
    obtain d x where e: "e = (d, x)"
      by (cases e)
    have rem: "pools_inv (snd (tp_remove_transaction d p))" "pools_shrink p (snd (tp_remove_transaction d p))"
      using tp_remove_shrinks [OF "1.prems"] by blast+
    from "1.IH" [OF Cons e [symmetric] rem(1)] Cons e show ?thesis
      using pools_shrink_trans [OF rem(2)] by (simp add: remove_descendants.simps [of i])
  qed
qed

text \<open>The bytes of the sub-pools; the tracked sizes are these sums while they fit into a word.\<close>

definition pending_bytes :: "'k pending_pool \<Rightarrow> nat" where
  "pending_bytes p = (\<Sum>(i, t)\<leftarrow>pp_by_id p. vt_size (pr_transaction t))"

definition parked_bytes :: "'k parked_pool \<Rightarrow> nat" where
  "parked_bytes p = (\<Sum>(i, t)\<leftarrow>pk_by_id p. vt_size (pk_transaction t))"

lemma of_nat_sum_list: "(\<Sum>(i, t)\<leftarrow>m. of_nat (f t)) = of_nat (\<Sum>(i, t)\<leftarrow>m. f t)"
  by (induction m) auto

lemma pending_size_bytes: "pending_inv n p \<Longrightarrow> pending_bytes p < 2 ^ 64 \<Longrightarrow> pending_size p = pending_bytes p"
  by (simp add: pending_inv_def pending_size_def size_value_def pending_bytes_def of_nat_sum_list unat_of_nat)

lemma parked_size_bytes: "parked_inv ord_key n p \<Longrightarrow> parked_bytes p < 2 ^ 64 \<Longrightarrow> parked_size p = parked_bytes p"
  by (simp add: parked_inv_def parked_size_def size_value_def parked_bytes_def of_nat_sum_list unat_of_nat)

definition pools_ok :: "'k::linorder tx_pool \<Rightarrow> bool" where
  "pools_ok p \<longleftrightarrow> pools_inv p \<and> pending_bytes (tp_pending_pool p) < 2 ^ 64 \<and>
     parked_bytes (tp_queued_pool p) < 2 ^ 64 \<and> parked_bytes (tp_basefee_pool p) < 2 ^ 64"

lemma pools_shrink_bytes:
  "pools_shrink p q \<Longrightarrow> pending_bytes (tp_pending_pool q) \<le> pending_bytes (tp_pending_pool p) \<and>
     parked_bytes (tp_queued_pool q) \<le> parked_bytes (tp_queued_pool p) \<and>
     parked_bytes (tp_basefee_pool q) \<le> parked_bytes (tp_basefee_pool p)"
  by (simp add: pools_shrink_def pending_bytes_def parked_bytes_def kept_sum)

lemma pools_ok_shrink: "pools_ok p \<Longrightarrow> pools_inv q \<Longrightarrow> pools_shrink p q \<Longrightarrow> pools_ok q"
  using pools_shrink_bytes [of p q] by (auto simp: pools_ok_def)

definition pending_exceeded :: "'k tx_pool \<Rightarrow> bool" where
  "pending_exceeded p \<longleftrightarrow>
     is_exceeded (pending_limit (tp_config p)) (pending_len (tp_pending_pool p)) (pending_size (tp_pending_pool p))"

definition basefee_exceeded :: "'k tx_pool \<Rightarrow> bool" where
  "basefee_exceeded p \<longleftrightarrow>
     is_exceeded (basefee_limit (tp_config p)) (parked_len (tp_basefee_pool p)) (parked_size (tp_basefee_pool p))"

definition queued_exceeded :: "'k tx_pool \<Rightarrow> bool" where
  "queued_exceeded p \<longleftrightarrow>
     is_exceeded (queued_limit (tp_config p)) (parked_len (tp_queued_pool p)) (parked_size (tp_queued_pool p))"

lemmas exceeded_defs = pending_exceeded_def basefee_exceeded_def queued_exceeded_def is_exceeded_def

text \<open>A limit that holds is kept when transactions are removed.\<close>

lemma exceeded_shrinks:
  assumes p: "pools_ok p" and q: "pools_ok q" and shrink: "pools_shrink p q"
  shows "pending_exceeded q \<Longrightarrow> pending_exceeded p" and "basefee_exceeded q \<Longrightarrow> basefee_exceeded p"
    and "queued_exceeded q \<Longrightarrow> queued_exceeded p"
proof -
  have config: "tp_config q = tp_config p"
    and len: "pending_len (tp_pending_pool q) \<le> pending_len (tp_pending_pool p)"
      "parked_len (tp_queued_pool q) \<le> parked_len (tp_queued_pool p)"
      "parked_len (tp_basefee_pool q) \<le> parked_len (tp_basefee_pool p)"
    using shrink by (simp_all add: pools_shrink_def pending_len_def parked_len_def kept_length)
  have size: "pending_size (tp_pending_pool x) = pending_bytes (tp_pending_pool x)"
      "parked_size (tp_queued_pool x) = parked_bytes (tp_queued_pool x)"
      "parked_size (tp_basefee_pool x) = parked_bytes (tp_basefee_pool x)" if "pools_ok x" for x :: "'a tx_pool"
    using that pending_size_bytes parked_size_bytes unfolding pools_ok_def pools_inv_def by metis+
  note bytes = pools_shrink_bytes [OF shrink]
  show "pending_exceeded q \<Longrightarrow> pending_exceeded p" "basefee_exceeded q \<Longrightarrow> basefee_exceeded p"
    "queued_exceeded q \<Longrightarrow> queued_exceeded p"
    using len bytes by (auto simp: exceeded_defs config size [OF p] size [OF q])
qed

text \<open>A sub-pool that exceeds its limit is not empty.\<close>

lemma pending_pop_nonempty:
  assumes inv: "pending_inv n p" and ex: "is_exceeded l (pending_len p) (pending_size p)"
  shows "\<exists>t q. pending_pop_worst p = (Some t, q) \<and> pending_inv n q \<and> kept (pp_by_id p) (pp_by_id q) \<and>
    pending_len q < pending_len p"
proof -
  have idx: "idx_inv pending_key pr_submission_id (\<lambda>r. vt_transaction_id (pr_transaction r)) n (pp_by_id p) (pp_all p)"
    using inv by (simp add: pending_inv_def)
  have "pp_by_id p \<noteq> []"
  proof
    assume "pp_by_id p = []"
    with inv ex show False
      by (simp add: is_exceeded_def pending_len_def pending_size_def size_value_def pending_inv_def)
  qed
  then have ne: "pp_all p \<noteq> []"
    using pending_index.idx_length [OF idx] by auto
  obtain k w where last: "last (pp_all p) = (k, w)"
    by (cases "last (pp_all p)")
  then have mem: "(k, w) \<in> set (pp_all p)"
    using last_in_set [OF ne] by simp
  let ?i = "vt_transaction_id (pr_transaction w)"
  have get: "btree_get (pp_by_id p) ?i = Some w"
    using pending_index.idx_get [OF idx mem] by simp
  have pop: "pending_pop_worst p = (Some (pr_transaction w), snd (pending_remove_transaction ?i p))"
    using ne last get by (simp add: pending_pop_worst_def pending_remove_transaction_def)
  have "btree_wf (pp_by_id p)"
    using idx by (simp add: idx_inv_def)
  from length_btree_remove [OF this get] have "pending_len (snd (pending_remove_transaction ?i p)) < pending_len p"
    using get by (simp add: pending_len_def pending_remove_transaction_def)
  with pop show ?thesis
    using pending_remove_inv [OF inv] pending_remove_by_id by blast
qed

lemma parked_pop_nonempty:
  assumes inv: "parked_inv ord_key n p" and ex: "is_exceeded l (parked_len p) (parked_size p)"
  shows "\<exists>t q. parked_pop_worst ord_key p = (Some t, q) \<and> parked_inv ord_key n q \<and> kept (pk_by_id p) (pk_by_id q) \<and>
    parked_len q < parked_len p"
proof -
  have idx: "idx_inv (parked_key ord_key) pk_submission_id (\<lambda>t. vt_transaction_id (pk_transaction t)) n (pk_by_id p) (pk_best p)"
    using inv by (simp add: parked_inv_def)
  have "pk_by_id p \<noteq> []"
  proof
    assume "pk_by_id p = []"
    with inv ex show False
      by (simp add: is_exceeded_def parked_len_def parked_size_def size_value_def parked_inv_def)
  qed
  then obtain k w rest where best: "pk_best p = (k, w) # rest"
    using parked_index.idx_length [OF idx] by (cases "pk_best p") auto
  then have mem: "(k, w) \<in> set (pk_best p)"
    by simp
  let ?i = "vt_transaction_id (pk_transaction w)"
  have get: "btree_get (pk_by_id p) ?i = Some w"
    using parked_index.idx_get [OF idx mem] by simp
  have pop: "parked_pop_worst ord_key p = (Some (pk_transaction w), snd (parked_remove_transaction ord_key ?i p))"
    using best get by (simp add: parked_pop_worst_def parked_remove_transaction_def)
  have "btree_wf (pk_by_id p)"
    using idx by (simp add: idx_inv_def)
  from length_btree_remove [OF this get] have "parked_len (snd (parked_remove_transaction ord_key ?i p)) < parked_len p"
    using get by (simp add: parked_len_def parked_remove_transaction_def)
  with pop show ?thesis
    using parked_remove_inv [OF inv] parked_remove_by_id by blast
qed

lemma remove_descendants_ok:
  "pools_ok p \<Longrightarrow> pools_ok (snd (remove_descendants i r p)) \<and> pools_shrink p (snd (remove_descendants i r p))"
  using remove_descendants_shrinks [of p i r] pools_ok_shrink [of p "snd (remove_descendants i r p)"]
  by (simp add: pools_ok_def)

lemma pending_pop_exceeded:
  assumes ok: "pools_ok p" and ex: "pending_exceeded p"
  shows "\<exists>t q. pending_pop_worst (tp_pending_pool p) = (Some t, q) \<and> pools_ok (p\<lparr>tp_pending_pool := q\<rparr>) \<and>
    pools_shrink p (p\<lparr>tp_pending_pool := q\<rparr>) \<and> pending_len q < pending_len (tp_pending_pool p)"
proof -
  obtain n where n: "pending_inv n (tp_pending_pool p)"
    using ok by (auto simp: pools_ok_def pools_inv_def)
  obtain t q where q: "pending_pop_worst (tp_pending_pool p) = (Some t, q)" "pending_inv n q"
    "kept (pp_by_id (tp_pending_pool p)) (pp_by_id q)" "pending_len q < pending_len (tp_pending_pool p)"
    using pending_pop_nonempty [OF n ex [unfolded pending_exceeded_def]] by blast
  have "pools_shrink p (p\<lparr>tp_pending_pool := q\<rparr>)" "pools_inv (p\<lparr>tp_pending_pool := q\<rparr>)"
    using q(2,3) ok by (auto simp: pools_shrink_def kept_refl pools_ok_def pools_inv_def)
  with q pools_ok_shrink [OF ok] show ?thesis
    by blast
qed

lemma basefee_pop_exceeded:
  assumes ok: "pools_ok p" and ex: "basefee_exceeded p"
  shows "\<exists>t q. parked_pop_worst basefee_ord (tp_basefee_pool p) = (Some t, q) \<and> pools_ok (p\<lparr>tp_basefee_pool := q\<rparr>) \<and>
    pools_shrink p (p\<lparr>tp_basefee_pool := q\<rparr>) \<and> parked_len q < parked_len (tp_basefee_pool p)"
proof -
  obtain n where n: "parked_inv basefee_ord n (tp_basefee_pool p)"
    using ok by (auto simp: pools_ok_def pools_inv_def)
  obtain t q where q: "parked_pop_worst basefee_ord (tp_basefee_pool p) = (Some t, q)" "parked_inv basefee_ord n q"
    "kept (pk_by_id (tp_basefee_pool p)) (pk_by_id q)" "parked_len q < parked_len (tp_basefee_pool p)"
    using parked_pop_nonempty [OF n ex [unfolded basefee_exceeded_def]] by blast
  have "pools_shrink p (p\<lparr>tp_basefee_pool := q\<rparr>)" "pools_inv (p\<lparr>tp_basefee_pool := q\<rparr>)"
    using q(2,3) ok by (auto simp: pools_shrink_def kept_refl pools_ok_def pools_inv_def)
  with q pools_ok_shrink [OF ok] show ?thesis
    by blast
qed

lemma queued_pop_exceeded:
  assumes ok: "pools_ok p" and ex: "queued_exceeded p"
  shows "\<exists>t q. parked_pop_worst queued_ord (tp_queued_pool p) = (Some t, q) \<and> pools_ok (p\<lparr>tp_queued_pool := q\<rparr>) \<and>
    pools_shrink p (p\<lparr>tp_queued_pool := q\<rparr>) \<and> parked_len q < parked_len (tp_queued_pool p)"
proof -
  obtain n where n: "parked_inv queued_ord n (tp_queued_pool p)"
    using ok by (auto simp: pools_ok_def pools_inv_def)
  obtain t q where q: "parked_pop_worst queued_ord (tp_queued_pool p) = (Some t, q)" "parked_inv queued_ord n q"
    "kept (pk_by_id (tp_queued_pool p)) (pk_by_id q)" "parked_len q < parked_len (tp_queued_pool p)"
    using parked_pop_nonempty [OF n ex [unfolded queued_exceeded_def]] by blast
  have "pools_shrink p (p\<lparr>tp_queued_pool := q\<rparr>)" "pools_inv (p\<lparr>tp_queued_pool := q\<rparr>)"
    using q(2,3) ok by (auto simp: pools_shrink_def kept_refl pools_ok_def pools_inv_def)
  with q pools_ok_shrink [OF ok] show ?thesis
    by blast
qed

interpretation pending_loop: discard_loop discard_pending pending_exceeded
  "\<lambda>p. apsnd (\<lambda>q. p\<lparr>tp_pending_pool := q\<rparr>) (pending_pop_worst (tp_pending_pool p))"
  "\<lambda>t r p. remove_descendants (vt_transaction_id t) (r @ [t]) p" "\<lambda>p. pending_len (tp_pending_pool p)" pools_ok pools_shrink
proof
  fix r and p q q' :: "'a tx_pool" and t
  show "discard_pending r p =
      (if pending_exceeded p
       then (case apsnd (\<lambda>q. p\<lparr>tp_pending_pool := q\<rparr>) (pending_pop_worst (tp_pending_pool p)) of
               (None, q) \<Rightarrow> discard_pending r q
             | (Some t, q) \<Rightarrow> (case remove_descendants (vt_transaction_id t) (r @ [t]) q of (r, p) \<Rightarrow> discard_pending r p))
       else Some (r, p))"
    by (subst discard_pending.simps) (simp add: pending_exceeded_def apsnd_def map_prod_def split: prod.splits option.splits)
  show "\<exists>t q. apsnd (\<lambda>q. p\<lparr>tp_pending_pool := q\<rparr>) (pending_pop_worst (tp_pending_pool p)) = (Some t, q) \<and> pools_ok q \<and>
      pools_shrink p q \<and> pending_len (tp_pending_pool q) < pending_len (tp_pending_pool p)" if "pools_ok p" "pending_exceeded p"
    using pending_pop_exceeded [OF that] by fastforce
  show "pools_ok (snd (remove_descendants (vt_transaction_id t) (r @ [t]) p)) \<and>
      pools_shrink p (snd (remove_descendants (vt_transaction_id t) (r @ [t]) p))" if "pools_ok p"
    using that by (rule remove_descendants_ok)
  show "pools_shrink p p"
    by (rule pools_shrink_refl)
  show "pools_shrink p q'" if "pools_shrink p q" "pools_shrink q q'"
    using that by (rule pools_shrink_trans)
  show "pending_len (tp_pending_pool q) \<le> pending_len (tp_pending_pool p)" if "pools_shrink p q"
    using that by (simp add: pools_shrink_def pending_len_def kept_length)
qed

interpretation basefee_loop: discard_loop discard_basefee basefee_exceeded
  "\<lambda>p. apsnd (\<lambda>q. p\<lparr>tp_basefee_pool := q\<rparr>) (parked_pop_worst basefee_ord (tp_basefee_pool p))"
  "\<lambda>t r p. remove_descendants (vt_transaction_id t) (r @ [t]) p" "\<lambda>p. parked_len (tp_basefee_pool p)" pools_ok pools_shrink
proof
  fix r and p q q' :: "'a tx_pool" and t
  show "discard_basefee r p =
      (if basefee_exceeded p
       then (case apsnd (\<lambda>q. p\<lparr>tp_basefee_pool := q\<rparr>) (parked_pop_worst basefee_ord (tp_basefee_pool p)) of
               (None, q) \<Rightarrow> discard_basefee r q
             | (Some t, q) \<Rightarrow> (case remove_descendants (vt_transaction_id t) (r @ [t]) q of (r, p) \<Rightarrow> discard_basefee r p))
       else Some (r, p))"
    by (subst discard_basefee.simps) (simp add: basefee_exceeded_def apsnd_def map_prod_def split: prod.splits option.splits)
  show "\<exists>t q. apsnd (\<lambda>q. p\<lparr>tp_basefee_pool := q\<rparr>) (parked_pop_worst basefee_ord (tp_basefee_pool p)) = (Some t, q) \<and> pools_ok q \<and>
      pools_shrink p q \<and> parked_len (tp_basefee_pool q) < parked_len (tp_basefee_pool p)" if "pools_ok p" "basefee_exceeded p"
    using basefee_pop_exceeded [OF that] by fastforce
  show "pools_ok (snd (remove_descendants (vt_transaction_id t) (r @ [t]) p)) \<and>
      pools_shrink p (snd (remove_descendants (vt_transaction_id t) (r @ [t]) p))" if "pools_ok p"
    using that by (rule remove_descendants_ok)
  show "pools_shrink p p"
    by (rule pools_shrink_refl)
  show "pools_shrink p q'" if "pools_shrink p q" "pools_shrink q q'"
    using that by (rule pools_shrink_trans)
  show "parked_len (tp_basefee_pool q) \<le> parked_len (tp_basefee_pool p)" if "pools_shrink p q"
    using that by (simp add: pools_shrink_def parked_len_def kept_length)
qed

interpretation queued_loop: discard_loop discard_queued queued_exceeded
  "\<lambda>p. apsnd (\<lambda>q. p\<lparr>tp_queued_pool := q\<rparr>) (parked_pop_worst queued_ord (tp_queued_pool p))"
  "\<lambda>t r p. remove_descendants (vt_transaction_id t) (r @ [t]) p" "\<lambda>p. parked_len (tp_queued_pool p)" pools_ok pools_shrink
proof
  fix r and p q q' :: "'a tx_pool" and t
  show "discard_queued r p =
      (if queued_exceeded p
       then (case apsnd (\<lambda>q. p\<lparr>tp_queued_pool := q\<rparr>) (parked_pop_worst queued_ord (tp_queued_pool p)) of
               (None, q) \<Rightarrow> discard_queued r q
             | (Some t, q) \<Rightarrow> (case remove_descendants (vt_transaction_id t) (r @ [t]) q of (r, p) \<Rightarrow> discard_queued r p))
       else Some (r, p))"
    by (subst discard_queued.simps) (simp add: queued_exceeded_def apsnd_def map_prod_def split: prod.splits option.splits)
  show "\<exists>t q. apsnd (\<lambda>q. p\<lparr>tp_queued_pool := q\<rparr>) (parked_pop_worst queued_ord (tp_queued_pool p)) = (Some t, q) \<and> pools_ok q \<and>
      pools_shrink p q \<and> parked_len (tp_queued_pool q) < parked_len (tp_queued_pool p)" if "pools_ok p" "queued_exceeded p"
    using queued_pop_exceeded [OF that] by fastforce
  show "pools_ok (snd (remove_descendants (vt_transaction_id t) (r @ [t]) p)) \<and>
      pools_shrink p (snd (remove_descendants (vt_transaction_id t) (r @ [t]) p))" if "pools_ok p"
    using that by (rule remove_descendants_ok)
  show "pools_shrink p p"
    by (rule pools_shrink_refl)
  show "pools_shrink p q'" if "pools_shrink p q" "pools_shrink q q'"
    using that by (rule pools_shrink_trans)
  show "parked_len (tp_queued_pool q) \<le> parked_len (tp_queued_pool p)" if "pools_shrink p q"
    using that by (simp add: pools_shrink_def parked_len_def kept_length)
qed

lemma discard_worst_returns:
  assumes ok: "pools_ok p"
  shows "\<exists>removed q. discard_worst p = Some (removed, q) \<and> pools_ok q \<and> pools_shrink p q \<and>
    \<not> pending_exceeded q \<and> \<not> basefee_exceeded q \<and> \<not> queued_exceeded q"
proof -
  obtain r1 p1 where 1: "discard_pending [] p = Some (r1, p1)" "pools_ok p1" "pools_shrink p p1" "\<not> pending_exceeded p1"
    using pending_loop.loop_returns [OF ok] by blast
  obtain r2 p2 where 2: "discard_basefee r1 p1 = Some (r2, p2)" "pools_ok p2" "pools_shrink p1 p2" "\<not> basefee_exceeded p2"
    using basefee_loop.loop_returns [OF 1(2)] by blast
  obtain r3 p3 where 3: "discard_queued r2 p2 = Some (r3, p3)" "pools_ok p3" "pools_shrink p2 p3" "\<not> queued_exceeded p3"
    using queued_loop.loop_returns [OF 2(2)] by blast
  have "pools_shrink p1 p3" "pools_shrink p p3"
    using 1(3) 2(3) 3(3) pools_shrink_trans by blast+
  with 1 2 3 show ?thesis
    using exceeded_shrinks(1) [OF 1(2) 3(2)] exceeded_shrinks(2) [OF 2(2) 3(2,3)]
    by (auto simp: discard_worst_def)
qed

section \<open>The sub-pools of the pool\<close>

text \<open>What a sub-pool holds, and that no identifier is in two of them.\<close>

definition sub_look :: "'k tx_pool \<Rightarrow> sub_pool \<Rightarrow> transaction_id \<rightharpoonup> valid_pool_transaction" where
  "sub_look p pool =
     (case pool of
        Queued \<Rightarrow> parked_look (tp_queued_pool p)
      | Pending \<Rightarrow> pending_look (tp_pending_pool p)
      | BaseFee \<Rightarrow> parked_look (tp_basefee_pool p))"

definition sub_ok :: "'k tx_pool \<Rightarrow> bool" where
  "sub_ok p \<longleftrightarrow> parked_ok (tp_queued_pool p) \<and> pending_ok (tp_pending_pool p) \<and> parked_ok (tp_basefee_pool p)"

definition sub_disjoint :: "'k tx_pool \<Rightarrow> bool" where
  "sub_disjoint p \<longleftrightarrow> sub_ok p \<and>
     (\<forall>i a b t t'. sub_look p a i = Some t \<longrightarrow> sub_look p b i = Some t' \<longrightarrow> a = b) \<and>
     (\<forall>i a t. sub_look p a i = Some t \<longrightarrow> vt_transaction_id t = i)"

lemma sub_disjointD:
  assumes "sub_disjoint p"
  shows "sub_ok p" and "sub_look p a i = Some t \<Longrightarrow> sub_look p b i = Some t' \<Longrightarrow> a = b"
    and "sub_look p a i = Some t \<Longrightarrow> vt_transaction_id t = i"
  using assms unfolding sub_disjoint_def by blast+

lemma sub_disjointI:
  assumes "sub_ok p" and "\<And>i a b t t'. sub_look p a i = Some t \<Longrightarrow> sub_look p b i = Some t' \<Longrightarrow> a = b"
    and "\<And>i a t. sub_look p a i = Some t \<Longrightarrow> vt_transaction_id t = i"
  shows "sub_disjoint p"
  using assms unfolding sub_disjoint_def by blast

lemma remove_from_subpool_look:
  fixes p :: "'k::linorder tx_pool"
  assumes "sub_ok p"
  shows "fst (remove_from_subpool pool i p) = sub_look p pool i"
    and "sub_look (snd (remove_from_subpool pool i p)) pool' = (if pool' = pool then (sub_look p pool)(i := None) else sub_look p pool')"
    and "sub_ok (snd (remove_from_subpool pool i p))"
  using assms parked_pool.remove_look [OF _ prod.collapse [symmetric], of "tp_queued_pool p" queued_ord i]
    parked_pool.remove_look [OF _ prod.collapse [symmetric], of "tp_basefee_pool p" basefee_ord i]
    pending_pool.remove_look [OF _ prod.collapse [symmetric], of "tp_pending_pool p" i]
  by (cases pool; cases pool'; simp add: remove_from_subpool_def sub_look_def sub_ok_def split_beta Let_def)+

lemma add_to_subpool_None:
  "add_transaction_to_subpool priority pool tx p = None \<longleftrightarrow> sub_look p pool (vt_transaction_id tx) \<noteq> None"
  by (cases pool) (auto simp: add_transaction_to_subpool_def sub_look_def parked_pool.add_panics pending_pool.add_panics)

lemma add_to_subpool_Some:
  assumes ok: "sub_ok p" and add: "add_transaction_to_subpool priority pool tx p = Some p'"
  shows "sub_look p' pool' = (if pool' = pool then (sub_look p pool)(vt_transaction_id tx \<mapsto> tx) else sub_look p pool') \<and>
    sub_ok p' \<and> tp_all_transactions p' = tp_all_transactions p"
proof (cases pool)
  case Queued
  then obtain q where q: "parked_add_transaction queued_ord tx (tp_queued_pool p) = Some q" "p' = p\<lparr>tp_queued_pool := q\<rparr>"
    using add by (auto simp: add_transaction_to_subpool_def)
  show ?thesis
    using parked_pool.add_look [OF _ q(1)] ok Queued
    by (cases pool') (auto simp: q(2) sub_look_def sub_ok_def)
next
  case Pending
  then obtain q where q: "pending_add_transaction priority tx (tp_pending_pool p) = Some q" "p' = p\<lparr>tp_pending_pool := q\<rparr>"
    using add by (auto simp: add_transaction_to_subpool_def)
  show ?thesis
    using pending_pool.add_look [OF _ q(1)] ok Pending
    by (cases pool') (auto simp: q(2) sub_look_def sub_ok_def)
next
  case BaseFee
  then obtain q where q: "parked_add_transaction basefee_ord tx (tp_basefee_pool p) = Some q" "p' = p\<lparr>tp_basefee_pool := q\<rparr>"
    using add by (auto simp: add_transaction_to_subpool_def)
  show ?thesis
    using parked_pool.add_look [OF _ q(1)] ok BaseFee
    by (cases pool') (auto simp: q(2) sub_look_def sub_ok_def)
qed

lemma sub_disjoint_remove:
  fixes p :: "'k::linorder tx_pool"
  assumes dis: "sub_disjoint p"
  shows "sub_disjoint (snd (remove_from_subpool pool i p))"
proof (rule sub_disjointI)
  note look = remove_from_subpool_look [OF sub_disjointD(1) [OF dis]]
  show "sub_ok (snd (remove_from_subpool pool i p))"
    by (rule look)
  show "a = b" if "sub_look (snd (remove_from_subpool pool i p)) a j = Some t"
    "sub_look (snd (remove_from_subpool pool i p)) b j = Some t'" for a b j t t'
    using that sub_disjointD(2) [OF dis, of a j t b t'] by (auto simp: look split: if_splits)
  show "vt_transaction_id t = j" if "sub_look (snd (remove_from_subpool pool i p)) a j = Some t" for a j t
    using that sub_disjointD(3) [OF dis, of a j t] by (auto simp: look split: if_splits)
qed

lemma sub_disjoint_add:
  assumes dis: "sub_disjoint p" and new: "\<And>pool. sub_look p pool (vt_transaction_id tx) = None"
  shows "\<exists>p'. add_transaction_to_subpool priority pool tx p = Some p' \<and> sub_disjoint p' \<and>
    tp_all_transactions p' = tp_all_transactions p \<and> sub_look p' pool (vt_transaction_id tx) = Some tx"
proof -
  obtain p' where p': "add_transaction_to_subpool priority pool tx p = Some p'"
    using add_to_subpool_None [of priority pool tx p] new by auto
  have look: "sub_look p' pool' = (if pool' = pool then (sub_look p pool)(vt_transaction_id tx \<mapsto> tx) else sub_look p pool')"
    "sub_ok p'" "tp_all_transactions p' = tp_all_transactions p" for pool'
    using add_to_subpool_Some [OF sub_disjointD(1) [OF dis] p'] by blast+
  have "sub_disjoint p'"
  proof (rule sub_disjointI)
    show "a = b" if "sub_look p' a j = Some t" "sub_look p' b j = Some t'" for a b j t t'
      using that sub_disjointD(2) [OF dis, of a j t b t'] sub_disjointD(2) [OF dis, of a j t b] new
      by (auto simp: look(1) split: if_splits)
    show "vt_transaction_id t = j" if "sub_look p' a j = Some t" for a j t
      using that sub_disjointD(3) [OF dis, of a j t] by (auto simp: look(1) split: if_splits)
  qed (rule look(2))
  with p' look show ?thesis
    by simp
qed

lemma move_transaction_total:
  assumes dis: "sub_disjoint p"
  shows "\<exists>p'. move_transaction priority from to i p = Some p' \<and> sub_disjoint p' \<and>
    tp_all_transactions p' = tp_all_transactions p"
proof -
  obtain r q where q: "remove_from_subpool from i p = (r, q)"
    by fastforce
  note look = remove_from_subpool_look [OF sub_disjointD(1) [OF dis], of "from" i, unfolded q fst_conv snd_conv]
  have dis': "sub_disjoint q" and all: "tp_all_transactions q = tp_all_transactions p"
    using sub_disjoint_remove [OF dis, of "from" i] remove_from_subpool_all [of "from" i p] by (simp_all add: q)
  show ?thesis
  proof (cases r)
    case None
    then show ?thesis
      using dis' all by (simp add: move_transaction_def q)
  next
    case (Some tx)
    then have tx: "sub_look p from i = Some tx" "vt_transaction_id tx = i"
      using look(1) sub_disjointD(3) [OF dis] by auto
    have "sub_look q pool (vt_transaction_id tx) = None" for pool
      using look(2) [of pool] sub_disjointD(2) [OF dis, of "from" i tx pool] tx by (cases "sub_look p pool i") auto
    from sub_disjoint_add [OF dis' this, of priority to] show ?thesis
      using Some all by (auto simp: move_transaction_def q)
  qed
qed

lemma process_updates_total:
  "sub_disjoint p \<Longrightarrow> \<exists>outcome' p'. process_updates priority us outcome p = Some (outcome', p') \<and> sub_disjoint p' \<and>
     tp_all_transactions p' = tp_all_transactions p"
proof (induction us arbitrary: outcome p)
  case (Cons u us)
  show ?case
  proof (cases "pu_destination u")
    case Discard
    with Cons show ?thesis
      by simp
  next
    case (Pool to)
    obtain p' where p': "move_transaction priority (pu_current u) to (pu_id u) p = Some p'" "sub_disjoint p'"
      "tp_all_transactions p' = tp_all_transactions p"
      using move_transaction_total [OF Cons.prems] by blast
    with Pool Cons.IH [OF p'(2)] show ?thesis
      by fastforce
  qed
qed simp

lemma sub_disjoint_all [simp]: "sub_disjoint (p\<lparr>tp_all_transactions := a\<rparr>) = sub_disjoint p"
  "sub_look (p\<lparr>tp_all_transactions := a\<rparr>) = sub_look p"
  by (simp_all add: sub_disjoint_def sub_ok_def sub_look_def fun_eq_iff split: sub_pool.splits)

lemma sub_disjoint_info [simp]: "sub_disjoint (p\<lparr>tp_sender_info := a\<rparr>) = sub_disjoint p"
  "sub_look (p\<lparr>tp_sender_info := a\<rparr>) = sub_look p"
  by (simp_all add: sub_disjoint_def sub_ok_def sub_look_def fun_eq_iff split: sub_pool.splits)

lemma tp_remove_hash_all:
  "tp_all_transactions (snd (tp_remove_transaction_by_hash x p)) =
     snd (at_remove_transaction_by_hash x (tp_all_transactions p))"
  by (simp add: tp_remove_transaction_by_hash_def split: prod.splits option.splits)

lemma tp_remove_hash_disjoint:
  fixes p :: "'k::linorder tx_pool"
  shows "sub_disjoint p \<Longrightarrow> sub_disjoint (snd (tp_remove_transaction_by_hash x p))"
  by (auto simp: tp_remove_transaction_by_hash_def sub_disjoint_remove split: prod.splits option.splits)

lemma fold_remove_hash:
  fixes p :: "'k::linorder tx_pool"
  shows "sub_disjoint p \<Longrightarrow> sub_disjoint (fold (\<lambda>x p. snd (tp_remove_transaction_by_hash x p)) xs p) \<and>
    tp_all_transactions (fold (\<lambda>x p. snd (tp_remove_transaction_by_hash x p)) xs p) =
      fold (\<lambda>x a. snd (at_remove_transaction_by_hash x a)) xs (tp_all_transactions p)"
  by (induction xs arbitrary: p) (simp_all add: tp_remove_hash_disjoint tp_remove_hash_all)

lemma sub_disjoint_new: "sub_disjoint (tp_new config)"
  by (auto simp: sub_disjoint_def sub_ok_def sub_look_def tp_new_def pending_ok_def parked_ok_def pending_look_def parked_look_def
      pending_new_def parked_default_def btree_wf_def btree_get_def split: sub_pool.splits)

lemma subpool_info [simp]:
  "tp_sender_info (snd (remove_from_subpool pool i p)) = tp_sender_info p"
  "add_transaction_to_subpool priority pool tx p = Some p' \<Longrightarrow> tp_sender_info p' = tp_sender_info p"
  by (auto simp: remove_from_subpool_def add_transaction_to_subpool_def split_beta Let_def split: sub_pool.splits)

lemma move_transaction_info: "move_transaction priority from to i p = Some p' \<Longrightarrow> tp_sender_info p' = tp_sender_info p"
  using subpool_info(1) [of "from" i p]
  by (auto simp: move_transaction_def simp del: subpool_info(1) split: prod.splits option.splits)

lemma process_updates_info:
  "process_updates priority us outcome p = Some (outcome', p') \<Longrightarrow> tp_sender_info p' = tp_sender_info p"
  by (induction priority us outcome p rule: process_updates.induct)
    (auto split: destination.splits option.splits if_splits dest: move_transaction_info)

lemma add_new_total:
  fixes p :: "'k::linorder tx_pool"
  assumes dis: "sub_disjoint p" and fresh: "\<And>pool. sub_look p pool (vt_transaction_id tx) = None"
  shows "\<exists>p'. add_new_transaction priority tx replaced pool p = Some p' \<and> sub_disjoint p' \<and>
    tp_all_transactions p' = tp_all_transactions p \<and> tp_sender_info p' = tp_sender_info p"
proof -
  let ?p = "case replaced of Some (t, from) \<Rightarrow> snd (remove_from_subpool from (vt_transaction_id t) p) | None \<Rightarrow> p"
  have "sub_disjoint ?p" "tp_all_transactions ?p = tp_all_transactions p" "tp_sender_info ?p = tp_sender_info p"
    using dis sub_disjoint_remove by (auto split: option.splits)
  moreover have "sub_look ?p pool' (vt_transaction_id tx) = None" for pool'
    using fresh by (simp add: remove_from_subpool_look [OF sub_disjointD(1) [OF dis]] split: option.splits prod.splits)
  ultimately show ?thesis
    using sub_disjoint_add [of ?p tx priority pool] by (auto simp: add_new_transaction_def Let_def)
qed

lemma tp_add_total:
  fixes p :: "'k::linorder tx_pool"
  assumes dis: "sub_disjoint p" and inv: "at_inv (tp_all_transactions p)"
    and u: "hash_unique t (txs_view (at_txs (tp_all_transactions p)))"
    and id: "tid_nonce (vt_transaction_id t) = vt_nonce t" and nonce: "nonce \<le> vt_nonce t"
    and fresh: "\<And>pool. sub_look p pool (vt_transaction_id t) = None"
  shows "\<exists>(r :: 'e pool_error + added_transaction) q. tp_add_transaction priority t balance nonce p = Some (r, q) \<and> sub_disjoint q \<and>
    tp_sender_info q (vt_sender_id t) = Some \<lparr>sn_state_nonce = nonce, sn_balance = balance\<rparr> \<and>
    (case insert_spec (at_max_account_slots (tp_all_transactions p)) (at_block_gas_limit (tp_all_transactions p))
            (at_minimal_protocol_basefee (tp_all_transactions p)) (txs_view (at_txs (tp_all_transactions p))) t of
       Some err \<Rightarrow> r = Inl (insert_error err) \<and> q = p\<lparr>tp_sender_info := tp_sender_info q\<rparr>
     | None \<Rightarrow> (\<exists>added. r = Inr added \<and> added_hash added = vt_hash t) \<and> at_inv (tp_all_transactions q) \<and>
         txs_view (at_txs (tp_all_transactions q)) =
           btree_insert (vt_transaction_id t) t (txs_view (at_txs (tp_all_transactions p))))"
proof -
  let ?a = "tp_all_transactions p"
  let ?p = "p\<lparr>tp_sender_info := (tp_sender_info p)(vt_sender_id t \<mapsto> \<lparr>sn_state_nonce = nonce, sn_balance = balance\<rparr>)\<rparr>"
  note spec = insert_tx_spec [OF inv u id, of nonce balance]
  show ?thesis
  proof (cases "insert_spec (at_max_account_slots ?a) (at_block_gas_limit ?a) (at_minimal_protocol_basefee ?a) (txs_view (at_txs ?a)) t")
    case (Some err)
    have "insert_tx t balance nonce ?a = Some (Inl err, ?a)"
      using spec leD [OF nonce] Some by simp
    then have "tp_add_transaction priority t balance nonce p = Some (Inl (insert_error err) :: 'e pool_error + _, ?p)"
      by (simp add: tp_add_transaction_def Let_def)
    then show ?thesis
      using Some dis by simp
  next
    case None
    then obtain ok a where ok: "insert_tx t balance nonce ?a = Some (Inr ok, a)" "at_inv a"
      "txs_view (at_txs a) = btree_insert (vt_transaction_id t) t (txs_view (at_txs ?a))"
      using spec leD [OF nonce] by auto
    then have t: "io_transaction ok = t"
      by (elim insert_tx_OkE) simp
    let ?q = "?p\<lparr>tp_all_transactions := a\<rparr>"
    have q: "sub_disjoint ?q" "sub_look ?q = sub_look p"
      using dis by simp_all
    obtain q' where q': "add_new_transaction priority t (io_replaced_tx ok) (io_move_to ok) ?q = Some q'" "sub_disjoint q'"
      "tp_all_transactions q' = a" "tp_sender_info q' = tp_sender_info ?q"
      using add_new_total [OF q(1), of t priority "io_replaced_tx ok" "io_move_to ok"] fresh unfolding q(2) by auto
    obtain outcome q'' where q'': "process_updates priority (io_updates ok) empty_outcome q' = Some (outcome, q'')" "sub_disjoint q''"
      "tp_all_transactions q'' = a"  "tp_sender_info q'' = tp_sender_info q'"
      using process_updates_total [OF q'(2), of priority "io_updates ok" empty_outcome] q'(3) process_updates_info by fastforce
    show ?thesis
      using None ok q' q'' by (auto simp: tp_add_transaction_def t Let_def)
  qed
qed

lemma sub_look_new: "sub_look (tp_new config) pool i = None"
  by (simp add: sub_look_def tp_new_def pending_look_def parked_look_def pending_new_def parked_default_def btree_get_def
      split: sub_pool.splits)

lemma validate_transaction_Valid:
  "validate_transaction v basic_account origin tx = Outcome_Valid balance nonce tx' \<Longrightarrow> tx' = tx \<and> nonce \<le> pt_nonce tx"
  by (auto simp: validate_transaction_def split: sum.splits option.splits if_splits)

lemma btree_get_inserted: "btree_wf m \<Longrightarrow> btree_get (btree_insert k v m) k = Some v"
  by (simp add: btree.get_ins)

section \<open>An example\<close>

declare discard_pending.simps [code] discard_basefee.simps [code] discard_queued.simps [code]

text \<open>A pool with one pending transaction, and a transaction that pays ten times its price.\<close>

definition example_config :: "nat \<Rightarrow> pool_config" where
  "example_config n =
     (let l = \<lparr>max_txs = n, max_size = n\<rparr>
      in \<lparr>pending_limit = l, basefee_limit = l, queued_limit = l, max_account_slots = 16\<rparr>)"

definition example_pool :: "u256 tx_pool" where
  "example_pool =
     (case tp_add_transaction pt_cost (example_capped 100 0 5) 100 0 (tp_new (example_config 9)) :: ((unit pool_error + _) \<times> _) option of
        Some (_, p) \<Rightarrow> p | None \<Rightarrow> tp_new (example_config 9))"

definition example_replacement :: valid_pool_transaction where
  "example_replacement =
     (let t = example_capped 100 0 5; x = vt_transaction t; e = pt_transaction x; g = er_signed_transaction e
      in t\<lparr>vt_transaction := x\<lparr>pt_transaction := e\<lparr>er_signed_transaction := g\<lparr>ts_hash := [7]\<rparr>\<rparr>, pt_effective_gas_price := 20\<rparr>\<rparr>)"

definition example_validator :: eth_transaction_validator where
  "example_validator = \<lparr>ev_chain_id = 1, ev_shanghai = True, ev_eip2718 = True, ev_eip1559 = True,
     ev_current_max_gas_limit = 30000000, ev_gas_price = None\<rparr>"

lemmas example_pooled_defs = pt_tx_type_def pt_size_def pt_gas_limit_def pt_max_fee_per_gas_def pt_max_priority_fee_per_gas_def
  pt_chain_id_def pt_inner_def pt_nonce_def ensure_max_init_code_size_def has_bytecode_def MAX_INIT_CODE_SIZE_def MAX_CODE_SIZE_def
  TX_MAX_SIZE_def EIP1559_TX_TYPE_ID_def EIP2930_TX_TYPE_ID_def LEGACY_TX_TYPE_ID_def

section \<open>Properties\<close>

text \<open>C7. Enforcing the limits of the pool always returns, and afterwards every sub-pool is within its limits.
  The transactions of the sub-pools are only removed. The hypothesis on the sizes excludes a wrap-around of
  the tracked sizes.\<close>

theorem discard_worst_enforces_limits:
  assumes "pools_inv p" and "pending_bytes (tp_pending_pool p) < 2 ^ 64"
    and "parked_bytes (tp_queued_pool p) < 2 ^ 64" and "parked_bytes (tp_basefee_pool p) < 2 ^ 64"
  shows "\<exists>removed q. discard_worst p = Some (removed, q) \<and> pools_shrink p q \<and>
    \<not> is_exceeded (pending_limit (tp_config p)) (pending_len (tp_pending_pool q)) (pending_size (tp_pending_pool q)) \<and>
    \<not> is_exceeded (basefee_limit (tp_config p)) (parked_len (tp_basefee_pool q)) (parked_size (tp_basefee_pool q)) \<and>
    \<not> is_exceeded (queued_limit (tp_config p)) (parked_len (tp_queued_pool q)) (parked_size (tp_queued_pool q))"
proof -
  obtain removed q where "discard_worst p = Some (removed, q)" "pools_shrink p q"
    "\<not> pending_exceeded q" "\<not> basefee_exceeded q" "\<not> queued_exceeded q"
    using discard_worst_returns [of p] assms by (auto simp: pools_ok_def)
  moreover from this(2) have "tp_config q = tp_config p"
    by (simp add: pools_shrink_def)
  ultimately show ?thesis
    by (auto simp: pending_exceeded_def basefee_exceeded_def queued_exceeded_def)
qed

theorem discard_worst_enforces_limits_witness:
  "\<exists>removed q. discard_worst ((tp_new (example_config 1))\<lparr>tp_pending_pool := example_pending\<rparr>) = Some (removed, q) \<and>
     pending_len example_pending = 2 \<and> pending_len (tp_pending_pool q) \<le> 1"
proof -
  let ?p = "(tp_new (example_config 1))\<lparr>tp_pending_pool := example_pending\<rparr>"
  have "pools_inv ?p"
    using example_pending_inv parked_inv_default [of queued_ord] parked_inv_default [of basefee_ord] by (auto simp: pools_inv_def tp_new_def)
  moreover have "pending_bytes example_pending = 0"
    by (simp add: pending_bytes_def example_pending_eq example_defs vt_size_def pt_size_def pt_inner_def Let_def)
  moreover have "parked_bytes (tp_queued_pool ?p) = 0" "parked_bytes (tp_basefee_pool ?p) = 0"
    "pending_limit (tp_config ?p) = \<lparr>max_txs = 1, max_size = 1\<rparr>"
    by (simp_all add: parked_bytes_def tp_new_def parked_default_def example_config_def Let_def)
  moreover have "pending_len example_pending = 2"
    by (simp add: pending_len_def example_pending_eq Let_def)
  ultimately show ?thesis
    using discard_worst_enforces_limits [of ?p] by (auto simp: is_exceeded_def)
qed

text \<open>C19. When no transaction is in two sub-pools, handling a new block does not panic, keeps it that way,
  removes exactly the mined transactions from the container, and applies the new base fee.\<close>

theorem on_new_block_total:
  fixes p :: "'k::linorder tx_pool"
  assumes dis: "sub_disjoint p" and inv: "at_inv (tp_all_transactions p)"
  shows "\<exists>outcome q. tp_on_new_block priority event p = Some (outcome, q) \<and> sub_disjoint q \<and>
    oc_mined outcome = ev_mined_transactions event \<and> at_inv (tp_all_transactions q) \<and>
    at_pending_basefee (tp_all_transactions q) = ev_pending_block_base_fee event \<and>
    txs_view (at_txs (tp_all_transactions q)) =
      filter (\<lambda>e. vt_hash (snd e) \<notin> set (ev_mined_transactions event)) (txs_view (at_txs (tp_all_transactions p)))"
proof -
  let ?p = "fold (\<lambda>x p. snd (tp_remove_transaction_by_hash x p)) (ev_mined_transactions event) p"
  have p: "sub_disjoint ?p" "tp_all_transactions ?p =
      fold (\<lambda>x a. snd (at_remove_transaction_by_hash x a)) (ev_mined_transactions event) (tp_all_transactions p)"
    using fold_remove_hash [OF dis] by blast+
  obtain us a where u: "at_update (ev_pending_block_base_fee event) (tp_all_transactions ?p) = (us, a)"
    by fastforce
  have inv': "at_inv (tp_all_transactions ?p)" and view: "txs_view (at_txs (tp_all_transactions ?p)) =
      filter (\<lambda>e. vt_hash (snd e) \<notin> set (ev_mined_transactions event)) (txs_view (at_txs (tp_all_transactions p)))"
    using all_txs.fold_del_hash [OF inv, of "ev_mined_transactions event"] unfolding p(2) by blast+
  have a: "at_inv a" "txs_view (at_txs a) = txs_view (at_txs (tp_all_transactions ?p))"
    "at_pending_basefee a = ev_pending_block_base_fee event"
    using at_inv_update [OF inv', of "ev_pending_block_base_fee event"]
      txs_view_update_senders [of "ev_pending_block_base_fee event" "at_txs (tp_all_transactions ?p)"] u
    by (auto simp: at_update_def split_beta Let_def)
  have "sub_disjoint (?p\<lparr>tp_all_transactions := a\<rparr>)"
    using p(1) by simp
  from process_updates_total [OF this, of priority us empty_outcome] a view u show ?thesis
    by (auto simp: tp_on_new_block_def Let_def)
qed

theorem on_new_block_total_witness:
  "\<exists>outcome q. tp_on_new_block pt_cost \<lparr>ev_hash = [], ev_pending_block_base_fee = 60, ev_mined_transactions = [[0]]\<rparr>
      ((tp_new pool_config_default)\<lparr>tp_all_transactions := example_one\<rparr>) = Some (outcome, q) \<and>
    sub_disjoint q \<and> at_inv (tp_all_transactions q)"
proof -
  have "sub_disjoint ((tp_new pool_config_default)\<lparr>tp_all_transactions := example_one\<rparr>)"
    by (simp add: sub_disjoint_new)
  from on_new_block_total [OF this, of pt_cost] example_one_ok(1) show ?thesis
    by (fastforce simp: at_ok_inv)
qed






text \<open>Enforcing the limits removes the popped transaction from its sub-pool only: the container still has it.\<close>

theorem discard_worst_keeps_entry:
  "case discard_worst (example_pool\<lparr>tp_config := example_config 0\<rparr>) of
     Some (removed, q) \<Rightarrow> map vt_hash removed = [[0]] \<and> pending_len (tp_pending_pool q) = 0 \<and>
       tp_len q = 1 \<and> map_option vt_hash (tp_get q [0]) = Some [0]
   | None \<Rightarrow> False"
  by code_simp

end
