(* ===== verification/P2P.thy ===== *)
theory P2P
  imports RlpDerive BTree "HOL-Library.List_Lexorder"
begin

text \<open>
  The \<^verbatim>\<open>p2p\<close> protocol of \<^verbatim>\<open>crates/net/eth-wire\<close>: the disconnect reasons, the versions and
  capabilities of the handshake, the hello message, the codec of the messages, the pinger and the
  stream that compresses messages and shifts their identifiers. Strings are their UTF-8 bytes. The
  functions of the snappy library are parameters; a stream is the list of what the transport yields.
\<close>

section \<open>Disconnect reasons\<close>

datatype disconnect_reason =
    DisconnectRequested
  | TcpSubsystemError
  | ProtocolBreach
  | UselessPeer
  | TooManyPeers
  | AlreadyConnected
  | IncompatibleP2PProtocolVersion
  | NullNodeIdentity
  | ClientQuitting
  | UnexpectedHandshakeIdentity
  | ConnectedToSelf
  | Reason_PingTimeout
  | SubprotocolSpecific

fun reason_code :: "disconnect_reason \<Rightarrow> u8" where
  "reason_code DisconnectRequested = 0x00"
| "reason_code TcpSubsystemError = 0x01"
| "reason_code ProtocolBreach = 0x02"
| "reason_code UselessPeer = 0x03"
| "reason_code TooManyPeers = 0x04"
| "reason_code AlreadyConnected = 0x05"
| "reason_code IncompatibleP2PProtocolVersion = 0x06"
| "reason_code NullNodeIdentity = 0x07"
| "reason_code ClientQuitting = 0x08"
| "reason_code UnexpectedHandshakeIdentity = 0x09"
| "reason_code ConnectedToSelf = 0x0a"
| "reason_code Reason_PingTimeout = 0x0b"
| "reason_code SubprotocolSpecific = 0x10"

datatype unknown_disconnect_reason = UnknownDisconnectReason u8

definition reason_try_from :: "u8 \<Rightarrow> unknown_disconnect_reason + disconnect_reason" where
  "reason_try_from v =
     (if v = 0x00 then Inr DisconnectRequested
      else if v = 0x01 then Inr TcpSubsystemError
      else if v = 0x02 then Inr ProtocolBreach
      else if v = 0x03 then Inr UselessPeer
      else if v = 0x04 then Inr TooManyPeers
      else if v = 0x05 then Inr AlreadyConnected
      else if v = 0x06 then Inr IncompatibleP2PProtocolVersion
      else if v = 0x07 then Inr NullNodeIdentity
      else if v = 0x08 then Inr ClientQuitting
      else if v = 0x09 then Inr UnexpectedHandshakeIdentity
      else if v = 0x0a then Inr ConnectedToSelf
      else if v = 0x0b then Inr Reason_PingTimeout
      else if v = 0x10 then Inr SubprotocolSpecific
      else Inl (UnknownDisconnectReason v))"

definition reason_encode :: "disconnect_reason \<Rightarrow> bytes" where
  "reason_encode r = encode_list uint_length encode_uint [reason_code r]"

definition reason_length :: "disconnect_reason \<Rightarrow> nat" where
  "reason_length r = list_length uint_length [reason_code r]"

text \<open>The access to the first byte is guarded by the lengths: it does not panic.\<close>

definition reason_decode :: "bytes \<Rightarrow> decode_error + disconnect_reason \<times> bytes" where
  "reason_decode buf =
     (if buf = [] then Inl InputTooShort
      else if length buf > 2 then Inl Overflow
      else
        and_then
          (if length buf > 1
           then and_then (header_decode buf) (\<lambda>(h, buf).
                  if \<not> list_flag h then Inl UnexpectedString else Inr buf)
           else Inr buf) (\<lambda>buf.
        if hd buf = 0x00 then Inr (DisconnectRequested, tl buf)
        else and_then (decode_uint buf) (\<lambda>(v, buf).
          case reason_try_from v of
            Inl _ \<Rightarrow> Inl (Custom ''unknown disconnect reason'')
          | Inr r \<Rightarrow> Inr (r, buf))))"

section \<open>Strings\<close>

definition utf8_cont :: "u8 \<Rightarrow> bool" where
  "utf8_cont b \<longleftrightarrow> 0x80 \<le> b \<and> b \<le> 0xBF"

text \<open>The byte strings that \<^verbatim>\<open>from_utf8\<close> accepts.\<close>

fun utf8_valid :: "bytes \<Rightarrow> bool" where
  "utf8_valid [] = True"
| "utf8_valid (a # s) =
     (if a < 0x80 then utf8_valid s
      else if 0xC2 \<le> a \<and> a \<le> 0xDF then
        (case s of b # s \<Rightarrow> utf8_cont b \<and> utf8_valid s | _ \<Rightarrow> False)
      else if 0xE0 \<le> a \<and> a \<le> 0xEF then
        (case s of
           b # c # s \<Rightarrow>
             utf8_cont b \<and> (a = 0xE0 \<longrightarrow> 0xA0 \<le> b) \<and> (a = 0xED \<longrightarrow> b \<le> 0x9F) \<and> utf8_cont c \<and> utf8_valid s
         | _ \<Rightarrow> False)
      else if 0xF0 \<le> a \<and> a \<le> 0xF4 then
        (case s of
           b # c # d # s \<Rightarrow>
             utf8_cont b \<and> (a = 0xF0 \<longrightarrow> 0x90 \<le> b) \<and> (a = 0xF4 \<longrightarrow> b \<le> 0x8F) \<and> utf8_cont c \<and> utf8_cont d \<and>
             utf8_valid s
         | _ \<Rightarrow> False)
      else False)"

definition decode_string :: "bytes \<Rightarrow> decode_error + bytes \<times> bytes" where
  "decode_string buf =
     and_then (header_decode buf) (\<lambda>(h, buf).
       if list_flag h then Inl UnexpectedList
       else (let s = take (payload_length h) buf; buf = drop (payload_length h) buf
             in if utf8_valid s then Inr (s, buf) else Inl (Custom ''invalid string'')))"

section \<open>Versions and capabilities\<close>

datatype eth_version = Eth66 | Eth67 | Eth68

text \<open>The error keeps the number; the code keeps its decimal text.\<close>

datatype parse_version_error = ParseVersionError u8

fun eth_version_u8 :: "eth_version \<Rightarrow> u8" where
  "eth_version_u8 Eth66 = 66"
| "eth_version_u8 Eth67 = 67"
| "eth_version_u8 Eth68 = 68"

fun total_messages :: "eth_version \<Rightarrow> u8" where
  "total_messages Eth66 = 15"
| "total_messages Eth67 = 13"
| "total_messages Eth68 = 13"

definition eth_version_try_from :: "u8 \<Rightarrow> parse_version_error + eth_version" where
  "eth_version_try_from u =
     (if u = 66 then Inr Eth66
      else if u = 67 then Inr Eth67
      else if u = 68 then Inr Eth68
      else Inl (ParseVersionError u))"

text \<open>\<open>eth\<close> is the name ``eth''.\<close>

definition eth :: bytes where
  "eth = [0x65, 0x74, 0x68]"

record capability =
  cap_name :: bytes
  cap_version :: u64

definition capability_of_version :: "eth_version \<Rightarrow> capability" where
  "capability_of_version v = \<lparr>cap_name = eth, cap_version = ucast (eth_version_u8 v)\<rparr>"

definition is_eth_v66 :: "capability \<Rightarrow> bool" where
  "is_eth_v66 c \<longleftrightarrow> cap_name c = eth \<and> cap_version c = 66"

definition is_eth_v67 :: "capability \<Rightarrow> bool" where
  "is_eth_v67 c \<longleftrightarrow> cap_name c = eth \<and> cap_version c = 67"

definition is_eth_v68 :: "capability \<Rightarrow> bool" where
  "is_eth_v68 c \<longleftrightarrow> cap_name c = eth \<and> cap_version c = 68"

definition capability_fields :: "capability \<Rightarrow> bytes \<times> u64" where
  "capability_fields c = (cap_name c, cap_version c)"

definition capability_of :: "bytes \<times> u64 \<Rightarrow> capability" where
  "capability_of f = \<lparr>cap_name = fst f, cap_version = snd f\<rparr>"

definition capability_length :: "capability \<Rightarrow> nat" where
  "capability_length c = derive_length (seq_length slice_length uint_length) (capability_fields c)"

definition capability_encode :: "capability \<Rightarrow> bytes" where
  "capability_encode c =
     derive_encode (seq_length slice_length uint_length) (seq_encode encode_slice encode_uint) (capability_fields c)"

definition capability_decode :: "bytes \<Rightarrow> decode_error + capability \<times> bytes" where
  "capability_decode buf =
     and_then (derive_decode (seq_decode decode_string decode_uint) buf) (\<lambda>(f, buf). Inr (capability_of f, buf))"

record capabilities =
  cs_inner :: "capability list"
  cs_eth_66 :: bool
  cs_eth_67 :: bool
  cs_eth_68 :: bool

definition capabilities_from :: "capability list \<Rightarrow> capabilities" where
  "capabilities_from value =
     \<lparr>cs_inner = value, cs_eth_66 = list_ex is_eth_v66 value, cs_eth_67 = list_ex is_eth_v67 value,
      cs_eth_68 = list_ex is_eth_v68 value\<rparr>"

definition supports_eth :: "capabilities \<Rightarrow> bool" where
  "supports_eth c \<longleftrightarrow> cs_eth_68 c \<or> cs_eth_67 c \<or> cs_eth_66 c"

definition capabilities_encode :: "capabilities \<Rightarrow> bytes" where
  "capabilities_encode c = encode_list capability_length capability_encode (cs_inner c)"

definition capabilities_decode :: "bytes \<Rightarrow> decode_error + capabilities \<times> bytes" where
  "capabilities_decode buf =
     and_then (decode_list capability_decode buf) (\<lambda>(inner, buf). Inr (capabilities_from inner, buf))"

datatype shared_capability =
    Shared_Eth eth_version u8
  | UnknownCapability bytes u8 u8

datatype shared_capability_error =
    UnsupportedVersion parse_version_error
  | Err_UnknownCapability

definition shared_capability_new :: "bytes \<Rightarrow> u8 \<Rightarrow> u8 \<Rightarrow> shared_capability_error + shared_capability" where
  "shared_capability_new name version offset =
     (if name = eth then
        (case eth_version_try_from version of
           Inl e \<Rightarrow> Inl (UnsupportedVersion e)
         | Inr v \<Rightarrow> Inr (Shared_Eth v offset))
      else Inr (UnknownCapability name version offset))"

fun shared_name :: "shared_capability \<Rightarrow> bytes" where
  "shared_name (Shared_Eth _ _) = eth"
| "shared_name (UnknownCapability name _ _) = name"

fun shared_version :: "shared_capability \<Rightarrow> u8" where
  "shared_version (Shared_Eth version _) = eth_version_u8 version"
| "shared_version (UnknownCapability _ version _) = version"

fun shared_offset :: "shared_capability \<Rightarrow> u8" where
  "shared_offset (Shared_Eth _ offset) = offset"
| "shared_offset (UnknownCapability _ _ offset) = offset"

fun num_messages :: "shared_capability \<Rightarrow> shared_capability_error + u8" where
  "num_messages (Shared_Eth version _) = Inr (total_messages version)"
| "num_messages (UnknownCapability _ _ _) = Inl Err_UnknownCapability"

section \<open>Errors\<close>

text \<open>The kinds of an error of the operating system that the code distinguishes.\<close>

datatype io_error_kind = ConnectionRefused | ConnectionReset | BrokenPipe | Io_Other

datatype pinger_error = UnexpectedPong

datatype p2p_handshake_error =
    HelloNotInHandshake
  | NonHelloMessageInHandshake
  | NoSharedCapabilities
  | P2P_NoResponse
  | Handshake_Timeout
  | Handshake_Disconnected disconnect_reason
  | Handshake_DecodeError decode_error

text \<open>\<open>'s\<close> is the error type of the snappy library.\<close>

datatype 's p2p_stream_error =
    P2P_Io io_error_kind
  | P2P_Rlp decode_error
  | P2P_Snap 's
  | P2P_HandshakeError p2p_handshake_error
  | P2P_MessageTooBig nat nat
  | UnknownReservedMessageId u8
  | EmptyProtocolMessage
  | P2P_PingerError pinger_error
  | P2P_PingTimeout
  | P2P_ParseVersionError shared_capability_error
  | P2P_MismatchedProtocolVersion u8 u8
  | PingBeforeHandshake
  | SendBufferFull
  | P2P_Disconnected disconnect_reason
  | P2P_UnknownDisconnectReason unknown_disconnect_reason

definition p2p_as_disconnected :: "'s p2p_stream_error \<Rightarrow> disconnect_reason option" where
  "p2p_as_disconnected e =
     (case e of
        P2P_HandshakeError (Handshake_Disconnected reason) \<Rightarrow> Some reason
      | P2P_Disconnected reason \<Rightarrow> Some reason
      | _ \<Rightarrow> None)"

section \<open>Messages\<close>

datatype protocol_version = P2P_V4 | P2P_V5

fun protocol_version_u8 :: "protocol_version \<Rightarrow> u8" where
  "protocol_version_u8 P2P_V4 = 4"
| "protocol_version_u8 P2P_V5 = 5"

definition protocol_version_encode :: "protocol_version \<Rightarrow> bytes" where
  "protocol_version_encode v = encode_uint (protocol_version_u8 v)"

definition protocol_version_length :: "protocol_version \<Rightarrow> nat" where
  "protocol_version_length v = uint_length (protocol_version_u8 v)"

definition protocol_version_decode :: "bytes \<Rightarrow> decode_error + protocol_version \<times> bytes" where
  "protocol_version_decode buf =
     and_then (decode_uint buf) (\<lambda>(version :: u8, buf).
       if version = 4 then Inr (P2P_V4, buf)
       else if version = 5 then Inr (P2P_V5, buf)
       else Inl (Custom ''unknown p2p protocol version''))"

record hello_message =
  he_protocol_version :: protocol_version
  he_client_version :: bytes
  he_capabilities :: "capability list"
  he_port :: u16
  he_id :: bytes

definition hello_fields :: "hello_message \<Rightarrow> protocol_version \<times> bytes \<times> capability list \<times> u16 \<times> bytes" where
  "hello_fields h = (he_protocol_version h, he_client_version h, he_capabilities h, he_port h, he_id h)"

definition hello_of :: "protocol_version \<times> bytes \<times> capability list \<times> u16 \<times> bytes \<Rightarrow> hello_message" where
  "hello_of f =
     (case f of (v, c, cs, p, i) \<Rightarrow>
        \<lparr>he_protocol_version = v, he_client_version = c, he_capabilities = cs, he_port = p, he_id = i\<rparr>)"

abbreviation hello_fields_len :: "protocol_version \<times> bytes \<times> capability list \<times> u16 \<times> bytes \<Rightarrow> nat" where
  "hello_fields_len \<equiv>
     seq_length protocol_version_length (seq_length slice_length
       (seq_length (list_length capability_length) (seq_length uint_length slice_length)))"

definition hello_length :: "hello_message \<Rightarrow> nat" where
  "hello_length h = derive_length hello_fields_len (hello_fields h)"

definition hello_encode :: "hello_message \<Rightarrow> bytes" where
  "hello_encode h =
     derive_encode hello_fields_len
       (seq_encode protocol_version_encode (seq_encode encode_slice
         (seq_encode (encode_list capability_length capability_encode) (seq_encode encode_uint encode_slice))))
       (hello_fields h)"

definition hello_decode :: "bytes \<Rightarrow> decode_error + hello_message \<times> bytes" where
  "hello_decode buf =
     and_then
       (derive_decode
          (seq_decode protocol_version_decode (seq_decode decode_string
            (seq_decode (decode_list capability_decode) (seq_decode decode_uint (decode_array 64))))) buf)
       (\<lambda>(f, buf). Inr (hello_of f, buf))"

record hello_message_builder =
  hb_protocol_version :: "protocol_version option"
  hb_client_version :: "bytes option"
  hb_capabilities :: "capability list option"
  hb_port :: "u16 option"
  hb_id :: bytes

definition hello_builder_new :: "bytes \<Rightarrow> hello_message_builder" where
  "hello_builder_new i =
     \<lparr>hb_protocol_version = None, hb_client_version = None, hb_capabilities = None, hb_port = None, hb_id = i\<rparr>"

text \<open>\<open>client\<close> is the version string that the build inserts.\<close>

definition hello_build :: "bytes \<Rightarrow> hello_message_builder \<Rightarrow> hello_message" where
  "hello_build client b =
     \<lparr>he_protocol_version = (case hb_protocol_version b of Some v \<Rightarrow> v | None \<Rightarrow> P2P_V5),
      he_client_version = (case hb_client_version b of Some v \<Rightarrow> v | None \<Rightarrow> client),
      he_capabilities =
        (case hb_capabilities b of
           Some c \<Rightarrow> c
         | None \<Rightarrow> [capability_of_version Eth68, capability_of_version Eth67, capability_of_version Eth66]),
      he_port = (case hb_port b of Some p \<Rightarrow> p | None \<Rightarrow> 30303),
      he_id = hb_id b\<rparr>"

datatype p2p_message_id = Id_Hello | Id_Disconnect | Id_Ping | Id_Pong

fun message_id_u8 :: "p2p_message_id \<Rightarrow> u8" where
  "message_id_u8 Id_Hello = 0x00"
| "message_id_u8 Id_Disconnect = 0x01"
| "message_id_u8 Id_Ping = 0x02"
| "message_id_u8 Id_Pong = 0x03"

definition message_id_try_from :: "u8 \<Rightarrow> 's p2p_stream_error + p2p_message_id" where
  "message_id_try_from i =
     (if i = 0x00 then Inr Id_Hello
      else if i = 0x01 then Inr Id_Disconnect
      else if i = 0x02 then Inr Id_Ping
      else if i = 0x03 then Inr Id_Pong
      else Inl (UnknownReservedMessageId i))"

datatype p2p_message =
    Msg_Hello hello_message
  | Msg_Disconnect disconnect_reason
  | Msg_Ping
  | Msg_Pong

fun message_id :: "p2p_message \<Rightarrow> p2p_message_id" where
  "message_id (Msg_Hello _) = Id_Hello"
| "message_id (Msg_Disconnect _) = Id_Disconnect"
| "message_id Msg_Ping = Id_Ping"
| "message_id Msg_Pong = Id_Pong"

definition snappy_empty_list :: bytes where
  "snappy_empty_list = [0x01, 0x00, EMPTY_LIST_CODE]"

definition p2p_message_encode :: "p2p_message \<Rightarrow> bytes" where
  "p2p_message_encode m =
     encode_uint (message_id_u8 (message_id m)) @
     (case m of
        Msg_Hello msg \<Rightarrow> hello_encode msg
      | Msg_Disconnect msg \<Rightarrow> reason_encode msg
      | Msg_Ping \<Rightarrow> snappy_empty_list
      | Msg_Pong \<Rightarrow> snappy_empty_list)"

definition p2p_message_length :: "p2p_message \<Rightarrow> nat" where
  "p2p_message_length m =
     (case m of
        Msg_Hello msg \<Rightarrow> hello_length msg
      | Msg_Disconnect msg \<Rightarrow> reason_length msg
      | Msg_Ping \<Rightarrow> 3
      | Msg_Pong \<Rightarrow> 3) + 1"

definition advance_snappy_ping_pong_payload :: "bytes \<Rightarrow> decode_error + bytes" where
  "advance_snappy_ping_pong_payload buf =
     (if length buf < 3 then Inl InputTooShort
      else if take 3 buf \<noteq> snappy_empty_list then Inl (Custom ''expected snappy payload'')
      else Inr (drop 3 buf))"

definition p2p_message_decode :: "bytes \<Rightarrow> decode_error + p2p_message \<times> bytes" where
  "p2p_message_decode buf =
     and_then (decode_uint buf) (\<lambda>(i, _).
     and_then
       (case message_id_try_from i :: unit p2p_stream_error + p2p_message_id of
          Inl _ \<Rightarrow> Inl (Custom ''unknown p2p message id'')
        | Inr i \<Rightarrow> Inr i) (\<lambda>i.
     let buf = drop 1 buf in
     case i of
       Id_Hello \<Rightarrow> and_then (hello_decode buf) (\<lambda>(m, buf). Inr (Msg_Hello m, buf))
     | Id_Disconnect \<Rightarrow> and_then (reason_decode buf) (\<lambda>(m, buf). Inr (Msg_Disconnect m, buf))
     | Id_Ping \<Rightarrow> and_then (advance_snappy_ping_pong_payload buf) (\<lambda>buf. Inr (Msg_Ping, buf))
     | Id_Pong \<Rightarrow> and_then (advance_snappy_ping_pong_payload buf) (\<lambda>buf. Inr (Msg_Pong, buf))))"

section \<open>The pinger\<close>

datatype ping_state = Ping_Ready | WaitingForPong | TimedOut

datatype pinger_event = Event_Ping | Event_Timeout

definition on_pong :: "ping_state \<Rightarrow> (pinger_error + unit) \<times> ping_state" where
  "on_pong s =
     (case s of
        Ping_Ready \<Rightarrow> (Inl UnexpectedPong, s)
      | WaitingForPong \<Rightarrow> (Inr (), Ping_Ready)
      | TimedOut \<Rightarrow> (Inr (), Ping_Ready))"

text \<open>\<open>tick\<close> and \<open>elapsed\<close> are the readings of the two timers; \<^term>\<open>None\<close> is pending.\<close>

definition poll_ping :: "bool \<Rightarrow> bool \<Rightarrow> ping_state \<Rightarrow> pinger_event option \<times> ping_state" where
  "poll_ping tick elapsed s =
     (case s of
        Ping_Ready \<Rightarrow> if tick then (Some Event_Ping, WaitingForPong) else (None, s)
      | WaitingForPong \<Rightarrow> if elapsed then (Some Event_Timeout, TimedOut) else (None, s)
      | TimedOut \<Rightarrow> (None, s))"

section \<open>Shared capabilities\<close>

definition MAX_PAYLOAD_SIZE :: nat where
  "MAX_PAYLOAD_SIZE = 16 * 1024 * 1024"

definition MAX_RESERVED_MESSAGE_ID :: u8 where
  "MAX_RESERVED_MESSAGE_ID = 0x0f"

definition MAX_P2P_MESSAGE_ID :: u8 where
  "MAX_P2P_MESSAGE_ID = message_id_u8 Id_Pong"

definition MAX_P2P_CAPACITY :: nat where
  "MAX_P2P_CAPACITY = 64"

text \<open>The highest shared version of each shared name, and the sorted set of the names. One is empty exactly
  when the other is.\<close>

fun find_shared ::
    "capability set \<Rightarrow> capability list \<Rightarrow> (bytes \<rightharpoonup> u64) \<times> (bytes, unit) btree \<Rightarrow>
     (bytes \<rightharpoonup> u64) \<times> (bytes, unit) btree" where
  "find_shared our [] s = s"
| "find_shared our (c # peer) (versions, names) =
     (if c \<in> our then
        (let version = versions (cap_name c) in
         if version = None \<or> (version \<noteq> None \<and> the version < cap_version c)
         then find_shared our peer (versions(cap_name c \<mapsto> cap_version c), btree_set_insert (cap_name c) () names)
         else find_shared our peer (versions, names))
      else find_shared our peer (versions, names))"

fun assign_offsets ::
    "(bytes \<rightharpoonup> u64) \<Rightarrow> bytes list \<Rightarrow> u8 \<Rightarrow> shared_capability list \<Rightarrow>
     shared_capability_error + shared_capability list" where
  "assign_offsets versions [] offset shared = Inr shared"
| "assign_offsets versions (name # names) offset shared =
     and_then (shared_capability_new name (ucast (the (versions name))) offset) (\<lambda>c.
       case c of
         UnknownCapability _ _ _ \<Rightarrow> assign_offsets versions names offset shared
       | Shared_Eth _ _ \<Rightarrow>
           and_then (num_messages c) (\<lambda>n. assign_offsets versions names (offset + n) (shared @ [c])))"

definition set_capability_offsets ::
    "capability list \<Rightarrow> capability list \<Rightarrow> 's p2p_stream_error + shared_capability" where
  "set_capability_offsets local peer =
     (let (versions, names) = find_shared (set local) peer (Map.empty, []) in
      if names = [] then Inl (P2P_HandshakeError NoSharedCapabilities)
      else
        (case assign_offsets versions (map fst names) (MAX_RESERVED_MESSAGE_ID + 1) [] of
           Inl e \<Rightarrow> Inl (P2P_ParseVersionError e)
         | Inr [] \<Rightarrow> Inl (P2P_HandshakeError NoSharedCapabilities)
         | Inr (c # _) \<Rightarrow> Inr c))"

section \<open>The handshake\<close>

text \<open>
  What the transport yields: a frame, an error, or the end of the stream. \<^term>\<open>None\<close> for the answer is a
  timeout. The result comes with the disconnect message that is sent, if any; sending is assumed to
  succeed.
\<close>

datatype inner_item = Inner_Bytes bytes | Inner_Err io_error_kind | Inner_End

definition validate_hello ::
    "hello_message \<Rightarrow> hello_message \<Rightarrow>
     ('s p2p_stream_error + shared_capability \<times> hello_message) \<times> disconnect_reason option" where
  "validate_hello hello their_hello =
     (if protocol_version_u8 (he_protocol_version hello) \<noteq> protocol_version_u8 (he_protocol_version their_hello)
      then (Inl (P2P_MismatchedProtocolVersion (protocol_version_u8 (he_protocol_version hello))
                   (protocol_version_u8 (he_protocol_version their_hello))), Some IncompatibleP2PProtocolVersion)
      else
        (case set_capability_offsets (he_capabilities hello) (he_capabilities their_hello) of
           Inl err \<Rightarrow> (Inl err, Some UselessPeer)
         | Inr cap \<Rightarrow> (Inr (cap, their_hello), None)))"

definition p2p_handshake ::
    "hello_message \<Rightarrow> inner_item option \<Rightarrow>
     ('s p2p_stream_error + shared_capability \<times> hello_message) \<times> disconnect_reason option" where
  "p2p_handshake hello answer =
     (case answer of
        None \<Rightarrow> (Inl (P2P_HandshakeError Handshake_Timeout), None)
      | Some Inner_End \<Rightarrow> (Inl (P2P_HandshakeError P2P_NoResponse), None)
      | Some (Inner_Err e) \<Rightarrow> (Inl (P2P_Io e), None)
      | Some (Inner_Bytes first) \<Rightarrow>
          if length first > MAX_PAYLOAD_SIZE
          then (Inl (P2P_MessageTooBig (length first) MAX_PAYLOAD_SIZE), None)
          else
            (case p2p_message_decode first of
               Inr (Msg_Hello their_hello, _) \<Rightarrow> validate_hello hello their_hello
             | Inr (Msg_Disconnect reason, _) \<Rightarrow> (Inl (P2P_HandshakeError (Handshake_Disconnected reason)), None)
             | Inl err \<Rightarrow> (Inl (P2P_HandshakeError (Handshake_DecodeError err)), None)
             | Inr (_, _) \<Rightarrow> (Inl (P2P_HandshakeError NonHelloMessageInHandshake), None)))"

section \<open>The stream\<close>

text \<open>
  The functions of the snappy library: the length that a block announces, decompression into a buffer
  of that length, and compression.
\<close>

record 's snappy =
  sn_decompress_len :: "bytes \<Rightarrow> 's + nat"
  sn_decompress :: "bytes \<Rightarrow> 's + bytes"
  sn_compress :: "bytes \<Rightarrow> 's + bytes"

record p2p_stream =
  st_pinger :: ping_state
  st_shared_capability :: shared_capability
  st_outgoing_messages :: "bytes list"
  st_disconnecting :: bool

definition p2p_stream_new :: "shared_capability \<Rightarrow> p2p_stream" where
  "p2p_stream_new c =
     \<lparr>st_pinger = Ping_Ready, st_shared_capability = c, st_outgoing_messages = [], st_disconnecting = False\<rparr>"

definition send_pong :: "p2p_stream \<Rightarrow> p2p_stream" where
  "send_pong s = s\<lparr>st_outgoing_messages := st_outgoing_messages s @ [p2p_message_encode Msg_Pong]\<rparr>"

definition send_ping :: "p2p_stream \<Rightarrow> p2p_stream" where
  "send_ping s = s\<lparr>st_outgoing_messages := st_outgoing_messages s @ [p2p_message_encode Msg_Ping]\<rparr>"

text \<open>
  The byte operations below panic on an empty message: the slice that starts at the second byte is out
  of range. \<^term>\<open>None\<close> is the panic.
\<close>

definition slice_from_1 :: "bytes \<Rightarrow> bytes option" where
  "slice_from_1 b = (case b of [] \<Rightarrow> None | _ # r \<Rightarrow> Some r)"

definition start_disconnect :: "'s snappy \<Rightarrow> disconnect_reason \<Rightarrow> p2p_stream \<Rightarrow> ('s + unit) \<times> p2p_stream" where
  "start_disconnect snappy reason s =
     (let s = s\<lparr>st_outgoing_messages := []\<rparr>;
          buf = p2p_message_encode (Msg_Disconnect reason)
      in case sn_compress snappy (tl buf) of
           Inl err \<Rightarrow> (Inl err, s)
         | Inr compressed \<Rightarrow>
             (Inr (), s\<lparr>st_outgoing_messages := st_outgoing_messages s @ [hd buf # compressed],
                        st_disconnecting := True\<rparr>))"

text \<open>What a frame leads to: the stream is polled again, or the poll returns an item.\<close>

datatype 's poll_item = Poll_Message bytes | Poll_Error "'s p2p_stream_error"

definition on_frame ::
    "'s snappy \<Rightarrow> bytes \<Rightarrow> p2p_stream \<Rightarrow> ('s poll_item option \<times> p2p_stream) option" where
  "on_frame snappy bytes s =
     (case slice_from_1 bytes of
        None \<Rightarrow> None
      | Some payload \<Rightarrow>
          (case sn_decompress_len snappy payload of
             Inl err \<Rightarrow> Some (Some (Poll_Error (P2P_Snap err)), s)
           | Inr decompressed_len \<Rightarrow>
               if decompressed_len > MAX_PAYLOAD_SIZE
               then Some (Some (Poll_Error (P2P_MessageTooBig decompressed_len MAX_PAYLOAD_SIZE)), s)
               else
                 (case sn_decompress snappy payload of
                    Inl err \<Rightarrow> Some (Some (Poll_Error (P2P_Snap err)), s)
                  | Inr written \<Rightarrow>
                      (let decompressed = take decompressed_len (written @ replicate decompressed_len 0);
                           i = hd bytes
                       in if i = message_id_u8 Id_Ping then
                            (if length (st_outgoing_messages s) > MAX_P2P_CAPACITY
                             then Some (Some (Poll_Error SendBufferFull), s)
                             else Some (None, send_pong s))
                          else if i = message_id_u8 Id_Disconnect then
                            (case reason_decode decompressed of
                               Inl err \<Rightarrow> Some (Some (Poll_Error (P2P_Rlp err)), s)
                             | Inr (reason, _) \<Rightarrow> Some (Some (Poll_Error (P2P_Disconnected reason)), s))
                          else if i = message_id_u8 Id_Hello then
                            Some (Some (Poll_Error (P2P_HandshakeError HelloNotInHandshake)), s)
                          else if i = message_id_u8 Id_Pong then
                            (let (r, pinger) = on_pong (st_pinger s); s = s\<lparr>st_pinger := pinger\<rparr>
                             in case r of
                                  Inl err \<Rightarrow> Some (Some (Poll_Error (P2P_PingerError err)), s)
                                | Inr _ \<Rightarrow> Some (None, s))
                          else if i > MAX_P2P_MESSAGE_ID \<and> i \<le> MAX_RESERVED_MESSAGE_ID then
                            Some (Some (Poll_Error (UnknownReservedMessageId i)), s)
                          else
                            Some (Some (Poll_Message ((i - shared_offset (st_shared_capability s)) # decompressed)), s)))))"

text \<open>
  The loop over the frames that are ready; the remaining ones are returned. The outer option is the
  panic; \<^term>\<open>Inl ()\<close> is pending, \<^term>\<open>Inr None\<close> the end of the stream.
\<close>

fun p2p_poll_next ::
    "'s snappy \<Rightarrow> inner_item list \<Rightarrow> p2p_stream \<Rightarrow> ((unit + 's poll_item option) \<times> inner_item list \<times> p2p_stream) option" where
  "p2p_poll_next snappy [] s =
     (if st_disconnecting s then Some (Inr None, [], s) else Some (Inl (), [], s))"
| "p2p_poll_next snappy (item # items) s =
     (if st_disconnecting s then Some (Inr None, item # items, s)
      else
        (case item of
           Inner_Err err \<Rightarrow> Some (Inr (Some (Poll_Error (P2P_Io err))), items, s)
         | Inner_End \<Rightarrow> Some (Inr None, items, s)
         | Inner_Bytes bytes \<Rightarrow>
             (case on_frame snappy bytes s of
                None \<Rightarrow> None
              | Some (Some r, s) \<Rightarrow> Some (Inr (Some r), items, s)
              | Some (None, s) \<Rightarrow> p2p_poll_next snappy items s)))"

definition p2p_start_send ::
    "'s snappy \<Rightarrow> bytes \<Rightarrow> p2p_stream \<Rightarrow> (('s p2p_stream_error + unit) \<times> p2p_stream) option" where
  "p2p_start_send snappy item s =
     (if length (st_outgoing_messages s) \<ge> MAX_P2P_CAPACITY then Some (Inl SendBufferFull, s)
      else
        (case slice_from_1 item of
           None \<Rightarrow> None
         | Some payload \<Rightarrow>
             (case sn_compress snappy payload of
                Inl err \<Rightarrow> Some (Inl (P2P_Snap err), s)
              | Inr compressed \<Rightarrow>
                  Some (Inr (), s\<lparr>st_outgoing_messages := st_outgoing_messages s @
                    [(hd item + shared_offset (st_shared_capability s)) # compressed]\<rparr>))))"

text \<open>
  The part of \<^verbatim>\<open>poll_ready\<close> before the transport is polled: a ping is queued, or the stream disconnects
  after a timeout. The flag tells whether the poll goes on.
\<close>

definition poll_ready_ping ::
    "'s snappy \<Rightarrow> bool \<Rightarrow> bool \<Rightarrow> p2p_stream \<Rightarrow> ('s + bool) \<times> p2p_stream" where
  "poll_ready_ping snappy tick elapsed s =
     (let (e, pinger) = poll_ping tick elapsed (st_pinger s); s = s\<lparr>st_pinger := pinger\<rparr>
      in case e of
           None \<Rightarrow> (Inr True, s)
         | Some Event_Ping \<Rightarrow> (Inr True, send_ping s)
         | Some Event_Timeout \<Rightarrow>
             (case start_disconnect snappy Reason_PingTimeout s of
                (Inl err, s) \<Rightarrow> (Inl err, s)
              | (Inr _, s) \<Rightarrow> (Inr False, s)))"

section \<open>Codec lemmas\<close>

lemma reason_try_from_code [simp]: "reason_try_from (reason_code r) = Inr r"
  by (cases r) (simp_all add: reason_try_from_def)

lemma reason_try_from_Inr: "reason_try_from v = Inr r \<Longrightarrow> reason_code r = v"
  by (auto simp: reason_try_from_def split: if_splits)

lemma reason_decode_encode: "reason_decode (reason_encode r) = Inr (r, [])"
  by (induct r; code_simp)

lemma length_reason_encode: "length (reason_encode r) = 2 \<and> reason_length r = 2"
  by (induct r; code_simp)

interpretation rlp_u16: rlp_item "encode_uint :: u16 \<Rightarrow> bytes" uint_length decode_uint "\<lambda>_. True"
  by (rule uint_item) simp

interpretation rlp_h512: rlp_item encode_slice slice_length "decode_array 64" "\<lambda>s. length s = 64"
  by unfold_locales (simp_all add: length_encode_slice decode_array_encode decode_array_strict)

lemma decode_string_eq:
  "decode_string buf =
     and_then (decode_bytes buf) (\<lambda>(s, buf). if utf8_valid s then Inr (s, buf) else Inl (Custom ''invalid string''))"
  by (cases "header_decode buf") (auto simp: decode_string_def decode_bytes_def Let_def split_beta)

interpretation rlp_string: rlp_item encode_slice slice_length decode_string "\<lambda>s. length s < 2 ^ 64 \<and> utf8_valid s"
  by unfold_locales
    (auto simp: decode_string_eq length_encode_slice and_then_eq_Inr decode_bytes_encode split: if_splits
      dest: decode_bytes_strict)

interpretation rlp_protocol_version: rlp_item protocol_version_encode protocol_version_length protocol_version_decode "\<lambda>_. True"
proof
  fix v :: protocol_version and rest
  show "protocol_version_length v = length (protocol_version_encode v)"
    by (simp add: protocol_version_length_def protocol_version_encode_def rlp_u8.len_enc)
  show "protocol_version_decode (protocol_version_encode v @ rest) = Inr (v, rest)"
    by (cases v) (simp_all add: protocol_version_decode_def protocol_version_encode_def)
  show "protocol_version_encode v \<noteq> []"
    by (simp add: protocol_version_encode_def)
next
  fix buf v rest
  assume "protocol_version_decode buf = Inr (v, rest)"
  then show "True \<and> buf = protocol_version_encode v @ rest"
    by (auto simp: protocol_version_decode_def protocol_version_encode_def and_then_eq_Inr split: if_splits
        dest!: rlp_u8.dec_strict)
qed

interpretation rlp_capability_fields: rlp_fields "seq_encode encode_slice encode_uint :: bytes \<times> u64 \<Rightarrow> bytes"
    "seq_length slice_length uint_length" "seq_decode decode_string decode_uint"
    "\<lambda>f. (length (fst f) < 2 ^ 64 \<and> utf8_valid (fst f)) \<and> True"
  by (rule rlp_string.seq_fields) (rule rlp_u64.fields)

definition capability_wf :: "capability \<Rightarrow> bool" where
  "capability_wf c \<longleftrightarrow> (length (cap_name c) < 2 ^ 64 \<and> utf8_valid (cap_name c)) \<and>
     seq_length slice_length uint_length (capability_fields c) < 2 ^ 64"

interpretation rlp_capability: rlp_item capability_encode capability_length capability_decode capability_wf
proof -
  note iso = rlp_item.iso_item [OF rlp_capability_fields.derive_item, of capability_of capability_fields]
  show "rlp_item capability_encode capability_length capability_decode capability_wf"
    unfolding capability_encode_def [abs_def] capability_length_def [abs_def] capability_decode_def [abs_def]
      capability_wf_def [abs_def]
    using iso by (simp add: capability_fields_def capability_of_def)
qed

interpretation rlp_capability_list: rlp_item "encode_list capability_length capability_encode"
    "list_length capability_length" "decode_list capability_decode"
    "\<lambda>xs. list_all capability_wf xs \<and> length (concat (map capability_encode xs)) < 2 ^ 64"
  by (rule rlp_capability.list_item)

interpretation rlp_hello_fields: rlp_fields
    "seq_encode protocol_version_encode (seq_encode encode_slice
         (seq_encode (encode_list capability_length capability_encode) (seq_encode encode_uint encode_slice)))
     :: protocol_version \<times> bytes \<times> capability list \<times> u16 \<times> bytes \<Rightarrow> bytes"
    hello_fields_len
    "seq_decode protocol_version_decode (seq_decode decode_string
            (seq_decode (decode_list capability_decode) (seq_decode decode_uint (decode_array 64))))"
    "\<lambda>f. True \<and> (length (fst (snd f)) < 2 ^ 64 \<and> utf8_valid (fst (snd f))) \<and>
       (list_all capability_wf (fst (snd (snd f))) \<and>
        length (concat (map capability_encode (fst (snd (snd f))))) < 2 ^ 64) \<and> True \<and> length (snd (snd (snd (snd f)))) = 64"
  by (intro rlp_protocol_version.seq_fields rlp_string.seq_fields rlp_capability_list.seq_fields rlp_u16.seq_fields
      rlp_h512.fields)

definition hello_wf :: "hello_message \<Rightarrow> bool" where
  "hello_wf h \<longleftrightarrow>
     (length (he_client_version h) < 2 ^ 64 \<and> utf8_valid (he_client_version h)) \<and>
     (list_all capability_wf (he_capabilities h) \<and>
      length (concat (map capability_encode (he_capabilities h))) < 2 ^ 64) \<and>
     length (he_id h) = 64 \<and> hello_fields_len (hello_fields h) < 2 ^ 64"

interpretation rlp_hello: rlp_item hello_encode hello_length hello_decode hello_wf
proof -
  note iso = rlp_item.iso_item [OF rlp_hello_fields.derive_item, of hello_of hello_fields]
  show "rlp_item hello_encode hello_length hello_decode hello_wf"
    unfolding hello_encode_def [abs_def] hello_length_def [abs_def] hello_decode_def [abs_def] hello_wf_def [abs_def]
    using iso by (simp add: hello_fields_def hello_of_def split_beta conj_ac)
qed

section \<open>Shared capabilities\<close>

text \<open>The versions of a name in a set of capabilities.\<close>

definition versions_of :: "capability set \<Rightarrow> bytes \<Rightarrow> u64 set" where
  "versions_of S n = cap_version ` {c \<in> S. cap_name c = n}"

definition shared_ok :: "capability set \<Rightarrow> (bytes \<rightharpoonup> u64) \<times> (bytes, unit) btree \<Rightarrow> bool" where
  "shared_ok S s \<longleftrightarrow> btree_wf (snd s) \<and> fst ` set (snd s) = cap_name ` S \<and>
     (\<forall>n. fst s n = (if versions_of S n = {} then None else Some (Max (versions_of S n))))"

lemma versions_of_insert:
  "versions_of (insert c S) n = (if cap_name c = n then insert (cap_version c) (versions_of S n) else versions_of S n)"
  by (auto simp: versions_of_def)

lemma finite_versions_of [simp]: "finite (versions_of S n)"
  by (rule finite)

lemma set_btree_set_insert_keys: "fst ` set (btree_set_insert k v m) = insert k (fst ` set m)"
  by (auto simp: btree_set_insert_def set_btree_insert_fresh btree_get_def split: option.splits dest: map_of_SomeD
      intro: rev_image_eqI)

lemma find_shared_ok:
  "shared_ok S s \<Longrightarrow> shared_ok (S \<union> (our \<inter> set peer)) (find_shared our peer s)"
proof (induction our peer s arbitrary: S rule: find_shared.induct)
  case (2 our c peer versions names)
  let ?v = "versions (cap_name c)"
  show ?case
  proof (cases "c \<in> our")
    case True
    have S: "S \<union> our \<inter> set (c # peer) = insert c S \<union> our \<inter> set peer"
      using True by auto
    have v: "?v = (if versions_of S (cap_name c) = {} then None else Some (Max (versions_of S (cap_name c))))"
      and wf: "btree_wf names" and keys: "fst ` set names = cap_name ` S"
      using "2.prems" by (auto simp: shared_ok_def)
    show ?thesis
    proof (cases "?v = None \<or> (?v \<noteq> None \<and> the ?v < cap_version c)")
      case upd: True
      have "Max (insert (cap_version c) (versions_of S (cap_name c))) = cap_version c"
        using upd v by (cases "versions_of S (cap_name c) = {}") (auto simp: less_imp_le intro!: Max_eqI)
      then have "shared_ok (insert c S) (versions(cap_name c \<mapsto> cap_version c), btree_set_insert (cap_name c) () names)"
        using "2.prems" by (auto simp: shared_ok_def versions_of_insert btree_wf_set_insert set_btree_set_insert_keys)
      from "2.IH"(1) [OF True refl upd this] show ?thesis
        using True upd unfolding S by (simp add: Let_def)
    next
      case False
      with v have ne: "versions_of S (cap_name c) \<noteq> {}" and le: "cap_version c \<le> Max (versions_of S (cap_name c))"
        by (simp_all add: not_less del: Max_less_iff split: if_splits)
      have "Max (insert (cap_version c) (versions_of S (cap_name c))) = Max (versions_of S (cap_name c))"
        using ne le by (simp add: max_absorb2)
      moreover have "cap_name c \<in> cap_name ` S"
        using ne by (auto simp: versions_of_def intro: rev_image_eqI)
      ultimately have "shared_ok (insert c S) (versions, names)"
        using "2.prems" ne by (auto simp: shared_ok_def versions_of_insert insert_absorb)
      from "2.IH"(2) [OF True refl False this] show ?thesis
        using True False unfolding S by (auto simp: Let_def)
    qed
  next
    case False
    then have S: "S \<union> our \<inter> set (c # peer) = S \<union> our \<inter> set peer"
      by auto
    show ?thesis
      using "2.IH"(3) [OF False "2.prems"] False unfolding S by simp
  qed
qed simp

lemma assign_offsets_no_eth: "eth \<notin> set names \<Longrightarrow> assign_offsets versions names offset shared = Inr shared"
  by (induction names) (auto simp: shared_capability_new_def)

lemma assign_offsets_eth:
  "eth \<in> set names \<Longrightarrow> distinct names \<Longrightarrow>
   assign_offsets versions names offset shared =
     (case eth_version_try_from (ucast (the (versions eth))) of
        Inl e \<Rightarrow> Inl (UnsupportedVersion e)
      | Inr v \<Rightarrow> Inr (shared @ [Shared_Eth v offset]))"
  by (induction names) (auto simp: shared_capability_new_def assign_offsets_no_eth split: sum.splits)

lemma set_capability_offsets_eq:
  "set_capability_offsets local peer =
     (let vs = versions_of (set local \<inter> set peer) eth in
      if vs = {} then Inl (P2P_HandshakeError NoSharedCapabilities)
      else (case eth_version_try_from (ucast (Max vs)) of
              Inl e \<Rightarrow> Inl (P2P_ParseVersionError (UnsupportedVersion e))
            | Inr v \<Rightarrow> Inr (Shared_Eth v 0x10)))"
proof -
  obtain versions names where s: "find_shared (set local) peer (Map.empty, []) = (versions, names)"
    by fastforce
  have "shared_ok {} (Map.empty, [])"
    by (simp add: shared_ok_def versions_of_def btree_wf_def)
  from find_shared_ok [OF this, of "set local" peer] have ok: "shared_ok (set local \<inter> set peer) (versions, names)"
    unfolding s by simp
  have names: "eth \<in> set (map fst names) \<longleftrightarrow> versions_of (set local \<inter> set peer) eth \<noteq> {}"
    using ok by (auto simp: shared_ok_def versions_of_def intro: rev_image_eqI)
  have dist: "distinct (map fst names)"
    using ok by (simp add: shared_ok_def btree_wf_distinct)
  have v: "versions eth = (if versions_of (set local \<inter> set peer) eth = {} then None
      else Some (Max (versions_of (set local \<inter> set peer) eth)))"
    using ok by (simp add: shared_ok_def)
  show ?thesis
  proof (cases "eth \<in> set (map fst names)")
    case True
    then have "names \<noteq> []"
      by auto
    with True show ?thesis
      using names assign_offsets_eth [OF True dist, of versions]
      by (simp add: set_capability_offsets_def s v MAX_RESERVED_MESSAGE_ID_def Let_def split: sum.splits)
  next
    case False
    then show ?thesis
      using names assign_offsets_no_eth [OF False, of versions]
      by (simp add: set_capability_offsets_def s Let_def)
  qed
qed

lemma set_capability_offsets_offset: "set_capability_offsets local peer = Inr c \<Longrightarrow> shared_offset c = 0x10"
  by (auto simp: set_capability_offsets_eq Let_def split: if_splits sum.splits)

section \<open>Frames\<close>

lemma encode_uint_message_id [simp]:
  "encode_uint (0 :: u8) = [0x80]" "encode_uint (1 :: u8) = [1]" "encode_uint (2 :: u8) = [2]" "encode_uint (3 :: u8) = [3]"
  by code_simp+

lemma decode_message_id:
  "and_then (decode_uint (0x80 # buf)) f = f (0 :: u8, buf)" "and_then (decode_uint (1 # buf)) f = f (1 :: u8, buf)"
  "and_then (decode_uint (2 # buf)) f = f (2 :: u8, buf)" "and_then (decode_uint (3 # buf)) f = f (3 :: u8, buf)"
  using rlp_u8.bind_enc [of 0 buf f] rlp_u8.bind_enc [of 1 buf f] rlp_u8.bind_enc [of 2 buf f] rlp_u8.bind_enc [of 3 buf f]
  by simp_all

section \<open>Properties\<close>

text \<open>C10. Both ends of a connection determine the same capability. It is the highest version of \<^verbatim>\<open>eth\<close>
  that both announce, at the first identifier that is not reserved; without a shared version of \<^verbatim>\<open>eth\<close>
  there is no shared capability, whatever other names are shared.\<close>

theorem capability_agreement:
  "set_capability_offsets peer local = set_capability_offsets local peer \<and>
   set_capability_offsets local peer =
     (let vs = {v. \<lparr>cap_name = eth, cap_version = v\<rparr> \<in> set local \<inter> set peer} in
      if vs = {} then Inl (P2P_HandshakeError NoSharedCapabilities)
      else (case eth_version_try_from (ucast (Max vs)) of
              Inl e \<Rightarrow> Inl (P2P_ParseVersionError (UnsupportedVersion e))
            | Inr v \<Rightarrow> Inr (Shared_Eth v 0x10)))"
proof -
  have eq: "{v. \<lparr>cap_name = eth, cap_version = v\<rparr> \<in> S} = versions_of S eth" for S
  proof (intro set_eqI iffI)
    show "v \<in> versions_of S eth" if "v \<in> {v. \<lparr>cap_name = eth, cap_version = v\<rparr> \<in> S}" for v
      unfolding versions_of_def using that by (intro image_eqI [of _ _ "\<lparr>cap_name = eth, cap_version = v\<rparr>"]) simp_all
    fix v
    assume "v \<in> versions_of S eth"
    then obtain c where "c \<in> S" "cap_name c = eth" "cap_version c = v"
      by (auto simp: versions_of_def)
    then show "v \<in> {v. \<lparr>cap_name = eth, cap_version = v\<rparr> \<in> S}"
      by (cases c) simp
  qed
  show ?thesis
    unfolding eq set_capability_offsets_eq by (simp only: Int_commute [of "set peer"] simp_thms)
qed

text \<open>C25. Every message of the \<^verbatim>\<open>p2p\<close> protocol is decoded as it was encoded, and its announced length is
  exact. A disconnect message must be the end of the buffer.\<close>

theorem p2p_message_roundtrip:
  assumes "case m of Msg_Hello h \<Rightarrow> hello_wf h | Msg_Disconnect r \<Rightarrow> rest = [] | _ \<Rightarrow> True"
  shows "p2p_message_decode (p2p_message_encode m @ rest) = Inr (m, rest) \<and>
    p2p_message_length m = length (p2p_message_encode m)"
  using assms
  by (cases m)
    (simp_all add: p2p_message_encode_def p2p_message_decode_def p2p_message_length_def message_id_try_from_def decode_message_id
      reason_decode_encode length_reason_encode rlp_hello.len_enc advance_snappy_ping_pong_payload_def snappy_empty_list_def)

definition example_hello :: hello_message where
  "example_hello = (hello_build eth (hello_builder_new (replicate 64 1)))\<lparr>he_capabilities := [capability_of_version Eth68]\<rparr>"

lemma example_hello_wf: "hello_wf example_hello"
proof -
  have "length (concat (map capability_encode (he_capabilities example_hello))) = 6"
    "protocol_version_length (he_protocol_version example_hello) = 1" "slice_length (he_id example_hello) = 66"
    "slice_length eth = 4" "list_length capability_length (he_capabilities example_hello) = 7"
    "seq_length slice_length uint_length (capability_fields (capability_of_version Eth68)) = 5"
    "he_capabilities example_hello = [capability_of_version Eth68]" "he_client_version example_hello = eth"
    "cap_name (capability_of_version Eth68) = eth" "length (he_id example_hello) = 64" "utf8_valid eth" "length eth = 3"
    by code_simp+
  then show ?thesis
    using uint_length_le [of "he_port example_hello"]
    by (simp add: hello_wf_def capability_wf_def hello_fields_def seq_length_def)
qed

theorem p2p_message_roundtrip_witness:
  "hello_wf example_hello \<and>
   p2p_message_decode (p2p_message_encode (Msg_Hello example_hello) @ [7]) = Inr (Msg_Hello example_hello, [7])"
  using p2p_message_roundtrip [where m = "Msg_Hello example_hello" and rest = "[7]"] example_hello_wf by simp

text \<open>The contract of the snappy library: a compressed block announces its length and is decompressed to what
  was compressed.\<close>

definition snappy_ok :: "'s snappy \<Rightarrow> bool" where
  "snappy_ok sn \<longleftrightarrow>
     (\<forall>x c. sn_compress sn x = Inr c \<longrightarrow> sn_decompress_len sn c = Inr (length x) \<and> sn_decompress sn c = Inr x)"

text \<open>C16. Two peers that agreed on a capability exchange its messages unchanged: what one of them queues is a
  frame outside of the reserved identifiers, and the other one returns the message from it. The identifier
  must leave room for the offset.\<close>

theorem subprotocol_message_delivery:
  assumes sn: "snappy_ok sn"
    and local: "set_capability_offsets ours theirs = (Inr (st_shared_capability a) :: 's p2p_stream_error + _)"
    and peer: "set_capability_offsets theirs ours = (Inr (st_shared_capability b) :: 's p2p_stream_error + _)"
    and send: "p2p_start_send sn (i # payload) a = Some (Inr (), a')"
    and i: "unat i < 240" and len: "length payload \<le> MAX_PAYLOAD_SIZE" and running: "\<not> st_disconnecting b"
  shows "\<exists>frame. st_outgoing_messages a' = st_outgoing_messages a @ [frame] \<and> hd frame > MAX_RESERVED_MESSAGE_ID \<and>
    p2p_poll_next sn (Inner_Bytes frame # items) b = Some (Inr (Some (Poll_Message (i # payload))), items, b)"
proof -
  have offset: "shared_offset (st_shared_capability a) = 0x10" "shared_offset (st_shared_capability b) = 0x10"
    by (rule set_capability_offsets_offset [OF local], rule set_capability_offsets_offset [OF peer])
  from send obtain c where c: "sn_compress sn payload = Inr c"
    "a' = a\<lparr>st_outgoing_messages := st_outgoing_messages a @ [(i + 0x10) # c]\<rparr>"
    by (auto simp: p2p_start_send_def slice_from_1_def offset split: if_splits sum.splits)
  with sn have d: "sn_decompress_len sn c = Inr (length payload)" "sn_decompress sn c = Inr payload"
    by (auto simp: snappy_ok_def)
  have "unat (i + 0x10) = unat i + 16"
    using i by (subst unat_add_lem [THEN iffD1]) simp_all
  then have gt: "MAX_RESERVED_MESSAGE_ID < i + 0x10"
    by (simp add: MAX_RESERVED_MESSAGE_ID_def word_less_nat_alt)
  have "j \<noteq> 0 \<and> j \<noteq> 1 \<and> j \<noteq> 2 \<and> j \<noteq> 3 \<and> \<not> j \<le> MAX_RESERVED_MESSAGE_ID" if "MAX_RESERVED_MESSAGE_ID < j" for j
    using that by (auto simp: MAX_RESERVED_MESSAGE_ID_def)
  note ids = this [OF gt]
  have "on_frame sn ((i + 0x10) # c) b = Some (Some (Poll_Message (i # payload)), b)"
    using ids len by (simp add: on_frame_def slice_from_1_def d offset)
  then show ?thesis
    using c(2) gt running by (intro exI [of _ "(i + 0x10) # c"]) simp
qed

text \<open>A snappy library that stores blocks without compression.\<close>

definition stored :: "unit snappy" where
  "stored = \<lparr>sn_decompress_len = (\<lambda>b. Inr (length b)), sn_decompress = Inr, sn_compress = Inr\<rparr>"

theorem subprotocol_message_delivery_witness:
  "\<exists>frame a'. p2p_start_send stored [3, 0xc0] (p2p_stream_new (Shared_Eth Eth67 16)) = Some (Inr (), a') \<and>
     p2p_poll_next stored [Inner_Bytes frame] (p2p_stream_new (Shared_Eth Eth67 16)) =
       Some (Inr (Some (Poll_Message [3, 0xc0])), [], p2p_stream_new (Shared_Eth Eth67 16))"
proof -
  let ?s = "p2p_stream_new (Shared_Eth Eth67 16)" and ?c = "[capability_of_version Eth67]"
  have "snappy_ok stored"
    by (simp add: snappy_ok_def stored_def)
  moreover have "set_capability_offsets ?c ?c = (Inr (st_shared_capability ?s) :: unit p2p_stream_error + _)"
    by code_simp
  moreover obtain a' where "p2p_start_send stored [3, 0xc0] ?s = Some (Inr (), a')"
    by (simp add: p2p_start_send_def slice_from_1_def stored_def p2p_stream_new_def MAX_P2P_CAPACITY_def)
  ultimately show ?thesis
    using subprotocol_message_delivery [of stored ?c ?c ?s ?s 3 "[0xc0]" a' "[]"]
    by (auto simp: p2p_stream_new_def MAX_PAYLOAD_SIZE_def)
qed



end
