(* ===== verification/Peers.thy ===== *)
theory Peers
  imports P2P ForkId
begin

text \<open>
  The peers of the node: the errors of a session and what they imply, \<^verbatim>\<open>BanList\<close> of
  \<^verbatim>\<open>crates/net/common\<close>, the reputation weights and \<^verbatim>\<open>PeersManager\<close> of \<^verbatim>\<open>crates/net/network/src/peers\<close>.
  Instants and durations are natural numbers and \<open>now\<close> is the reading of the clock. The order in which a
  hash map is iterated is not specified: \<open>iter\<close> lists the keys of a map in some order. The counters of
  connections are machine words that wrap around, as in a release build.
\<close>

section \<open>Errors of a session\<close>

text \<open>A chain is its identifier, and the identifier of a message its number.\<close>

datatype eth_handshake_error =
    StatusNotInHandshake
  | NonStatusMessageInHandshake
  | Eth_NoResponse
  | InvalidFork validation_error
  | MismatchedGenesis bytes bytes
  | Eth_MismatchedProtocolVersion u8 u8
  | MismatchedChain u64 u64
  | TotalDifficultyBitLenTooLarge nat nat

datatype 's eth_stream_error =
    Eth_P2PStreamError "'s p2p_stream_error"
  | Eth_ParseVersionError parse_version_error
  | Eth_HandshakeError eth_handshake_error
  | EthInvalidMessageError eth_version u8
  | Eth_MessageTooBig nat
  | TransactionHashesInvalidLenOfFields nat nat nat

definition eth_as_disconnected :: "'s eth_stream_error \<Rightarrow> disconnect_reason option" where
  "eth_as_disconnected e = (case e of Eth_P2PStreamError err \<Rightarrow> p2p_as_disconnected err | _ \<Rightarrow> None)"

definition as_io :: "'s eth_stream_error \<Rightarrow> io_error_kind option" where
  "as_io e = (case e of Eth_P2PStreamError (P2P_Io io) \<Rightarrow> Some io | _ \<Rightarrow> None)"

datatype backoff_kind = Backoff_Low | Backoff_Medium | Backoff_High

definition io_should_backoff :: "io_error_kind \<Rightarrow> backoff_kind option" where
  "io_should_backoff e =
     (if e \<in> {ConnectionRefused, ConnectionReset, BrokenPipe} then Some Backoff_Low else Some Backoff_Medium)"

definition eth_merits_discovery_ban :: "'s eth_stream_error \<Rightarrow> bool" where
  "eth_merits_discovery_ban e =
     (case e of
        Eth_P2PStreamError (P2P_HandshakeError HelloNotInHandshake) \<Rightarrow> True
      | Eth_P2PStreamError (P2P_HandshakeError NonHelloMessageInHandshake) \<Rightarrow> True
      | Eth_HandshakeError err \<Rightarrow> err \<noteq> Eth_NoResponse
      | _ \<Rightarrow> False)"

definition fatal_reason :: "disconnect_reason \<Rightarrow> bool" where
  "fatal_reason r \<longleftrightarrow> r \<in> {UselessPeer, IncompatibleP2PProtocolVersion, ProtocolBreach}"

definition eth_is_fatal_protocol_error :: "'s eth_stream_error \<Rightarrow> bool" where
  "eth_is_fatal_protocol_error e =
     (case e of
        Eth_P2PStreamError err \<Rightarrow>
          (case err of
             P2P_HandshakeError NoSharedCapabilities \<Rightarrow> True
           | P2P_HandshakeError HelloNotInHandshake \<Rightarrow> True
           | P2P_HandshakeError NonHelloMessageInHandshake \<Rightarrow> True
           | P2P_HandshakeError (Handshake_Disconnected r) \<Rightarrow> fatal_reason r
           | UnknownReservedMessageId _ \<Rightarrow> True
           | EmptyProtocolMessage \<Rightarrow> True
           | P2P_ParseVersionError _ \<Rightarrow> True
           | P2P_Disconnected r \<Rightarrow> fatal_reason r
           | P2P_MismatchedProtocolVersion _ _ \<Rightarrow> True
           | _ \<Rightarrow> False)
      | Eth_HandshakeError err \<Rightarrow> err \<noteq> Eth_NoResponse
      | _ \<Rightarrow> False)"

definition eth_should_backoff :: "'s eth_stream_error \<Rightarrow> backoff_kind option" where
  "eth_should_backoff e =
     (case as_io e of
        Some err \<Rightarrow> io_should_backoff err
      | None \<Rightarrow>
          (case eth_as_disconnected e of
             Some reason \<Rightarrow>
               if reason \<in> {TooManyPeers, AlreadyConnected, TcpSubsystemError} then Some Backoff_Low
               else Some Backoff_High
           | None \<Rightarrow>
               (case e of
                  Eth_HandshakeError Eth_NoResponse \<Rightarrow> Some Backoff_Low
                | Eth_P2PStreamError (P2P_HandshakeError P2P_NoResponse) \<Rightarrow> Some Backoff_Low
                | Eth_P2PStreamError P2P_PingTimeout \<Rightarrow> Some Backoff_Low
                | Eth_P2PStreamError (P2P_Rlp _) \<Rightarrow> Some Backoff_Medium
                | Eth_P2PStreamError (UnknownReservedMessageId _) \<Rightarrow> Some Backoff_Medium
                | Eth_P2PStreamError (P2P_UnknownDisconnectReason _) \<Rightarrow> Some Backoff_Medium
                | Eth_P2PStreamError (P2P_MessageTooBig _ _) \<Rightarrow> Some Backoff_Medium
                | Eth_P2PStreamError EmptyProtocolMessage \<Rightarrow> Some Backoff_Medium
                | Eth_P2PStreamError (P2P_PingerError _) \<Rightarrow> Some Backoff_Medium
                | Eth_P2PStreamError (P2P_Snap _) \<Rightarrow> Some Backoff_Medium
                | _ \<Rightarrow> None)))"

text \<open>
  The three kinds of errors that end a session: of the handshake, of an active session and of the
  connection. \<open>'x\<close> is the error type of the encryption layer.
\<close>

datatype ('s, 'x) session_error =
    Handshake_Eth "'s eth_stream_error"
  | Handshake_Ecies 'x
  | Session_Eth "'s eth_stream_error"
  | Session_Io io_error_kind

fun merits_discovery_ban :: "('s, 'x) session_error \<Rightarrow> bool" where
  "merits_discovery_ban (Handshake_Eth e) = eth_merits_discovery_ban e"
| "merits_discovery_ban (Handshake_Ecies _) = True"
| "merits_discovery_ban (Session_Eth e) = eth_merits_discovery_ban e"
| "merits_discovery_ban (Session_Io _) = False"

fun is_fatal_protocol_error :: "('s, 'x) session_error \<Rightarrow> bool" where
  "is_fatal_protocol_error (Handshake_Eth e) = eth_is_fatal_protocol_error e"
| "is_fatal_protocol_error (Handshake_Ecies _) = True"
| "is_fatal_protocol_error (Session_Eth e) = eth_is_fatal_protocol_error e"
| "is_fatal_protocol_error (Session_Io _) = False"

fun should_backoff :: "('s, 'x) session_error \<Rightarrow> backoff_kind option" where
  "should_backoff (Handshake_Eth e) = eth_should_backoff e"
| "should_backoff (Handshake_Ecies _) = Some Backoff_Low"
| "should_backoff (Session_Eth e) = eth_should_backoff e"
| "should_backoff (Session_Io e) = io_should_backoff e"

section \<open>The ban list\<close>

type_synonym peer_id = "512 word"

text \<open>The classification of addresses by the standard library, on the octets.\<close>

definition is_global :: "ip_addr \<Rightarrow> bool" where
  "is_global ip =
     (case ip of
        V4 o4 \<Rightarrow>
          \<not> (o4 = [0, 0, 0, 0] \<or> hd o4 = 127) \<and>
          \<not> (hd o4 = 10 \<or> (hd o4 = 172 \<and> 16 \<le> o4 ! 1 \<and> o4 ! 1 \<le> 31) \<or> (hd o4 = 192 \<and> o4 ! 1 = 168)) \<and>
          \<not> (hd o4 = 169 \<and> o4 ! 1 = 254)
      | V6 o6 \<Rightarrow> \<not> (o6 = replicate 16 0 \<or> o6 = replicate 15 0 @ [1]))"

record ban_list =
  bl_banned_ips :: "ip_addr \<rightharpoonup> nat option"
  bl_banned_peers :: "peer_id \<rightharpoonup> nat option"

definition ban_list_default :: ban_list where
  "ban_list_default = \<lparr>bl_banned_ips = Map.empty, bl_banned_peers = Map.empty\<rparr>"

definition ban_list_new :: "peer_id list \<Rightarrow> ip_addr list \<Rightarrow> ban_list" where
  "ban_list_new banned_peers banned_ips =
     \<lparr>bl_banned_ips = map_of (map (\<lambda>ip. (ip, None)) banned_ips),
      bl_banned_peers = map_of (map (\<lambda>p. (p, None)) banned_peers)\<rparr>"

definition ban_expired :: "nat \<Rightarrow> nat option \<Rightarrow> bool" where
  "ban_expired now until = (case until of Some t \<Rightarrow> now > t | None \<Rightarrow> False)"

definition evict_map :: "(('k \<rightharpoonup> nat option) \<Rightarrow> 'k list) \<Rightarrow> nat \<Rightarrow> ('k \<rightharpoonup> nat option) \<Rightarrow> 'k list \<times> ('k \<rightharpoonup> nat option)" where
  "evict_map iter now m =
     (filter (\<lambda>k. case m k of Some until \<Rightarrow> ban_expired now until | None \<Rightarrow> False) (iter m),
      (\<lambda>k. case m k of Some until \<Rightarrow> if ban_expired now until then None else Some until | None \<Rightarrow> None))"

definition evict_peers ::
    "((peer_id \<rightharpoonup> nat option) \<Rightarrow> peer_id list) \<Rightarrow> nat \<Rightarrow> ban_list \<Rightarrow> peer_id list \<times> ban_list" where
  "evict_peers iter now b =
     (let (evicted, m) = evict_map iter now (bl_banned_peers b) in (evicted, b\<lparr>bl_banned_peers := m\<rparr>))"

definition evict_ips ::
    "((ip_addr \<rightharpoonup> nat option) \<Rightarrow> ip_addr list) \<Rightarrow> nat \<Rightarrow> ban_list \<Rightarrow> ip_addr list \<times> ban_list" where
  "evict_ips iter now b =
     (let (evicted, m) = evict_map iter now (bl_banned_ips b) in (evicted, b\<lparr>bl_banned_ips := m\<rparr>))"

definition evict ::
    "((ip_addr \<rightharpoonup> nat option) \<Rightarrow> ip_addr list) \<Rightarrow> ((peer_id \<rightharpoonup> nat option) \<Rightarrow> peer_id list) \<Rightarrow> nat \<Rightarrow> ban_list \<Rightarrow>
     (ip_addr list \<times> peer_id list) \<times> ban_list" where
  "evict iter_ips iter_peers now b =
     (let (ips, b) = evict_ips iter_ips now b;
          (peers, b) = evict_peers iter_peers now b
      in ((ips, peers), b))"

definition is_banned_ip :: "ban_list \<Rightarrow> ip_addr \<Rightarrow> bool" where
  "is_banned_ip b ip \<longleftrightarrow> bl_banned_ips b ip \<noteq> None"

definition is_banned_peer :: "ban_list \<Rightarrow> peer_id \<Rightarrow> bool" where
  "is_banned_peer b i \<longleftrightarrow> bl_banned_peers b i \<noteq> None"

definition list_is_banned :: "ban_list \<Rightarrow> peer_id \<Rightarrow> ip_addr \<Rightarrow> bool" where
  "list_is_banned b i ip \<longleftrightarrow> is_banned_peer b i \<or> is_banned_ip b ip"

definition unban_ip :: "ip_addr \<Rightarrow> ban_list \<Rightarrow> ban_list" where
  "unban_ip ip b = b\<lparr>bl_banned_ips := (bl_banned_ips b)(ip := None)\<rparr>"

definition list_unban_peer :: "peer_id \<Rightarrow> ban_list \<Rightarrow> ban_list" where
  "list_unban_peer i b = b\<lparr>bl_banned_peers := (bl_banned_peers b)(i := None)\<rparr>"

definition ban_peer_with :: "peer_id \<Rightarrow> nat option \<Rightarrow> ban_list \<Rightarrow> ban_list" where
  "ban_peer_with i until b = b\<lparr>bl_banned_peers := (bl_banned_peers b)(i \<mapsto> until)\<rparr>"

definition ban_ip_with :: "ip_addr \<Rightarrow> nat option \<Rightarrow> ban_list \<Rightarrow> ban_list" where
  "ban_ip_with ip until b =
     (if is_global ip then b\<lparr>bl_banned_ips := (bl_banned_ips b)(ip \<mapsto> until)\<rparr> else b)"

definition ban_peer_until :: "peer_id \<Rightarrow> nat \<Rightarrow> ban_list \<Rightarrow> ban_list" where
  "ban_peer_until i until = ban_peer_with i (Some until)"

definition ban_ip_until :: "ip_addr \<Rightarrow> nat \<Rightarrow> ban_list \<Rightarrow> ban_list" where
  "ban_ip_until ip until = ban_ip_with ip (Some until)"

section \<open>Reputation\<close>

definition DEFAULT_REPUTATION :: int where
  "DEFAULT_REPUTATION = 0"

definition REPUTATION_UNIT :: int where
  "REPUTATION_UNIT = - 1024"

definition BANNED_REPUTATION :: int where
  "BANNED_REPUTATION = 50 * REPUTATION_UNIT"

definition BACKOFF_REPUTATION_CHANGE :: int where
  "BACKOFF_REPUTATION_CHANGE = - (2 ^ 31)"

definition is_banned_reputation :: "int \<Rightarrow> bool" where
  "is_banned_reputation reputation \<longleftrightarrow> reputation < BANNED_REPUTATION"

datatype reputation_change_kind =
    BadMessage
  | BadBlock
  | BadTransactions
  | Kind_Timeout
  | BadProtocol
  | FailedToConnect
  | Dropped
  | Kind_Other int

record reputation_change_weights =
  rw_bad_message :: int
  rw_bad_block :: int
  rw_bad_transactions :: int
  rw_timeout :: int
  rw_bad_protocol :: int
  rw_failed_to_connect :: int
  rw_dropped :: int

definition weights_default :: reputation_change_weights where
  "weights_default =
     \<lparr>rw_bad_message = 16 * REPUTATION_UNIT, rw_bad_block = 16 * REPUTATION_UNIT,
      rw_bad_transactions = 16 * REPUTATION_UNIT, rw_timeout = 4 * REPUTATION_UNIT,
      rw_bad_protocol = - (2 ^ 31), rw_failed_to_connect = 25 * REPUTATION_UNIT,
      rw_dropped = 4 * REPUTATION_UNIT\<rparr>"

fun weights_change :: "reputation_change_weights \<Rightarrow> reputation_change_kind \<Rightarrow> int" where
  "weights_change w BadMessage = rw_bad_message w"
| "weights_change w BadBlock = rw_bad_block w"
| "weights_change w BadTransactions = rw_bad_transactions w"
| "weights_change w Kind_Timeout = rw_timeout w"
| "weights_change w BadProtocol = rw_bad_protocol w"
| "weights_change w FailedToConnect = rw_failed_to_connect w"
| "weights_change w Dropped = rw_dropped w"
| "weights_change w (Kind_Other v) = v"

section \<open>Peers and connections\<close>

type_synonym socket_addr = "ip_addr \<times> u16"

datatype peer_kind = Basic | Trusted

datatype peer_connection_state = Idle | DisconnectingIn | DisconnectingOut | State_In | State_Out

fun state_disconnect :: "peer_connection_state \<Rightarrow> peer_connection_state" where
  "state_disconnect State_In = DisconnectingIn"
| "state_disconnect State_Out = DisconnectingOut"
| "state_disconnect s = s"

definition is_connected :: "peer_connection_state \<Rightarrow> bool" where
  "is_connected s \<longleftrightarrow> s \<in> {State_In, State_Out}"

definition is_unconnected :: "peer_connection_state \<Rightarrow> bool" where
  "is_unconnected s \<longleftrightarrow> s = Idle"

record peer =
  pe_addr :: socket_addr
  pe_reputation :: int
  pe_state :: peer_connection_state
  pe_fork_id :: "fork_id option"
  pe_remove_after_disconnect :: bool
  pe_kind :: peer_kind
  pe_backoff_counter :: u32

definition peer_with_state :: "socket_addr \<Rightarrow> peer_connection_state \<Rightarrow> peer" where
  "peer_with_state addr state =
     \<lparr>pe_addr = addr, pe_reputation = DEFAULT_REPUTATION, pe_state = state, pe_fork_id = None,
      pe_remove_after_disconnect = False, pe_kind = Basic, pe_backoff_counter = 0\<rparr>"

definition peer_new :: "socket_addr \<Rightarrow> peer" where
  "peer_new addr = peer_with_state addr Idle"

definition peer_trusted :: "socket_addr \<Rightarrow> peer" where
  "peer_trusted addr = (peer_new addr)\<lparr>pe_kind := Trusted\<rparr>"

definition peer_with_kind :: "socket_addr \<Rightarrow> peer_kind \<Rightarrow> peer" where
  "peer_with_kind addr kind = (peer_new addr)\<lparr>pe_kind := kind\<rparr>"

definition peer_is_banned :: "peer \<Rightarrow> bool" where
  "peer_is_banned p \<longleftrightarrow> is_banned_reputation (pe_reputation p)"

definition peer_unban :: "peer \<Rightarrow> peer" where
  "peer_unban p = p\<lparr>pe_reputation := DEFAULT_REPUTATION\<rparr>"

definition is_trusted :: "peer \<Rightarrow> bool" where
  "is_trusted p \<longleftrightarrow> pe_kind p = Trusted"

datatype reputation_change_outcome = Outcome_None | Outcome_Ban | Outcome_DisconnectAndBan | Outcome_Unban

definition apply_reputation :: "int \<Rightarrow> peer \<Rightarrow> reputation_change_outcome \<times> peer" where
  "apply_reputation reputation p =
     (let previous = pe_reputation p;
          p = p\<lparr>pe_reputation := saturating_add_i32 previous reputation\<rparr>
      in if is_connected (pe_state p) \<and> peer_is_banned p
         then (Outcome_DisconnectAndBan, p\<lparr>pe_state := state_disconnect (pe_state p)\<rparr>)
         else if peer_is_banned p \<and> \<not> is_banned_reputation previous then (Outcome_Ban, p)
         else if \<not> peer_is_banned p \<and> is_banned_reputation previous then (Outcome_Unban, p)
         else (Outcome_None, p))"

definition DEFAULT_MAX_PEERS_OUTBOUND :: u64 where
  "DEFAULT_MAX_PEERS_OUTBOUND = 100"

definition DEFAULT_MAX_PEERS_INBOUND :: u64 where
  "DEFAULT_MAX_PEERS_INBOUND = 30"

record connection_info =
  ci_num_outbound :: u64
  ci_num_inbound :: u64
  ci_max_outbound :: u64
  ci_max_inbound :: u64

definition connection_info_default :: connection_info where
  "connection_info_default =
     \<lparr>ci_num_outbound = 0, ci_num_inbound = 0, ci_max_outbound = DEFAULT_MAX_PEERS_OUTBOUND,
      ci_max_inbound = DEFAULT_MAX_PEERS_INBOUND\<rparr>"

definition has_out_capacity :: "connection_info \<Rightarrow> bool" where
  "has_out_capacity c \<longleftrightarrow> ci_num_outbound c < ci_max_outbound c"

definition has_in_capacity :: "connection_info \<Rightarrow> bool" where
  "has_in_capacity c \<longleftrightarrow> ci_num_inbound c < ci_max_inbound c"

definition decr_out :: "connection_info \<Rightarrow> connection_info" where
  "decr_out c = c\<lparr>ci_num_outbound := ci_num_outbound c - 1\<rparr>"

definition inc_out :: "connection_info \<Rightarrow> connection_info" where
  "inc_out c = c\<lparr>ci_num_outbound := ci_num_outbound c + 1\<rparr>"

definition inc_in :: "connection_info \<Rightarrow> connection_info" where
  "inc_in c = c\<lparr>ci_num_inbound := ci_num_inbound c + 1\<rparr>"

definition decr_in :: "connection_info \<Rightarrow> connection_info" where
  "decr_in c = c\<lparr>ci_num_inbound := ci_num_inbound c - 1\<rparr>"

definition decr_state :: "peer_connection_state \<Rightarrow> connection_info \<Rightarrow> connection_info" where
  "decr_state s c =
     (case s of
        Idle \<Rightarrow> c
      | DisconnectingIn \<Rightarrow> decr_in c
      | State_In \<Rightarrow> decr_in c
      | DisconnectingOut \<Rightarrow> decr_out c
      | State_Out \<Rightarrow> decr_out c)"

record peer_backoff_durations =
  bd_low :: nat
  bd_medium :: nat
  bd_high :: nat

fun backoff :: "peer_backoff_durations \<Rightarrow> backoff_kind \<Rightarrow> nat" where
  "backoff d Backoff_Low = bd_low d"
| "backoff d Backoff_Medium = bd_medium d"
| "backoff d Backoff_High = bd_high d"

definition backoff_until :: "peer_backoff_durations \<Rightarrow> backoff_kind \<Rightarrow> u32 \<Rightarrow> nat \<Rightarrow> nat" where
  "backoff_until d kind backoff_counter now = now + backoff d kind * unat backoff_counter"

section \<open>The manager\<close>

datatype peer_action =
    Connect peer_id socket_addr
  | Disconnect peer_id "disconnect_reason option"
  | DisconnectBannedIncoming peer_id
  | DiscoveryBanPeerId peer_id ip_addr
  | DiscoveryBanIp ip_addr
  | BanPeer peer_id
  | UnBanPeer peer_id
  | PeerAdded peer_id
  | PeerRemoved peer_id

record peers_manager =
  pm_peers :: "peer_id \<rightharpoonup> peer"
  pm_queued_actions :: "peer_action list"
  pm_reputation_weights :: reputation_change_weights
  pm_connection_info :: connection_info
  pm_ban_list :: ban_list
  pm_ban_duration :: nat
  pm_backoff_durations :: peer_backoff_durations
  pm_connect_trusted_nodes_only :: bool

record node_record =
  nr_address :: ip_addr
  nr_tcp_port :: u16
  nr_udp_port :: u16
  nr_id :: peer_id

record peers_config =
  pc_trusted_nodes :: "node_record list"
  pc_connect_trusted_nodes_only :: bool
  pc_basic_nodes :: "node_record list"
  pc_ban_duration :: nat
  pc_ban_list :: ban_list
  pc_connection_info :: connection_info
  pc_reputation_weights :: reputation_change_weights
  pc_backoff_durations :: peer_backoff_durations

definition or_insert :: "'k \<Rightarrow> 'v \<Rightarrow> ('k \<rightharpoonup> 'v) \<Rightarrow> ('k \<rightharpoonup> 'v)" where
  "or_insert k v m = (case m k of None \<Rightarrow> m(k \<mapsto> v) | Some _ \<Rightarrow> m)"

text \<open>The lists of nodes are the sets of the configuration in the order of their iteration.\<close>

definition pm_new :: "peers_config \<Rightarrow> peers_manager" where
  "pm_new config =
     (let peers = fold (\<lambda>n. or_insert (nr_id n) (peer_trusted (nr_address n, nr_tcp_port n))) (pc_trusted_nodes config) Map.empty;
          peers = fold (\<lambda>n. or_insert (nr_id n) (peer_new (nr_address n, nr_tcp_port n))) (pc_basic_nodes config) peers
      in \<lparr>pm_peers = peers, pm_queued_actions = [], pm_reputation_weights = pc_reputation_weights config,
          pm_connection_info = pc_connection_info config, pm_ban_list = pc_ban_list config,
          pm_ban_duration = pc_ban_duration config, pm_backoff_durations = pc_backoff_durations config,
          pm_connect_trusted_nodes_only = pc_connect_trusted_nodes_only config\<rparr>)"

abbreviation push_action :: "peer_action \<Rightarrow> peers_manager \<Rightarrow> peers_manager" where
  "push_action a s \<equiv> s\<lparr>pm_queued_actions := pm_queued_actions s @ [a]\<rparr>"

datatype inbound_connection_error = ExceedsLimit u64 | IpBanned

definition on_incoming_pending_session ::
    "ip_addr \<Rightarrow> peers_manager \<Rightarrow> (inbound_connection_error + unit) \<times> peers_manager" where
  "on_incoming_pending_session addr s =
     (if is_banned_ip (pm_ban_list s) addr then (Inl IpBanned, s)
      else if \<not> has_in_capacity (pm_connection_info s)
      then (Inl (ExceedsLimit (ci_max_inbound (pm_connection_info s))), s)
      else (Inr (), s\<lparr>pm_connection_info := inc_in (pm_connection_info s)\<rparr>))"

definition on_incoming_pending_session_rejected_internally :: "peers_manager \<Rightarrow> peers_manager" where
  "on_incoming_pending_session_rejected_internally s = s\<lparr>pm_connection_info := decr_in (pm_connection_info s)\<rparr>"

definition on_incoming_pending_session_gracefully_closed :: "peers_manager \<Rightarrow> peers_manager" where
  "on_incoming_pending_session_gracefully_closed s = s\<lparr>pm_connection_info := decr_in (pm_connection_info s)\<rparr>"

definition ban_peer :: "nat \<Rightarrow> peer_id \<Rightarrow> peers_manager \<Rightarrow> peers_manager" where
  "ban_peer now i s =
     push_action (BanPeer i) (s\<lparr>pm_ban_list := ban_peer_until i (now + pm_ban_duration s) (pm_ban_list s)\<rparr>)"

definition ban_ip :: "nat \<Rightarrow> ip_addr \<Rightarrow> peers_manager \<Rightarrow> peers_manager" where
  "ban_ip now ip s = s\<lparr>pm_ban_list := ban_ip_until ip (now + pm_ban_duration s) (pm_ban_list s)\<rparr>"

definition backoff_peer_until :: "peer_id \<Rightarrow> nat \<Rightarrow> peers_manager \<Rightarrow> peers_manager" where
  "backoff_peer_until i until s = s\<lparr>pm_ban_list := ban_peer_until i until (pm_ban_list s)\<rparr>"

definition unban_peer :: "peer_id \<Rightarrow> peers_manager \<Rightarrow> peers_manager" where
  "unban_peer i s = push_action (UnBanPeer i) (s\<lparr>pm_ban_list := list_unban_peer i (pm_ban_list s)\<rparr>)"

definition on_incoming_pending_session_dropped ::
    "nat \<Rightarrow> socket_addr \<Rightarrow> ('s, 'x) session_error \<Rightarrow> peers_manager \<Rightarrow> peers_manager" where
  "on_incoming_pending_session_dropped now remote_addr err s =
     (let s = (if is_fatal_protocol_error err then
                 (let s = ban_ip now (fst remote_addr) s
                  in if merits_discovery_ban err then push_action (DiscoveryBanIp (fst remote_addr)) s else s)
               else s)
      in s\<lparr>pm_connection_info := decr_in (pm_connection_info s)\<rparr>)"

definition on_active_inbound_session :: "peer_id \<Rightarrow> socket_addr \<Rightarrow> peers_manager \<Rightarrow> peers_manager" where
  "on_active_inbound_session i addr s =
     (if is_banned_peer (pm_ban_list s) i then push_action (DisconnectBannedIncoming i) s
      else
        (case pm_peers s i of
           Some value \<Rightarrow>
             if peer_is_banned value then push_action (DisconnectBannedIncoming i) s
             else s\<lparr>pm_peers := (pm_peers s)(i \<mapsto> value\<lparr>pe_state := State_In\<rparr>)\<rparr>
         | None \<Rightarrow>
             push_action (PeerAdded i) (s\<lparr>pm_peers := (pm_peers s)(i \<mapsto> peer_with_state addr State_In)\<rparr>)))"

definition apply_reputation_change :: "nat \<Rightarrow> peer_id \<Rightarrow> reputation_change_kind \<Rightarrow> peers_manager \<Rightarrow> peers_manager" where
  "apply_reputation_change now i rep s =
     (case pm_peers s i of
        None \<Rightarrow> s
      | Some p \<Rightarrow>
          (let (outcome, p) = apply_reputation (weights_change (pm_reputation_weights s) rep) p;
               s = s\<lparr>pm_peers := (pm_peers s)(i \<mapsto> p)\<rparr>
           in case outcome of
                Outcome_None \<Rightarrow> s
              | Outcome_Ban \<Rightarrow> ban_peer now i s
              | Outcome_Unban \<Rightarrow> unban_peer i s
              | Outcome_DisconnectAndBan \<Rightarrow>
                  ban_peer now i (push_action (Disconnect i (Some DisconnectRequested)) s)))"

definition on_pending_session_gracefully_closed :: "peer_id \<Rightarrow> peers_manager \<Rightarrow> peers_manager" where
  "on_pending_session_gracefully_closed i s =
     (case pm_peers s i of
        None \<Rightarrow> s
      | Some p \<Rightarrow> s\<lparr>pm_peers := (pm_peers s)(i \<mapsto> p\<lparr>pe_state := Idle\<rparr>),
                     pm_connection_info := decr_out (pm_connection_info s)\<rparr>)"

section \<open>Outbound slots\<close>

definition eligible :: "bool \<Rightarrow> peer \<Rightarrow> bool" where
  "eligible trusted_only p \<longleftrightarrow>
     is_unconnected (pe_state p) \<and> \<not> peer_is_banned p \<and> (\<not> trusted_only \<or> is_trusted p)"

fun better_peer :: "peer_id \<times> peer \<Rightarrow> (peer_id \<times> peer) list \<Rightarrow> peer_id \<times> peer" where
  "better_peer best [] = best"
| "better_peer best (maybe # unconnected) =
     (if is_trusted (snd maybe) then maybe
      else
        (case (pe_fork_id (snd maybe), pe_fork_id (snd best)) of
           (Some _, Some _) \<Rightarrow>
             better_peer (if pe_reputation (snd maybe) > pe_reputation (snd best) then maybe else best) unconnected
         | (None, None) \<Rightarrow>
             better_peer (if pe_reputation (snd maybe) > pe_reputation (snd best) then maybe else best) unconnected
         | (Some _, None) \<Rightarrow> better_peer maybe unconnected
         | (None, Some _) \<Rightarrow> better_peer best unconnected))"

definition best_unconnected ::
    "((peer_id \<rightharpoonup> peer) \<Rightarrow> peer_id list) \<Rightarrow> peers_manager \<Rightarrow> (peer_id \<times> peer) option" where
  "best_unconnected iter s =
     (case filter (\<lambda>e. eligible (pm_connect_trusted_nodes_only s) (snd e))
             (List.map_filter (\<lambda>i. map_option (Pair i) (pm_peers s i)) (iter (pm_peers s))) of
        [] \<Rightarrow> None
      | best # unconnected \<Rightarrow> Some (if is_trusted (snd best) then best else better_peer best unconnected))"

lemma better_peer_in: "better_peer best es \<in> set (best # es)"
  by (induction es arbitrary: best) (auto split: option.splits)

lemma best_unconnected_Some:
  assumes "best_unconnected iter s = Some (i, p)"
  shows "pm_peers s i = Some p \<and> eligible (pm_connect_trusted_nodes_only s) p"
proof -
  let ?es = "filter (\<lambda>e. eligible (pm_connect_trusted_nodes_only s) (snd e))
      (List.map_filter (\<lambda>i. map_option (Pair i) (pm_peers s i)) (iter (pm_peers s)))"
  have "(i, p) \<in> set ?es"
    using assms better_peer_in [of "hd ?es" "tl ?es"]
    by (cases ?es) (auto simp: best_unconnected_def simp del: filter_eq_Cons_iff split: if_splits)
  then show ?thesis
    by (auto simp: List.map_filter_def)
qed

definition idle_peers :: "peers_manager \<Rightarrow> peer_id set" where
  "idle_peers s = {i. \<exists>p. pm_peers s i = Some p \<and> pe_state p = Idle}"

lemma idle_peers_connect:
  assumes "pm_peers s i = Some p" and "pe_state p = Idle" and "pe_state q \<noteq> Idle"
    and "pm_peers s' = (pm_peers s)(i \<mapsto> q)"
  shows "card (idle_peers s') < card (idle_peers s)"
proof -
  have "idle_peers s' = idle_peers s - {i}" "i \<in> idle_peers s"
    using assms by (auto simp: idle_peers_def)
  then show ?thesis
    by (simp only: card_Diff1_less finite)
qed

text \<open>Every round of the loop connects an idle peer, so it ends.\<close>

function fill_outbound_slots ::
    "((peer_id \<rightharpoonup> peer) \<Rightarrow> peer_id list) \<Rightarrow> peers_manager \<Rightarrow> peers_manager" where
  "fill_outbound_slots iter s =
     (if has_out_capacity (pm_connection_info s) then
        (case best_unconnected iter s of
           None \<Rightarrow> s
         | Some (i, p) \<Rightarrow>
             if peer_is_banned p then s
             else
               (let s = s\<lparr>pm_peers := (pm_peers s)(i \<mapsto> p\<lparr>pe_state := State_Out\<rparr>)\<rparr>;
                    s = s\<lparr>pm_connection_info := inc_out (pm_connection_info s)\<rparr>
                in fill_outbound_slots iter (push_action (Connect i (pe_addr p)) s)))
      else s)"
  by pat_completeness auto

termination
  by (relation "measure (\<lambda>(iter, s). card (idle_peers s))")
    (auto intro!: idle_peers_connect dest!: best_unconnected_Some simp: eligible_def is_unconnected_def)

declare fill_outbound_slots.simps [simp del]

definition on_active_session_gracefully_closed ::
    "((peer_id \<rightharpoonup> peer) \<Rightarrow> peer_id list) \<Rightarrow> peer_id \<Rightarrow> peers_manager \<Rightarrow> peers_manager" where
  "on_active_session_gracefully_closed iter i s =
     (case pm_peers s i of
        None \<Rightarrow> s
      | Some p \<Rightarrow>
          (let s = s\<lparr>pm_connection_info := decr_state (pe_state p) (pm_connection_info s)\<rparr>
           in if pe_remove_after_disconnect p \<and> \<not> is_trusted p
              then fill_outbound_slots iter
                     (push_action (PeerRemoved i) (s\<lparr>pm_peers := (pm_peers s)(i := None)\<rparr>))
              else s\<lparr>pm_peers := (pm_peers s)(i \<mapsto> p\<lparr>pe_backoff_counter := 0, pe_state := Idle\<rparr>)\<rparr>))"

definition on_connection_failure ::
    "((peer_id \<rightharpoonup> peer) \<Rightarrow> peer_id list) \<Rightarrow> nat \<Rightarrow> socket_addr \<Rightarrow> peer_id \<Rightarrow> ('s, 'x) session_error \<Rightarrow>
     reputation_change_kind \<Rightarrow> peers_manager \<Rightarrow> peers_manager" where
  "on_connection_failure iter now remote_addr i err reputation_change s =
     (let s =
        (if is_fatal_protocol_error err then
           (let s = (case pm_peers s i of
                       Some p \<Rightarrow> push_action (PeerRemoved i)
                         (s\<lparr>pm_peers := (pm_peers s)(i := None),
                            pm_connection_info := decr_state (pe_state p) (pm_connection_info s)\<rparr>)
                     | None \<Rightarrow> s);
                s = ban_peer now i s
            in if merits_discovery_ban err then push_action (DiscoveryBanPeerId i (fst remote_addr)) s else s)
         else
           (case pm_peers s i of
              None \<Rightarrow> s
            | Some p \<Rightarrow>
                (let (p, change, until) =
                       (case should_backoff err of
                          Some kind \<Rightarrow>
                            (let p = p\<lparr>pe_backoff_counter := pe_backoff_counter p + 1\<rparr>
                             in (p, BACKOFF_REPUTATION_CHANGE,
                                 Some (backoff_until (pm_backoff_durations s) kind (pe_backoff_counter p) now)))
                        | None \<Rightarrow> (p, weights_change (pm_reputation_weights s) reputation_change, None));
                     s = s\<lparr>pm_connection_info := decr_state (pe_state p) (pm_connection_info s)\<rparr>;
                     p = p\<lparr>pe_state := Idle, pe_reputation := saturating_add_i32 (pe_reputation p) change\<rparr>;
                     s = s\<lparr>pm_peers := (pm_peers s)(i \<mapsto> p)\<rparr>
                 in case until of Some t \<Rightarrow> backoff_peer_until i t s | None \<Rightarrow> s)))
      in fill_outbound_slots iter s)"

definition on_pending_session_dropped ::
    "((peer_id \<rightharpoonup> peer) \<Rightarrow> peer_id list) \<Rightarrow> nat \<Rightarrow> socket_addr \<Rightarrow> peer_id \<Rightarrow> ('s, 'x) session_error \<Rightarrow>
     peers_manager \<Rightarrow> peers_manager" where
  "on_pending_session_dropped iter now remote_addr i err s =
     on_connection_failure iter now remote_addr i err FailedToConnect s"

definition on_active_session_dropped ::
    "((peer_id \<rightharpoonup> peer) \<Rightarrow> peer_id list) \<Rightarrow> nat \<Rightarrow> socket_addr \<Rightarrow> peer_id \<Rightarrow> 's eth_stream_error \<Rightarrow>
     peers_manager \<Rightarrow> peers_manager" where
  "on_active_session_dropped iter now remote_addr i err s =
     on_connection_failure iter now remote_addr i (Session_Eth err :: ('s, unit) session_error) Dropped s"

definition on_outgoing_connection_failure ::
    "((peer_id \<rightharpoonup> peer) \<Rightarrow> peer_id list) \<Rightarrow> nat \<Rightarrow> socket_addr \<Rightarrow> peer_id \<Rightarrow> io_error_kind \<Rightarrow>
     peers_manager \<Rightarrow> peers_manager" where
  "on_outgoing_connection_failure iter now remote_addr i err s =
     on_connection_failure iter now remote_addr i (Session_Io err :: (unit, unit) session_error) FailedToConnect s"

datatype direction = Incoming | Outgoing peer_id

definition on_already_connected :: "direction \<Rightarrow> peers_manager \<Rightarrow> peers_manager" where
  "on_already_connected d s =
     (case d of
        Incoming \<Rightarrow> s
      | Outgoing _ \<Rightarrow> s\<lparr>pm_connection_info := decr_out (pm_connection_info s)\<rparr>)"

definition set_discovered_fork_id :: "peer_id \<Rightarrow> fork_id \<Rightarrow> peers_manager \<Rightarrow> peers_manager" where
  "set_discovered_fork_id i fork_id s =
     (case pm_peers s i of
        Some p \<Rightarrow> s\<lparr>pm_peers := (pm_peers s)(i \<mapsto> p\<lparr>pe_fork_id := Some fork_id\<rparr>)\<rparr>
      | None \<Rightarrow> s)"

definition add_peer_kind ::
    "((peer_id \<rightharpoonup> peer) \<Rightarrow> peer_id list) \<Rightarrow> peer_id \<Rightarrow> peer_kind \<Rightarrow> socket_addr \<Rightarrow> fork_id option \<Rightarrow>
     peers_manager \<Rightarrow> peers_manager" where
  "add_peer_kind iter i kind addr fork_id s =
     (if list_is_banned (pm_ban_list s) i (fst addr) then s
      else
        (case pm_peers s i of
           Some node \<Rightarrow>
             s\<lparr>pm_peers := (pm_peers s)(i \<mapsto> node\<lparr>pe_kind := kind, pe_addr := addr, pe_fork_id := fork_id\<rparr>)\<rparr>
         | None \<Rightarrow>
             fill_outbound_slots iter
               (push_action (PeerAdded i)
                 (s\<lparr>pm_peers := (pm_peers s)(i \<mapsto> (peer_with_kind addr kind)\<lparr>pe_fork_id := fork_id\<rparr>)\<rparr>))))"

definition add_peer ::
    "((peer_id \<rightharpoonup> peer) \<Rightarrow> peer_id list) \<Rightarrow> peer_id \<Rightarrow> socket_addr \<Rightarrow> fork_id option \<Rightarrow> peers_manager \<Rightarrow>
     peers_manager" where
  "add_peer iter i addr fork_id s = add_peer_kind iter i Basic addr fork_id s"

definition add_trusted_peer ::
    "((peer_id \<rightharpoonup> peer) \<Rightarrow> peer_id list) \<Rightarrow> peer_id \<Rightarrow> socket_addr \<Rightarrow> peers_manager \<Rightarrow> peers_manager" where
  "add_trusted_peer iter i addr s = add_peer_kind iter i Trusted addr None s"

definition remove_peer :: "peer_id \<Rightarrow> peers_manager \<Rightarrow> peers_manager" where
  "remove_peer i s =
     (case pm_peers s i of
        None \<Rightarrow> s
      | Some p \<Rightarrow>
          if is_trusted p then s
          else
            (let s = push_action (PeerRemoved i) (s\<lparr>pm_peers := (pm_peers s)(i := None)\<rparr>)
             in if is_connected (pe_state p)
                then push_action (Disconnect i (Some DisconnectRequested))
                       (s\<lparr>pm_peers := (pm_peers s)
                            (i \<mapsto> p\<lparr>pe_remove_after_disconnect := True, pe_state := state_disconnect (pe_state p)\<rparr>)\<rparr>)
                else s))"

definition remove_peer_from_trusted_set :: "peer_id \<Rightarrow> peers_manager \<Rightarrow> peers_manager" where
  "remove_peer_from_trusted_set i s =
     (case pm_peers s i of
        None \<Rightarrow> s
      | Some p \<Rightarrow> if \<not> is_trusted p then s else s\<lparr>pm_peers := (pm_peers s)(i \<mapsto> p\<lparr>pe_kind := Basic\<rparr>)\<rparr>)"

section \<open>Polling\<close>

text \<open>The commands that change the state; the two that only reply are left out.\<close>

datatype peer_command =
    Cmd_Add peer_id socket_addr
  | Cmd_Remove peer_id
  | Cmd_ReputationChange peer_id reputation_change_kind

definition run_command ::
    "((peer_id \<rightharpoonup> peer) \<Rightarrow> peer_id list) \<Rightarrow> nat \<Rightarrow> peer_command \<Rightarrow> peers_manager \<Rightarrow> peers_manager" where
  "run_command iter now cmd s =
     (case cmd of
        Cmd_Add i addr \<Rightarrow> add_peer iter i addr None s
      | Cmd_Remove i \<Rightarrow> remove_peer i s
      | Cmd_ReputationChange i rep \<Rightarrow> apply_reputation_change now i rep s)"

definition unban_evicted :: "peer_id \<Rightarrow> peers_manager \<Rightarrow> peers_manager" where
  "unban_evicted i s =
     (case pm_peers s i of
        None \<Rightarrow> s
      | Some p \<Rightarrow> push_action (UnBanPeer i) (s\<lparr>pm_peers := (pm_peers s)(i \<mapsto> peer_unban p)\<rparr>))"

text \<open>
  The readings of the two timers are parameters. A second round of the loop returns the first of the
  actions that the first round queued; \<^term>\<open>None\<close> is pending.
\<close>

definition pm_poll ::
    "((peer_id \<rightharpoonup> peer) \<Rightarrow> peer_id list) \<Rightarrow> ((ip_addr \<rightharpoonup> nat option) \<Rightarrow> ip_addr list) \<Rightarrow>
     ((peer_id \<rightharpoonup> nat option) \<Rightarrow> peer_id list) \<Rightarrow> nat \<Rightarrow> bool \<Rightarrow> bool \<Rightarrow> peer_command list \<Rightarrow> peers_manager \<Rightarrow>
     peer_action option \<times> peers_manager" where
  "pm_poll iter iter_ips iter_bans now unban_tick refill_tick cmds s =
     (case pm_queued_actions s of
        a # as \<Rightarrow> (Some a, s\<lparr>pm_queued_actions := as\<rparr>)
      | [] \<Rightarrow>
          (let s = fold (run_command iter now) cmds s;
               s = (if unban_tick then
                      (let ((_, unbanned), bans) = evict iter_ips iter_bans now (pm_ban_list s)
                       in fold unban_evicted unbanned (s\<lparr>pm_ban_list := bans\<rparr>))
                    else s);
               s = (if refill_tick then fill_outbound_slots iter s else s)
           in case pm_queued_actions s of
                a # as \<Rightarrow> (Some a, s\<lparr>pm_queued_actions := as\<rparr>)
              | [] \<Rightarrow> (None, s)))"

end
