(* ===== verification/PeerSlots.thy ===== *)
theory PeerSlots
  imports Peers
begin

text \<open>
  The connection slots of the peers manager. A reachable state is one that the events of the network
  lead to, in the order in which sessions are opened and closed; it carries the number of incoming
  connections that are accepted and not yet active, and the number of outgoing attempts that an
  incoming session of the same peer has overtaken. The lemmas show what every operation does to the
  counters.
\<close>

section \<open>Counting peers\<close>

definition is_in :: "peer option \<Rightarrow> bool" where
  "is_in p = (case p of Some p \<Rightarrow> pe_state p \<in> {State_In, DisconnectingIn} | None \<Rightarrow> False)"

definition is_out :: "peer option \<Rightarrow> bool" where
  "is_out p = (case p of Some p \<Rightarrow> pe_state p \<in> {State_Out, DisconnectingOut} | None \<Rightarrow> False)"

definition count :: "(peer option \<Rightarrow> bool) \<Rightarrow> (peer_id \<rightharpoonup> peer) \<Rightarrow> nat" where
  "count P m = card {i. P (m i)}"

lemma count_pos: "P (m i) \<Longrightarrow> 0 < count P m"
  by (auto simp: count_def card_gt_0_iff)

lemma count_upd: "count P (m(i := v)) + of_bool (P (m i)) = count P m + of_bool (P v)"
proof -
  have "{j. P ((m(i := v)) j)} = (if P v then insert i {j. P (m j)} else {j. P (m j)} - {i})"
    by auto
  then show ?thesis
    using card_Suc_Diff1 [of "{j. P (m j)}" i]
    by (cases "P v"; cases "P (m i)") (simp_all add: count_def insert_absorb)
qed

definition slots :: "peers_manager \<Rightarrow> nat \<Rightarrow> nat \<Rightarrow> bool" where
  "slots s pending overtaken \<longleftrightarrow>
     unat (ci_num_inbound (pm_connection_info s)) = count is_in (pm_peers s) + pending \<and>
     unat (ci_num_outbound (pm_connection_info s)) = count is_out (pm_peers s) + overtaken \<and>
     ci_num_inbound (pm_connection_info s) \<le> ci_max_inbound (pm_connection_info s) \<and>
     ci_num_outbound (pm_connection_info s) \<le> ci_max_outbound (pm_connection_info s)"

text \<open>Whether the slots are right depends on the peers and the counters only.\<close>

lemma slots_cong:
  "pm_peers s' = pm_peers s \<Longrightarrow> pm_connection_info s' = pm_connection_info s \<Longrightarrow> slots s' a b = slots s a b"
  by (simp add: slots_def)

text \<open>A peer that keeps its side of the connection keeps the slots.\<close>

lemma slots_same_side:
  assumes "slots s a b" and "is_in v = is_in (pm_peers s i)" and "is_out v = is_out (pm_peers s i)"
    and "pm_peers s' = (pm_peers s)(i := v)" and "pm_connection_info s' = pm_connection_info s"
  shows "slots s' a b"
  using assms count_upd [of is_in "pm_peers s" i v] count_upd [of is_out "pm_peers s" i v]
  by (simp add: slots_def)

text \<open>A peer whose connection ends gives its slot back.\<close>

lemma slots_disconnected:
  assumes s: "slots s a b" and p: "pm_peers s i = Some p" and v: "\<not> is_in v" "\<not> is_out v"
    and "pm_peers s' = (pm_peers s)(i := v)"
    and "pm_connection_info s' = decr_state (pe_state p) (pm_connection_info s)"
  shows "slots s' a b"
proof -
  let ?in = "ci_num_inbound (pm_connection_info s)" and ?out = "ci_num_outbound (pm_connection_info s)"
  have "0 < unat ?in \<and> unat (?in - 1) = unat ?in - 1 \<and> ?in - 1 \<le> ?in" if "is_in (Some p)"
    using count_pos [of is_in "pm_peers s" i] that p s unat_decr [of ?in] by (simp add: slots_def)
  moreover have "0 < unat ?out \<and> unat (?out - 1) = unat ?out - 1 \<and> ?out - 1 \<le> ?out" if "is_out (Some p)"
    using count_pos [of is_out "pm_peers s" i] that p s unat_decr [of ?out] by (simp add: slots_def)
  ultimately show ?thesis
    using assms count_upd [of is_in "pm_peers s" i v] count_upd [of is_out "pm_peers s" i v]
    by (cases "pe_state p")
      (auto simp: slots_def decr_state_def decr_in_def decr_out_def is_in_def is_out_def split: if_splits option.splits)
qed

section \<open>Operations\<close>

definition iterates :: "((peer_id \<rightharpoonup> peer) \<Rightarrow> peer_id list) \<Rightarrow> bool" where
  "iterates iter \<longleftrightarrow> (\<forall>m. distinct (iter m) \<and> set (iter m) = dom m)"

text \<open>What the loop does: it connects distinct peers that were eligible, and stops when there is no slot or no
  eligible peer left.\<close>

definition connected :: "(peer_id \<rightharpoonup> peer) \<Rightarrow> peer_id list \<Rightarrow> (peer_id \<rightharpoonup> peer)" where
  "connected m is = (\<lambda>i. if i \<in> set is then map_option (\<lambda>p. p\<lparr>pe_state := State_Out\<rparr>) (m i) else m i)"

definition fill_post :: "peers_manager \<Rightarrow> peer_id list \<Rightarrow> peers_manager \<Rightarrow> bool" where
  "fill_post s is s' \<longleftrightarrow> distinct is \<and>
     (\<forall>i \<in> set is. \<exists>p. pm_peers s i = Some p \<and> eligible (pm_connect_trusted_nodes_only s) p) \<and>
     s' = s\<lparr>pm_peers := connected (pm_peers s) is,
            pm_connection_info := (pm_connection_info s)
              \<lparr>ci_num_outbound := ci_num_outbound (pm_connection_info s) + of_nat (length is)\<rparr>,
            pm_queued_actions := pm_queued_actions s @ map (\<lambda>i. Connect i (pe_addr (the (pm_peers s i)))) is\<rparr>"

lemma candidates_set:
  "iterates iter \<Longrightarrow>
   set (filter (\<lambda>e. eligible t (snd e)) (List.map_filter (\<lambda>i. map_option (Pair i) (m i)) (iter m))) =
     {(i, p). m i = Some p \<and> eligible t p}"
  by (force simp: List.map_filter_def iterates_def)

lemma best_unconnected_None:
  assumes "iterates iter"
  shows "best_unconnected iter s = None \<longleftrightarrow>
     (\<forall>i p. pm_peers s i = Some p \<longrightarrow> \<not> eligible (pm_connect_trusted_nodes_only s) p)"
proof -
  have "best_unconnected iter s = None \<longleftrightarrow> {(i, p). pm_peers s i = Some p \<and> eligible (pm_connect_trusted_nodes_only s) p} = {}"
    unfolding candidates_set [OF assms, symmetric] set_empty best_unconnected_def
    by (simp del: filter_empty_conv split: list.split)
  then show ?thesis
    by auto
qed

lemma fill_outbound_slots_step:
  assumes "has_out_capacity (pm_connection_info s)" and "best_unconnected iter s = Some (i, p)"
  shows "fill_outbound_slots iter s = fill_outbound_slots iter
    (s\<lparr>pm_peers := (pm_peers s)(i \<mapsto> p\<lparr>pe_state := State_Out\<rparr>), pm_connection_info := inc_out (pm_connection_info s),
       pm_queued_actions := pm_queued_actions s @ [Connect i (pe_addr p)]\<rparr>)"
  using assms best_unconnected_Some [OF assms(2)]
  by (subst fill_outbound_slots.simps) (simp add: eligible_def Let_def)

lemma fill_outbound_slots_stop:
  "\<not> has_out_capacity (pm_connection_info s) \<or> best_unconnected iter s = None \<Longrightarrow> fill_outbound_slots iter s = s"
  by (subst fill_outbound_slots.simps) auto

lemma fill_outbound_slots_post:
  "\<exists>is. fill_post s is (fill_outbound_slots iter s) \<and>
     (\<not> has_out_capacity (pm_connection_info (fill_outbound_slots iter s)) \<or>
      best_unconnected iter (fill_outbound_slots iter s) = None)"
proof (induction iter s rule: fill_outbound_slots.induct)
  case (1 iter s)
  show ?case
  proof (cases "has_out_capacity (pm_connection_info s) \<and> best_unconnected iter s \<noteq> None")
    case True
    then obtain i p where b: "best_unconnected iter s = Some (i, p)"
      by auto
    let ?s = "s\<lparr>pm_peers := (pm_peers s)(i \<mapsto> p\<lparr>pe_state := State_Out\<rparr>), pm_connection_info := inc_out (pm_connection_info s),
       pm_queued_actions := pm_queued_actions s @ [Connect i (pe_addr p)]\<rparr>"
    have p: "pm_peers s i = Some p" "eligible (pm_connect_trusted_nodes_only s) p"
      using best_unconnected_Some [OF b] by auto
    have "\<exists>is. fill_post ?s is (fill_outbound_slots iter ?s) \<and>
       (\<not> has_out_capacity (pm_connection_info (fill_outbound_slots iter ?s)) \<or>
        best_unconnected iter (fill_outbound_slots iter ?s) = None)"
      using 1 [OF _ b refl] True p(2) by (simp add: eligible_def)
    then obtain "is" where "is": "fill_post ?s is (fill_outbound_slots iter ?s)"
      "\<not> has_out_capacity (pm_connection_info (fill_outbound_slots iter ?s)) \<or>
        best_unconnected iter (fill_outbound_slots iter ?s) = None"
      by blast
    have new: "i \<notin> set is"
      using "is"(1) by (force simp: fill_post_def eligible_def is_unconnected_def)
    have "fill_post s (i # is) (fill_outbound_slots iter ?s)"
      using "is"(1) p new
      by (auto simp: fill_post_def connected_def inc_out_def fun_eq_iff algebra_simps intro!: peers_manager.equality split: if_splits)
    then show ?thesis
      using "is"(2) fill_outbound_slots_step [OF _ b] True by metis
  next
    case False
    then have "fill_outbound_slots iter s = s"
      by (intro fill_outbound_slots_stop) blast
    moreover have "fill_post s [] s"
      by (auto simp: fill_post_def connected_def intro!: peers_manager.equality connection_info.equality)
    ultimately show ?thesis
      using False by metis
  qed
qed

section \<open>Well-formed peers\<close>

text \<open>Reputations stay in the range of their integer type, and a connected peer has not lost its reputation.\<close>

definition peer_wf :: "peer \<Rightarrow> bool" where
  "peer_wf p \<longleftrightarrow> - (2 ^ 31) \<le> pe_reputation p \<and> pe_reputation p < 2 ^ 31 \<and>
     (is_connected (pe_state p) \<longrightarrow> \<not> peer_is_banned p)"

definition manager_inv :: "peers_manager \<Rightarrow> nat \<Rightarrow> nat \<Rightarrow> bool" where
  "manager_inv s pending overtaken \<longleftrightarrow> slots s pending overtaken \<and> pred_fun (\<lambda>_. True) (pred_option peer_wf) (pm_peers s)"

named_theorems peer_state
named_theorems manager

lemmas peer_flags [peer_state] =
  peer_wf_def peer_is_banned_def is_banned_reputation_def BANNED_REPUTATION_def REPUTATION_UNIT_def DEFAULT_REPUTATION_def
  is_connected_def is_unconnected_def is_in_def is_out_def

lemma manager_cong:
  "pm_peers s' = pm_peers s \<Longrightarrow> pm_connection_info s' = pm_connection_info s \<Longrightarrow> manager_inv s' a b = manager_inv s a b"
  by (simp add: manager_inv_def slots_def)

lemma manager_same_side:
  assumes "manager_inv s a b" and "is_in v = is_in (pm_peers s i)" and "is_out v = is_out (pm_peers s i)"
    and "pred_option peer_wf v"
    and "pm_peers s' = (pm_peers s)(i := v)" and "pm_connection_info s' = pm_connection_info s"
  shows "manager_inv s' a b"
  using assms slots_same_side [of s a b v i s'] by (simp add: manager_inv_def)

lemma manager_disconnected:
  assumes "manager_inv s a b" and "pm_peers s i = Some p" and "\<not> is_in v" "\<not> is_out v" and "pred_option peer_wf v"
    and "pm_peers s' = (pm_peers s)(i := v)" and "pm_connection_info s' = decr_state (pe_state p) (pm_connection_info s)"
  shows "manager_inv s' a b"
  using assms slots_disconnected [of s a b i p v s'] by (simp add: manager_inv_def)

lemma manager_wf: "manager_inv s a b \<Longrightarrow> pm_peers s i = Some p \<Longrightarrow> peer_wf p"
  unfolding manager_inv_def by (metis option.pred_inject(2) pred_fun_def)

lemma manager_connect:
  assumes inv: "manager_inv s a b" and p: "pm_peers s i = Some p" "eligible t p"
    and cap: "has_out_capacity (pm_connection_info s)"
    and s': "pm_peers s' = (pm_peers s)(i \<mapsto> p\<lparr>pe_state := State_Out\<rparr>)" "pm_connection_info s' = inc_out (pm_connection_info s)"
  shows "manager_inv s' a b"
proof -
  have "slots s' a b"
    using inv p s' count_upd [of is_in "pm_peers s" i "Some (p\<lparr>pe_state := State_Out\<rparr>)"]
      count_upd [of is_out "pm_peers s" i "Some (p\<lparr>pe_state := State_Out\<rparr>)"]
      unat_incr [of "ci_num_outbound (pm_connection_info s)" "ci_max_outbound (pm_connection_info s)"] cap
    by (simp add: manager_inv_def slots_def inc_out_def has_out_capacity_def eligible_def is_unconnected_def is_in_def is_out_def)
  moreover have "peer_wf (p\<lparr>pe_state := State_Out\<rparr>)"
    using manager_wf [OF inv p(1)] p(2) by (simp add: peer_wf_def eligible_def peer_is_banned_def)
  ultimately show ?thesis
    using inv s' by (simp add: manager_inv_def)
qed

lemma manager_fill [manager]: "manager_inv s a b \<Longrightarrow> manager_inv (fill_outbound_slots iter s) a b"
proof (induction iter s rule: fill_outbound_slots.induct)
  case (1 iter s)
  show ?case
  proof (cases "has_out_capacity (pm_connection_info s) \<and> best_unconnected iter s \<noteq> None")
    case True
    then obtain i p where b: "best_unconnected iter s = Some (i, p)"
      by auto
    note p = best_unconnected_Some [OF b]
    let ?s = "s\<lparr>pm_peers := (pm_peers s)(i \<mapsto> p\<lparr>pe_state := State_Out\<rparr>), pm_connection_info := inc_out (pm_connection_info s),
       pm_queued_actions := pm_queued_actions s @ [Connect i (pe_addr p)]\<rparr>"
    have "manager_inv ?s a b"
      using p True by (intro manager_connect [OF 1(2), where i = i and p = p]) auto
    then have "manager_inv (fill_outbound_slots iter ?s) a b"
      using 1(1) [OF _ b refl] True p by (simp add: eligible_def)
    then show ?thesis
      using fill_outbound_slots_step [OF _ b] True by simp
  next
    case False
    then have "fill_outbound_slots iter s = s"
      by (intro fill_outbound_slots_stop) blast
    then show ?thesis
      using 1(2) by simp
  qed
qed

lemma saturating_add_i32_bounds: "- (2 ^ 31) \<le> saturating_add_i32 x y" "saturating_add_i32 x y < 2 ^ 31"
  by (auto simp: saturating_add_i32_def)

lemma apply_reputation_side:
  assumes "apply_reputation r p = (out, p')" and "peer_wf p"
  shows "is_in (Some p') = is_in (Some p)" "is_out (Some p') = is_out (Some p)" "peer_wf p'"
  using assms saturating_add_i32_bounds [of "pe_reputation p" r]
  by (cases "pe_state p"; auto simp: apply_reputation_def Let_def is_in_def is_out_def peer_wf_def is_connected_def
      peer_is_banned_def split: if_splits)+

lemma manager_apply_reputation_change [manager]:
  assumes "manager_inv s a b"
  shows "manager_inv (apply_reputation_change now i rep s) a b"
proof (cases "pm_peers s i")
  case (Some p)
  obtain out p' where r: "apply_reputation (weights_change (pm_reputation_weights s) rep) p = (out, p')"
    by fastforce
  show ?thesis
    by (rule manager_same_side [OF assms, where i = i and v = "Some p'"])
      (use apply_reputation_side [OF r manager_wf [OF assms Some]] Some r in
        \<open>simp_all add: apply_reputation_change_def ban_peer_def unban_peer_def Let_def split: reputation_change_outcome.split\<close>)
qed (simp add: assms apply_reputation_change_def)

lemma manager_accept [manager]:
  "manager_inv s a b \<Longrightarrow> on_incoming_pending_session ip s = (Inr (), s') \<Longrightarrow> manager_inv s' (Suc a) b"
  using unat_incr [of "ci_num_inbound (pm_connection_info s)" "ci_max_inbound (pm_connection_info s)"]
  by (auto simp: on_incoming_pending_session_def manager_inv_def slots_def inc_in_def has_in_capacity_def split: if_splits)

lemma manager_release:
  "manager_inv s (Suc a) b \<Longrightarrow> pm_peers s' = pm_peers s \<Longrightarrow> pm_connection_info s' = decr_in (pm_connection_info s) \<Longrightarrow>
   manager_inv s' a b"
  using unat_decr [of "ci_num_inbound (pm_connection_info s)"] by (auto simp: manager_inv_def slots_def decr_in_def)

lemma manager_incoming_ends [manager]:
  assumes "manager_inv s (Suc a) b"
  shows "manager_inv (on_incoming_pending_session_rejected_internally s) a b"
    "manager_inv (on_incoming_pending_session_gracefully_closed s) a b"
    "manager_inv (on_incoming_pending_session_dropped now addr err s) a b"
  by (rule manager_release [OF assms];
      simp add: on_incoming_pending_session_rejected_internally_def on_incoming_pending_session_gracefully_closed_def
        on_incoming_pending_session_dropped_def ban_ip_def Let_def)+

lemma manager_overtaken_ends [manager]:
  "manager_inv s a (Suc b) \<Longrightarrow> manager_inv (on_already_connected (Outgoing i) s) a b"
  using unat_decr [of "ci_num_outbound (pm_connection_info s)"]
  by (auto simp: on_already_connected_def manager_inv_def slots_def decr_out_def)

lemma manager_already_connected_incoming [manager]:
  "manager_inv s a b \<Longrightarrow> manager_inv (on_already_connected Incoming s) a b"
  by (simp add: on_already_connected_def)

text \<open>A session that becomes active takes over the slot of its connection.\<close>

definition refuses :: "peers_manager \<Rightarrow> peer_id \<Rightarrow> bool" where
  "refuses s i \<longleftrightarrow> is_banned_peer (pm_ban_list s) i \<or> (\<exists>p. pm_peers s i = Some p \<and> peer_is_banned p)"

lemma manager_activate [manager]:
  assumes inv: "manager_inv s (Suc a) b" and i: "\<not> refuses s i" "\<not> is_in (pm_peers s i)"
  shows "manager_inv (on_active_inbound_session i addr s) a (b + of_bool (is_out (pm_peers s i)))"
proof -
  let ?s = "on_active_inbound_session i addr s"
  obtain p where p: "pm_peers ?s = (pm_peers s)(i \<mapsto> p)" "pe_state p = State_In" "peer_wf p"
    using i manager_wf [OF inv, of i] unfolding on_active_inbound_session_def refuses_def
    by (cases "pm_peers s i") (auto simp: peer_flags peer_with_state_def)
  moreover have "pm_connection_info ?s = pm_connection_info s"
    using i by (auto simp: on_active_inbound_session_def split: option.split)
  ultimately show ?thesis
    using inv i(2) count_upd [of is_in "pm_peers s" i "Some p"] count_upd [of is_out "pm_peers s" i "Some p"]
    by (auto simp: manager_inv_def slots_def is_in_def is_out_def)
qed

lemma manager_refuse [manager]:
  assumes "manager_inv s a b" and "refuses s i"
  shows "manager_inv (on_active_inbound_session i addr s) a b"
proof -
  have "on_active_inbound_session i addr s = push_action (DisconnectBannedIncoming i) s"
    using assms(2) by (auto simp: on_active_inbound_session_def refuses_def)
  then show ?thesis
    using assms(1) manager_cong [of "push_action (DisconnectBannedIncoming i) s" s] by simp
qed

lemma manager_closed [manager]:
  assumes "manager_inv s a b"
  shows "manager_inv (on_active_session_gracefully_closed iter i s) a b"
proof (cases "pm_peers s i")
  case (Some p)
  let ?c = "decr_state (pe_state p) (pm_connection_info s)"
  have "manager_inv (s\<lparr>pm_connection_info := ?c, pm_peers := (pm_peers s)(i := None),
      pm_queued_actions := pm_queued_actions s @ [PeerRemoved i]\<rparr>) a b"
    by (rule manager_disconnected [OF assms Some, where v = None]) (simp_all add: is_in_def is_out_def)
  moreover have "manager_inv (s\<lparr>pm_connection_info := ?c, pm_peers := (pm_peers s)
      (i \<mapsto> p\<lparr>pe_backoff_counter := 0, pe_state := Idle\<rparr>)\<rparr>) a b"
    by (rule manager_disconnected [OF assms Some])
      (use manager_wf [OF assms Some] in \<open>simp_all add: is_in_def is_out_def peer_wf_def is_connected_def\<close>)
  ultimately show ?thesis
    using Some by (simp add: on_active_session_gracefully_closed_def Let_def manager_fill)
qed (simp add: assms on_active_session_gracefully_closed_def)

text \<open>After a failure the peer is gone or idle.\<close>

lemma on_connection_failure_fill:
  "\<exists>s'. on_connection_failure iter now addr i err rep s = fill_outbound_slots iter s' \<and>
     (case pm_peers s i of
        None \<Rightarrow> pm_peers s' = pm_peers s \<and> pm_connection_info s' = pm_connection_info s
      | Some p \<Rightarrow>
          pm_connection_info s' = decr_state (pe_state p) (pm_connection_info s) \<and>
          (\<exists>v. pm_peers s' = (pm_peers s)(i := v) \<and>
               (case v of None \<Rightarrow> True | Some v \<Rightarrow> pe_state v = Idle \<and> (\<exists>x y. pe_reputation v = saturating_add_i32 x y))))"
  by (cases "is_fatal_protocol_error err"; cases "pm_peers s i"; cases "should_backoff err")
    (auto simp: on_connection_failure_def ban_peer_def backoff_peer_until_def Let_def
      intro!: exI conjI)

lemma manager_failure [manager]:
  assumes "manager_inv s a b"
  shows "manager_inv (on_connection_failure iter now addr i err rep s) a b"
proof -
  obtain s' where s': "on_connection_failure iter now addr i err rep s = fill_outbound_slots iter s'"
    "case pm_peers s i of
        None \<Rightarrow> pm_peers s' = pm_peers s \<and> pm_connection_info s' = pm_connection_info s
      | Some p \<Rightarrow>
          pm_connection_info s' = decr_state (pe_state p) (pm_connection_info s) \<and>
          (\<exists>v. pm_peers s' = (pm_peers s)(i := v) \<and>
               (case v of None \<Rightarrow> True | Some v \<Rightarrow> pe_state v = Idle \<and> (\<exists>x y. pe_reputation v = saturating_add_i32 x y)))"
    using on_connection_failure_fill [of iter now addr i err rep s] by blast
  have "manager_inv s' a b"
  proof (cases "pm_peers s i")
    case (Some p)
    then obtain v where v: "pm_peers s' = (pm_peers s)(i := v)"
        "case v of None \<Rightarrow> True | Some v \<Rightarrow> pe_state v = Idle \<and> (\<exists>x y. pe_reputation v = saturating_add_i32 x y)"
        "pm_connection_info s' = decr_state (pe_state p) (pm_connection_info s)"
      using s'(2) by auto
    show ?thesis
      by (rule manager_disconnected [OF assms Some _ _ _ v(1,3)])
        (use v(2) saturating_add_i32_bounds in \<open>auto simp: is_in_def is_out_def peer_wf_def is_connected_def split: option.splits\<close>)
  qed (use s'(2) assms manager_cong [of s' s] in simp)
  then show ?thesis
    by (simp add: s'(1) manager_fill)
qed

lemma manager_pending_closed [manager]:
  assumes "manager_inv s a b" and "pm_peers s i = None \<or> is_out (pm_peers s i)"
  shows "manager_inv (on_pending_session_gracefully_closed i s) a b"
proof (cases "pm_peers s i")
  case (Some p)
  then have "pe_state p \<in> {State_Out, DisconnectingOut}"
    using assms(2) by (simp add: is_out_def)
  then show ?thesis
    by (intro manager_disconnected [OF assms(1) Some, where v = "Some (p\<lparr>pe_state := Idle\<rparr>)"])
      (use Some manager_wf [OF assms(1) Some] in
        \<open>auto simp: on_pending_session_gracefully_closed_def decr_state_def is_in_def is_out_def peer_wf_def is_connected_def\<close>)
qed (simp add: assms on_pending_session_gracefully_closed_def)

lemma manager_set_discovered_fork_id [manager]:
  assumes "manager_inv s a b"
  shows "manager_inv (set_discovered_fork_id i fork_id s) a b"
proof (cases "pm_peers s i")
  case (Some p)
  show ?thesis
    by (rule manager_same_side [OF assms, where i = i and v = "Some (p\<lparr>pe_fork_id := Some fork_id\<rparr>)"])
      (use Some manager_wf [OF assms Some] in \<open>auto simp: set_discovered_fork_id_def peer_flags\<close>)
qed (simp add: assms set_discovered_fork_id_def)

lemma manager_remove_from_trusted [manager]:
  assumes "manager_inv s a b"
  shows "manager_inv (remove_peer_from_trusted_set i s) a b"
proof (cases "pm_peers s i")
  case (Some p)
  have "manager_inv (s\<lparr>pm_peers := (pm_peers s)(i \<mapsto> p\<lparr>pe_kind := Basic\<rparr>)\<rparr>) a b"
    by (rule manager_same_side [OF assms, where i = i and v = "Some (p\<lparr>pe_kind := Basic\<rparr>)"])
      (use Some manager_wf [OF assms Some] in \<open>auto simp: peer_flags\<close>)
  then show ?thesis
    using Some assms by (simp add: remove_peer_from_trusted_set_def)
qed (simp add: assms remove_peer_from_trusted_set_def)

lemma manager_add_peer_kind [manager]:
  assumes "manager_inv s a b"
  shows "manager_inv (add_peer_kind iter i kind addr fork_id s) a b"
proof (cases "pm_peers s i")
  case None
  have "manager_inv (push_action (PeerAdded i)
      (s\<lparr>pm_peers := (pm_peers s)(i \<mapsto> (peer_with_kind addr kind)\<lparr>pe_fork_id := fork_id\<rparr>)\<rparr>)) a b"
    by (rule manager_same_side [OF assms, where i = i and v = "Some ((peer_with_kind addr kind)\<lparr>pe_fork_id := fork_id\<rparr>)"])
      (auto simp: None peer_flags peer_with_kind_def peer_new_def peer_with_state_def)
  then show ?thesis
    using None assms by (simp add: add_peer_kind_def manager_fill)
next
  case (Some p)
  have "manager_inv (s\<lparr>pm_peers := (pm_peers s)(i \<mapsto> p\<lparr>pe_kind := kind, pe_addr := addr, pe_fork_id := fork_id\<rparr>)\<rparr>) a b"
    by (rule manager_same_side [OF assms, where i = i and v = "Some (p\<lparr>pe_kind := kind, pe_addr := addr, pe_fork_id := fork_id\<rparr>)"])
      (use Some manager_wf [OF assms Some] in \<open>auto simp: peer_flags\<close>)
  then show ?thesis
    using Some assms by (simp add: add_peer_kind_def)
qed

text \<open>Removing a peer keeps the slots right when the peer is not on its way out already.\<close>

definition disconnecting :: "peer option \<Rightarrow> bool" where
  "disconnecting p = (case p of Some p \<Rightarrow> pe_state p \<in> {DisconnectingIn, DisconnectingOut} \<and> \<not> is_trusted p | None \<Rightarrow> False)"

lemma manager_remove_peer [manager]:
  assumes "manager_inv s a b" and "\<not> disconnecting (pm_peers s i)"
  shows "manager_inv (remove_peer i s) a b"
proof (cases "\<exists>p. pm_peers s i = Some p \<and> \<not> is_trusted p")
  case True
  then obtain p where p: "pm_peers s i = Some p" "\<not> is_trusted p"
    by blast
  let ?v = "if is_connected (pe_state p)
    then Some (p\<lparr>pe_remove_after_disconnect := True, pe_state := state_disconnect (pe_state p)\<rparr>) else None"
  show ?thesis
    by (rule manager_same_side [OF assms(1), where i = i and v = ?v])
      (use p assms(2) manager_wf [OF assms(1) p(1)] in
        \<open>cases "pe_state p"; simp add: remove_peer_def Let_def disconnecting_def is_in_def is_out_def is_connected_def peer_wf_def\<close>)+
qed (use assms in \<open>auto simp: remove_peer_def split: option.split\<close>)

lemma manager_unban_evicted [manager]:
  assumes "manager_inv s a b"
  shows "manager_inv (unban_evicted i s) a b"
proof (cases "pm_peers s i")
  case (Some p)
  show ?thesis
    by (rule manager_same_side [OF assms, where i = i and v = "Some (peer_unban p)"])
      (use Some in \<open>auto simp: unban_evicted_def peer_unban_def peer_flags\<close>)
qed (simp add: assms unban_evicted_def)

section \<open>Reachable states\<close>

fun command_ok :: "peer_command \<Rightarrow> peers_manager \<Rightarrow> bool" where
  "command_ok (Cmd_Remove i) s = (\<not> disconnecting (pm_peers s i))"
| "command_ok _ _ = True"

fun commands_ok ::
    "((peer_id \<rightharpoonup> peer) \<Rightarrow> peer_id list) \<Rightarrow> nat \<Rightarrow> peer_command list \<Rightarrow> peers_manager \<Rightarrow> bool" where
  "commands_ok iter now [] s = True"
| "commands_ok iter now (c # cs) s = (command_ok c s \<and> commands_ok iter now cs (run_command iter now c s))"

text \<open>
  The events of the network, in the order in which connections are opened and closed:
  \<open>pending\<close> is the number of slots that accepted incoming connections hold for no peer, \<open>overtaken\<close> the number of
  slots of outgoing attempts whose peer connected to us in the meantime. The errors of the compression and of
  the encryption layer are numbers here.
\<close>

inductive peers_reach ::
    "((peer_id \<rightharpoonup> peer) \<Rightarrow> peer_id list) \<Rightarrow> peers_config \<Rightarrow> peers_manager \<Rightarrow> nat \<Rightarrow> nat \<Rightarrow> bool"
  for iter config where
  started: "ci_num_inbound (pc_connection_info config) = 0 \<Longrightarrow> ci_num_outbound (pc_connection_info config) = 0 \<Longrightarrow>
    peers_reach iter config (pm_new config) 0 0"
| accepted: "peers_reach iter config s a b \<Longrightarrow> on_incoming_pending_session ip s = (Inr (), s') \<Longrightarrow>
    peers_reach iter config s' (Suc a) b"
| rejected: "peers_reach iter config s (Suc a) b \<Longrightarrow>
    peers_reach iter config (on_incoming_pending_session_rejected_internally s) a b"
| incoming_closed: "peers_reach iter config s (Suc a) b \<Longrightarrow>
    peers_reach iter config (on_incoming_pending_session_gracefully_closed s) a b"
| incoming_dropped: "peers_reach iter config s (Suc a) b \<Longrightarrow>
    peers_reach iter config (on_incoming_pending_session_dropped now addr (err :: (nat, nat) session_error) s) a b"
| activated: "peers_reach iter config s (Suc a) b \<Longrightarrow> \<not> refuses s i \<Longrightarrow> \<not> is_in (pm_peers s i) \<Longrightarrow>
    peers_reach iter config (on_active_inbound_session i addr s) a (b + of_bool (is_out (pm_peers s i)))"
| refused: "peers_reach iter config s a b \<Longrightarrow> refuses s i \<Longrightarrow>
    peers_reach iter config (on_active_inbound_session i addr s) a b"
| outgoing_closed: "peers_reach iter config s a b \<Longrightarrow> pm_peers s i = None \<or> is_out (pm_peers s i) \<Longrightarrow>
    peers_reach iter config (on_pending_session_gracefully_closed i s) a b"
| failed: "peers_reach iter config s a b \<Longrightarrow>
    peers_reach iter config (on_connection_failure iter now addr i (err :: (nat, nat) session_error) rep s) a b"
| session_closed: "peers_reach iter config s a b \<Longrightarrow>
    peers_reach iter config (on_active_session_gracefully_closed iter i s) a b"
| already_in: "peers_reach iter config s a b \<Longrightarrow> peers_reach iter config (on_already_connected Incoming s) a b"
| already_out: "peers_reach iter config s a (Suc b) \<Longrightarrow> peers_reach iter config (on_already_connected (Outgoing i) s) a b"
| rated: "peers_reach iter config s a b \<Longrightarrow> peers_reach iter config (apply_reputation_change now i rep s) a b"
| discovered: "peers_reach iter config s a b \<Longrightarrow> peers_reach iter config (set_discovered_fork_id i fid s) a b"
| added: "peers_reach iter config s a b \<Longrightarrow> peers_reach iter config (add_peer_kind iter i kind addr fork_id s) a b"
| removed: "peers_reach iter config s a b \<Longrightarrow> \<not> disconnecting (pm_peers s i) \<Longrightarrow>
    peers_reach iter config (remove_peer i s) a b"
| untrusted: "peers_reach iter config s a b \<Longrightarrow> peers_reach iter config (remove_peer_from_trusted_set i s) a b"
| polled: "peers_reach iter config s a b \<Longrightarrow> commands_ok iter now cmds s \<Longrightarrow>
    peers_reach iter config (snd (pm_poll iter iter_ips iter_bans now unban_tick refill_tick cmds s)) a b"

lemma or_insert_all:
  assumes "\<And>n. P (g n)"
  shows "\<forall>i p. m i = Some p \<longrightarrow> P p \<Longrightarrow> \<forall>i p. fold (\<lambda>n. or_insert (f n) (g n)) ns m i = Some p \<longrightarrow> P p"
proof (induction ns arbitrary: m)
  case (Cons n ns)
  have "\<forall>i p. or_insert (f n) (g n) m i = Some p \<longrightarrow> P p"
    using Cons.prems assms by (auto simp: or_insert_def split: option.split)
  then show ?case
    using Cons.IH by simp
qed simp

lemma manager_new [manager]:
  assumes "ci_num_inbound (pc_connection_info config) = 0" and "ci_num_outbound (pc_connection_info config) = 0"
  shows "manager_inv (pm_new config) 0 0"
proof -
  let ?P = "\<lambda>p. pe_state p = Idle \<and> pe_reputation p = 0"
  have new: "?P (peer_trusted addr)" "?P (peer_new addr)" for addr
    by (simp_all add: peer_trusted_def peer_new_def peer_with_state_def DEFAULT_REPUTATION_def)
  have idle: "?P p" if "pm_peers (pm_new config) i = Some p" for i p
  proof -
    have "\<forall>i p. pm_peers (pm_new config) i = Some p \<longrightarrow> ?P p"
      unfolding pm_new_def Let_def peers_manager.simps
      by (intro or_insert_all [where P = ?P] new) simp
    then show ?thesis
      using that by blast
  qed
  then have "\<not> is_in (pm_peers (pm_new config) i)" "\<not> is_out (pm_peers (pm_new config) i)" for i
    by (auto simp: is_in_def is_out_def split: option.split)
  moreover have "pred_option peer_wf (pm_peers (pm_new config) i)" for i
    using idle [of i] by (cases "pm_peers (pm_new config) i") (auto simp: peer_flags)
  ultimately show ?thesis
    using assms by (simp add: manager_inv_def slots_def count_def pm_new_def Let_def)
qed

lemma manager_fold: "(\<And>x s. manager_inv s a b \<Longrightarrow> manager_inv (f x s) a b) \<Longrightarrow> manager_inv s a b \<Longrightarrow> manager_inv (fold f xs s) a b"
  by (induction xs arbitrary: s) simp_all

lemma manager_run_command [manager]: "manager_inv s a b \<Longrightarrow> command_ok c s \<Longrightarrow> manager_inv (run_command iter now c s) a b"
  by (cases c) (simp_all add: run_command_def add_peer_def manager)

lemma manager_commands: "manager_inv s a b \<Longrightarrow> commands_ok iter now cmds s \<Longrightarrow> manager_inv (fold (run_command iter now) cmds s) a b"
  by (induction cmds arbitrary: s) (simp_all add: manager)

lemma manager_queue [simp]:
  "manager_inv (s\<lparr>pm_queued_actions := as\<rparr>) a b = manager_inv s a b" "manager_inv (s\<lparr>pm_ban_list := l\<rparr>) a b = manager_inv s a b"
  by (simp_all add: manager_inv_def slots_def)

lemma manager_poll [manager]:
  assumes "manager_inv s a b" and "commands_ok iter now cmds s"
  shows "manager_inv (snd (pm_poll iter iter_ips iter_bans now unban_tick refill_tick cmds s)) a b"
proof -
  have "manager_inv (fold unban_evicted is (s\<lparr>pm_ban_list := l\<rparr>)) a b" if "manager_inv s a b" for s "is" l
    using that by (intro manager_fold manager_unban_evicted) simp_all
  then show ?thesis
    using assms(1) manager_commands [OF assms]
    by (simp add: pm_poll_def Let_def manager_fill split_beta split: list.split)
qed

lemma peers_reach_inv: "peers_reach iter config s a b \<Longrightarrow> manager_inv s a b"
  by (induction rule: peers_reach.induct) (simp_all add: manager)

section \<open>The choice of a peer\<close>

definition peer_rank_le :: "peer \<Rightarrow> peer \<Rightarrow> bool" where
  "peer_rank_le q p \<longleftrightarrow>
     (pe_fork_id p \<noteq> None \<and> pe_fork_id q = None) \<or>
     ((pe_fork_id p = None) = (pe_fork_id q = None) \<and> pe_reputation q \<le> pe_reputation p)"

lemma peer_rank_refl: "peer_rank_le p p"
  by (auto simp: peer_rank_le_def)

lemma peer_rank_trans: "peer_rank_le r q \<Longrightarrow> peer_rank_le q p \<Longrightarrow> peer_rank_le r p"
  by (auto simp: peer_rank_le_def)

lemma better_peer_untrusted:
  "\<forall>e \<in> set (best # es). \<not> is_trusted (snd e) \<Longrightarrow> \<forall>e \<in> set (best # es). peer_rank_le (snd e) (snd (better_peer best es))"
proof (induction es arbitrary: best)
  case (Cons e es)
  define b where "b = (if peer_rank_le (snd e) (snd best) then best else e)"
  have b: "peer_rank_le (snd e) (snd b)" "peer_rank_le (snd best) (snd b)" "b \<in> {best, e}"
    by (auto simp: b_def peer_rank_refl) (auto simp: peer_rank_le_def)
  have step: "better_peer best (e # es) = better_peer b es"
    using Cons.prems by (auto simp: b_def peer_rank_le_def split: option.split)
  have "\<forall>x \<in> set (b # es). peer_rank_le (snd x) (snd (better_peer b es))"
    using Cons.prems b(3) by (intro Cons.IH) auto
  then show ?case
    unfolding step using b(1,2) peer_rank_trans by fastforce
qed (simp add: peer_rank_refl)

lemma better_peer_trusted:
  "\<exists>e \<in> set es. is_trusted (snd e) \<Longrightarrow> is_trusted (snd (better_peer best es))"
  by (induction es arbitrary: best) (auto split: option.split)

lemma best_unconnected_Some_choice:
  assumes "iterates iter" and best: "best_unconnected iter s = Some (i, p)"
  shows "is_trusted p \<or>
       (\<forall>j q. pm_peers s j = Some q \<and> eligible (pm_connect_trusted_nodes_only s) q \<longrightarrow>
          \<not> is_trusted q \<and> peer_rank_le q p)"
proof -
  let ?es = "filter (\<lambda>e. eligible (pm_connect_trusted_nodes_only s) (snd e))
      (List.map_filter (\<lambda>i. map_option (Pair i) (pm_peers s i)) (iter (pm_peers s)))"
  obtain e es where es: "?es = e # es" "(i, p) = (if is_trusted (snd e) then e else better_peer e es)"
    using best by (auto simp: best_unconnected_def simp del: filter_eq_Cons_iff split: list.splits)
  have set: "set (e # es) = {(i, p). pm_peers s i = Some p \<and> eligible (pm_connect_trusted_nodes_only s) p}"
    unfolding es(1) [symmetric] by (rule candidates_set [OF assms(1)])
  have "is_trusted p \<or> (\<forall>x \<in> set (e # es). \<not> is_trusted (snd x) \<and> peer_rank_le (snd x) p)"
  proof (cases "\<exists>x \<in> set (e # es). is_trusted (snd x)")
    case True
    then have "is_trusted (snd (i, p))"
      unfolding es(2) using better_peer_trusted [of es e] by auto
    then show ?thesis
      by simp
  next
    case False
    then have "p = snd (better_peer e es)"
      using es(2) by (simp add: prod_eq_iff)
    then show ?thesis
      using better_peer_untrusted [of e es] False by blast
  qed
  then show ?thesis
    unfolding set by auto
qed

text \<open>C17. The manager dials the best peer, in whatever order the hash map lists its entries. There is no
  choice exactly when no peer is eligible, that is idle, not banned and, where only trusted nodes are
  dialled, trusted. The chosen peer is eligible; it is trusted if any eligible peer is, and otherwise
  no eligible peer ranks above it: a peer with a discovered fork id ranks above one without, and
  among equals the higher reputation wins.
\<close>

theorem best_unconnected_choice:
  assumes "iterates iter"
  shows "(best_unconnected iter s = None) =
      (\<forall>i p. pm_peers s i = Some p \<longrightarrow> \<not> eligible (pm_connect_trusted_nodes_only s) p) \<and>
    (\<forall>i p. best_unconnected iter s = Some (i, p) \<longrightarrow>
      pm_peers s i = Some p \<and> eligible (pm_connect_trusted_nodes_only s) p \<and>
      (is_trusted p \<or>
       (\<forall>j q. pm_peers s j = Some q \<and> eligible (pm_connect_trusted_nodes_only s) q \<longrightarrow>
          \<not> is_trusted q \<and> peer_rank_le q p)))"
  using best_unconnected_None [OF assms] best_unconnected_Some best_unconnected_Some_choice [OF assms] by blast

section \<open>Correctness\<close>


text \<open>C24. In every reachable state a reputation is in the range of its 32-bit type, and a peer with an
  open connection is not banned by its reputation: a peer that loses its reputation is disconnected
  in the same step.
\<close>

theorem peers_well_typed:
  assumes "peers_reach iter config s pending overtaken" and "pm_peers s i = Some p"
  shows "- (2 ^ 31) \<le> pe_reputation p \<and> pe_reputation p < 2 ^ 31 \<and>
    (is_connected (pe_state p) \<longrightarrow> \<not> peer_is_banned p)"
  using manager_wf [OF peers_reach_inv [OF assms(1)] assms(2)] by (simp add: peer_wf_def)

text \<open>C15. Filling the outbound slots ends, dials each of a list of distinct eligible peers exactly once,
  in that order, moves precisely those to the outgoing state and counts them; and it leaves nothing
  undone: afterwards there is no free slot or no eligible peer.
\<close>

theorem fill_outbound_slots_complete:
  assumes "iterates iter"
  shows "\<exists>is. distinct is \<and>
    (\<forall>i \<in> set is. \<exists>p. pm_peers s i = Some p \<and> eligible (pm_connect_trusted_nodes_only s) p) \<and>
    fill_outbound_slots iter s =
      s\<lparr>pm_peers := (\<lambda>i. if i \<in> set is then map_option (\<lambda>p. p\<lparr>pe_state := State_Out\<rparr>) (pm_peers s i) else pm_peers s i),
        pm_connection_info := (pm_connection_info s)
          \<lparr>ci_num_outbound := ci_num_outbound (pm_connection_info s) + of_nat (length is)\<rparr>,
        pm_queued_actions := pm_queued_actions s @ map (\<lambda>i. Connect i (pe_addr (the (pm_peers s i)))) is\<rparr> \<and>
    (\<not> has_out_capacity (pm_connection_info (fill_outbound_slots iter s)) \<or>
     (\<forall>i p. pm_peers (fill_outbound_slots iter s) i = Some p \<longrightarrow> \<not> eligible (pm_connect_trusted_nodes_only s) p))"
proof -
  obtain "is" where "is": "fill_post s is (fill_outbound_slots iter s)"
    "\<not> has_out_capacity (pm_connection_info (fill_outbound_slots iter s)) \<or>
      best_unconnected iter (fill_outbound_slots iter s) = None"
    using fill_outbound_slots_post by blast
  have "pm_connect_trusted_nodes_only (fill_outbound_slots iter s) = pm_connect_trusted_nodes_only s"
    using "is"(1) by (simp add: fill_post_def)
  then show ?thesis
    using "is" unfolding best_unconnected_None [OF assms] fill_post_def connected_def by (intro exI [of _ "is"]) simp
qed

lemma fill_outbound_slots_ban_list: "pm_ban_list (fill_outbound_slots iter s) = pm_ban_list s"
  using fill_outbound_slots_post [of s iter] by (auto simp: fill_post_def)

lemma fill_outbound_slots_ineligible:
  assumes "\<not> (\<exists>p. pm_peers s i = Some p \<and> eligible (pm_connect_trusted_nodes_only s) p)"
  shows "pm_peers (fill_outbound_slots iter s) i = pm_peers s i"
    and "Connect i addr \<in> set (pm_queued_actions (fill_outbound_slots iter s)) \<longleftrightarrow> Connect i addr \<in> set (pm_queued_actions s)"
proof -
  obtain "is" where "is": "fill_post s is (fill_outbound_slots iter s)"
    using fill_outbound_slots_post by blast
  then have "i \<notin> set is"
    using assms by (auto simp: fill_post_def)
  then show "pm_peers (fill_outbound_slots iter s) i = pm_peers s i"
    "Connect i addr \<in> set (pm_queued_actions (fill_outbound_slots iter s)) \<longleftrightarrow> Connect i addr \<in> set (pm_queued_actions s)"
    using "is" by (auto simp: fill_post_def connected_def)
qed

lemma backoff_reputation_banned: "r \<le> 0 \<Longrightarrow> is_banned_reputation (saturating_add_i32 r BACKOFF_REPUTATION_CHANGE)"
  by (simp add: is_banned_reputation_def saturating_add_i32_def BACKOFF_REPUTATION_CHANGE_def BANNED_REPUTATION_def
      REPUTATION_UNIT_def)


lemma incoming_exhausted:
  assumes "\<not> is_banned_ip (pm_ban_list s) ip"
    and "n = unat (ci_max_inbound (pm_connection_info s)) - unat (ci_num_inbound (pm_connection_info s))"
  shows "let s' = ((\<lambda>s. on_already_connected Incoming (snd (on_incoming_pending_session ip s))) ^^ n) s
    in pm_peers s' = pm_peers s \<and>
       fst (on_incoming_pending_session ip s') = Inl (ExceedsLimit (ci_max_inbound (pm_connection_info s)))"
  using assms
proof (induction n arbitrary: s)
  case 0
  then show ?case
    by (simp add: on_incoming_pending_session_def has_in_capacity_def word_less_nat_alt)
next
  case (Suc n)
  let ?t = "on_already_connected Incoming (snd (on_incoming_pending_session ip s))"
  have cap: "ci_num_inbound (pm_connection_info s) < ci_max_inbound (pm_connection_info s)"
    using Suc.prems(2) by (simp add: word_less_nat_alt)
  then have t: "?t = s\<lparr>pm_connection_info := inc_in (pm_connection_info s)\<rparr>"
    using Suc.prems(1) by (simp add: on_already_connected_def on_incoming_pending_session_def has_in_capacity_def)
  have "n = unat (ci_max_inbound (pm_connection_info ?t)) - unat (ci_num_inbound (pm_connection_info ?t))"
    using Suc.prems(2) unat_incr [OF cap] by (simp add: t inc_in_def)
  then show ?case
    using Suc.IH [of ?t] Suc.prems(1) by (simp add: t inc_in_def funpow_Suc_right del: funpow.simps)
qed

text \<open>C37. Three ways in which a slot is never given back. A second connection from a peer that is
  connected already keeps its incoming slot, so that as many of them as there are free slots make the node
  refuse every later connection, while the peers stay as they are. The session of a refused peer keeps its
  slot when it is closed, if the peer is idle or unknown. And a peer that is removed while it is
  being disconnected keeps its slot when the connection closes.
\<close>

theorem slots_not_released:
  "(\<not> is_banned_ip (pm_ban_list s) ip \<and> n = unat (ci_max_inbound (pm_connection_info s)) - unat (ci_num_inbound (pm_connection_info s)) \<longrightarrow>
     (let s' = ((\<lambda>s. on_already_connected Incoming (snd (on_incoming_pending_session ip s))) ^^ n) s
      in pm_peers s' = pm_peers s \<and>
         fst (on_incoming_pending_session ip s') = Inl (ExceedsLimit (ci_max_inbound (pm_connection_info s))))) \<and>
   (refuses s i \<and> (pm_peers s i = None \<or> (\<exists>p. pm_peers s i = Some p \<and> pe_state p = Idle \<and> \<not> pe_remove_after_disconnect p)) \<longrightarrow>
     pm_connection_info (on_active_session_gracefully_closed iter i (on_active_inbound_session i addr s)) = pm_connection_info s) \<and>
   (\<forall>p. pm_peers s i = Some p \<and> \<not> is_trusted p \<and> pe_state p \<in> {DisconnectingIn, DisconnectingOut} \<longrightarrow>
     pm_connection_info (on_active_session_gracefully_closed iter i (remove_peer i s)) = pm_connection_info s)"
  using incoming_exhausted [of s ip n]
  by (auto simp: on_active_session_gracefully_closed_def on_active_inbound_session_def remove_peer_def refuses_def
      decr_state_def is_connected_def Let_def)

section \<open>Witnesses\<close>

definition example_addr :: socket_addr where
  "example_addr = (V4 [1, 2, 3, 4], 30303)"

definition example_peers_config :: peers_config where
  "example_peers_config =
     \<lparr>pc_trusted_nodes = [], pc_connect_trusted_nodes_only = False,
      pc_basic_nodes = [\<lparr>nr_address = V4 [1, 2, 3, 4], nr_tcp_port = 30303, nr_udp_port = 30303, nr_id = 1\<rparr>],
      pc_ban_duration = 10, pc_ban_list = ban_list_default,
      pc_connection_info = \<lparr>ci_num_outbound = 0, ci_num_inbound = 0, ci_max_outbound = 1, ci_max_inbound = 1\<rparr>,
      pc_reputation_weights = weights_default,
      pc_backoff_durations = \<lparr>bd_low = 1, bd_medium = 2, bd_high = 3\<rparr>\<rparr>"

definition example_new :: peers_manager where
  "example_new = pm_new example_peers_config"

definition example_accepted :: peers_manager where
  "example_accepted = snd (on_incoming_pending_session (fst example_addr) example_new)"

definition example_active :: peers_manager where
  "example_active = on_active_inbound_session 7 example_addr example_accepted"

lemmas example_defs = example_addr_def example_peers_config_def example_new_def example_accepted_def example_active_def
  pm_new_def or_insert_def on_incoming_pending_session_def on_active_inbound_session_def is_banned_ip_def is_banned_peer_def
  ban_list_default_def has_in_capacity_def inc_in_def peer_new_def peer_with_state_def DEFAULT_REPUTATION_def Let_def

definition ordered :: "(peer_id \<rightharpoonup> peer) \<Rightarrow> peer_id list" where
  "ordered m = sorted_list_of_set (dom m)"

lemma iterates_ordered: "iterates ordered"
  by (simp add: iterates_def ordered_def)

lemma example_reach: "peers_reach iter example_peers_config example_active 0 0"
proof -
  have "peers_reach iter example_peers_config example_new 0 0"
    unfolding example_new_def by (rule peers_reach.started) (simp_all add: example_peers_config_def)
  moreover have "on_incoming_pending_session (fst example_addr) example_new = (Inr (), example_accepted)"
    by (simp add: example_defs)
  ultimately have "peers_reach iter example_peers_config example_accepted (Suc 0) 0"
    by (rule peers_reach.accepted)
  moreover have "\<not> refuses example_accepted 7" "\<not> is_in (pm_peers example_accepted 7)" "\<not> is_out (pm_peers example_accepted 7)"
    by (simp_all add: refuses_def is_in_def is_out_def example_defs)
  ultimately show ?thesis
    using peers_reach.activated [of iter example_peers_config example_accepted 0 0 7 example_addr]
    by (simp add: example_active_def)
qed


theorem peers_well_typed_witness:
  "\<exists>p. pm_peers example_active 7 = Some p \<and> is_connected (pe_state p) \<and> \<not> peer_is_banned p \<and> pe_reputation p < 2 ^ 31"
proof -
  have p: "pm_peers example_active 7 = Some (peer_with_state example_addr State_In)"
    by (simp add: example_defs)
  show ?thesis
    using p peers_well_typed [OF example_reach [of ordered] p] by (simp add: is_connected_def peer_with_state_def)
qed

theorem fill_outbound_slots_complete_witness:
  "iterates ordered \<and>
   (\<exists>is. distinct is \<and> length is = unat (ci_num_outbound (pm_connection_info (fill_outbound_slots ordered example_new))) \<and>
      pm_queued_actions (fill_outbound_slots ordered example_new) = map (\<lambda>i. Connect i (pe_addr (the (pm_peers example_new i)))) is)"
proof -
  have new: "ci_num_outbound (pm_connection_info example_new) = 0" "pm_queued_actions example_new = []"
    "{i. pm_peers example_new i \<noteq> None} = {1}"
    by (auto simp: example_defs)
  obtain "is" where "is": "distinct is" "\<forall>i \<in> set is. pm_peers example_new i \<noteq> None"
    "ci_num_outbound (pm_connection_info (fill_outbound_slots ordered example_new)) = of_nat (length is)"
    "pm_queued_actions (fill_outbound_slots ordered example_new) = map (\<lambda>i. Connect i (pe_addr (the (pm_peers example_new i)))) is"
    using fill_outbound_slots_complete [OF iterates_ordered, of example_new] new by fastforce
  have "set is \<subseteq> {1}"
    using "is"(2) new(3) by auto
  then have "length is \<le> 1"
    using card_mono [of "{1}" "set is"] distinct_card [OF "is"(1)] by simp
  then have "unat (of_nat (length is) :: u64) = length is"
    by (simp add: unat_of_nat)
  then show ?thesis
    using "is" \<open>length is \<le> 1\<close> iterates_ordered by (intro conjI exI [of _ "is"]) simp_all
qed

theorem best_unconnected_choice_witness:
  "\<exists>i p. best_unconnected ordered example_new = Some (i, p) \<and> i = 1 \<and> eligible False p"
proof -
  have peers: "pm_peers example_new = [1 \<mapsto> peer_new example_addr]"
    by (simp add: example_defs)
  have t: "pm_connect_trusted_nodes_only example_new = False"
    by (simp add: example_defs)
  have e: "eligible False (peer_new example_addr)"
    by (simp add: eligible_def example_defs peer_flags)
  note choice = best_unconnected_choice [OF iterates_ordered, of example_new, unfolded t]
  obtain i p where b: "best_unconnected ordered example_new = Some (i, p)"
    using conjunct1 [OF choice] e peers by (cases "best_unconnected ordered example_new") auto
  then have "pm_peers example_new i = Some p" "eligible False p"
    using conjunct2 [OF choice] by blast+
  then show ?thesis
    using b peers by (auto split: if_splits)
qed


theorem slots_not_released_witness:
  "fst (on_incoming_pending_session (V4 [1, 2, 3, 4])
     (on_already_connected Incoming (snd (on_incoming_pending_session (V4 [1, 2, 3, 4]) example_new)))) = Inl (ExceedsLimit 1)"
proof -
  have "\<not> is_banned_ip (pm_ban_list example_new) (V4 [1, 2, 3, 4])"
    "1 = unat (ci_max_inbound (pm_connection_info example_new)) - unat (ci_num_inbound (pm_connection_info example_new))"
    "ci_max_inbound (pm_connection_info example_new) = 1"
    by (simp_all add: example_defs)
  then show ?thesis
    using slots_not_released [of example_new "V4 [1, 2, 3, 4]" 1 1 ordered example_addr] by (simp add: Let_def)
qed

end
