(* ===== verification/Substate.thy ===== *)
theory Substate
  imports Blocks BTree
begin

text \<open>
  The state of a side chain: the result of executing a block, \<^verbatim>\<open>execution_result.rs\<close> of
  \<^verbatim>\<open>crates/storage/provider\<close>, and \<^verbatim>\<open>SubStateData\<close> of \<^verbatim>\<open>crates/executor/src/substate.rs\<close>, which keeps in
  memory what the blocks of the chain changed. Bytecode is the third-party type of the interpreter and is never
  inspected: it is a byte string here. \<^term>\<open>None\<close> is a panic.
\<close>

section \<open>Results of an execution\<close>

record log =
  lg_address :: h160
  lg_topics :: "h256 list"
  lg_data :: bytes

record receipt =
  rc_tx_type :: TxType
  rc_success :: bool
  rc_cumulative_gas_used :: u64
  rc_bloom :: bytes
  rc_logs :: "log list"

datatype account_info_change_set =
    Created account
  | Destroyed account
  | Changed account account
  | NoChange bool

text \<open>\<^term>\<open>Changed new old\<close> keeps the fields in the order of the source.\<close>

definition account_info_change_set_new :: "account option \<Rightarrow> account option \<Rightarrow> account_info_change_set" where
  "account_info_change_set_new old new =
     (case (old, new) of
        (Some old, Some new) \<Rightarrow> if new \<noteq> old then Changed new old else NoChange True
      | (None, Some new) \<Rightarrow> Created new
      | (Some old, None) \<Rightarrow> Destroyed old
      | (None, None) \<Rightarrow> NoChange False)"

record account_change_set =
  ac_account :: account_info_change_set
  ac_storage :: "(u256, u256 \<times> u256) btree"
  ac_wipe_storage :: bool

record transaction_change_set =
  tc_receipt :: receipt
  tc_changeset :: "(h160, account_change_set) btree"
  tc_new_bytecodes :: "(h256, bytes) btree"

record execution_result =
  er_tx_changesets :: "transaction_change_set list"
  er_block_changesets :: "(h160, account_info_change_set) btree"

section \<open>The substate\<close>

record account_sub_state =
  as_info :: account
  as_storage_is_clear :: "u32 option"
  as_storage :: "h256 \<rightharpoonup> u256"

record sub_state_data =
  sd_accounts :: "h160 \<rightharpoonup> account_sub_state"
  sd_bytecodes :: "h256 \<rightharpoonup> u32 \<times> bytes"

definition account_sub_state_default :: account_sub_state where
  "account_sub_state_default = \<lparr>as_info = default_account, as_storage_is_clear = None, as_storage = Map.empty\<rparr>"

definition sub_state_default :: sub_state_data where
  "sub_state_default = \<lparr>sd_accounts = Map.empty, sd_bytecodes = Map.empty\<rparr>"

definition inc_storage_counter :: "account_sub_state \<Rightarrow> account_sub_state" where
  "inc_storage_counter a =
     a\<lparr>as_storage_is_clear := Some ((case as_storage_is_clear a of Some c \<Rightarrow> c | None \<Rightarrow> 0) + 1)\<rparr>"

definition decr_storage_counter :: "account_sub_state \<Rightarrow> bool \<times> account_sub_state" where
  "decr_storage_counter a =
     (case as_storage_is_clear a of
        None \<Rightarrow> (False, a)
      | Some cnt \<Rightarrow> if cnt = 1 then (True, a\<lparr>as_storage_is_clear := None\<rparr>) else (False, a))"

definition created_account :: "account \<Rightarrow> account_sub_state" where
  "created_account info = \<lparr>as_info = info, as_storage_is_clear = Some 1, as_storage = Map.empty\<rparr>"

definition ask_provider :: "account_sub_state \<Rightarrow> bool" where
  "ask_provider a \<longleftrightarrow> as_storage_is_clear a = None"

definition or_default :: "h160 \<Rightarrow> sub_state_data \<Rightarrow> account_sub_state" where
  "or_default address s =
     (case sd_accounts s address of Some a \<Rightarrow> a | None \<Rightarrow> account_sub_state_default)"

definition set_account :: "h160 \<Rightarrow> account_sub_state \<Rightarrow> sub_state_data \<Rightarrow> sub_state_data" where
  "set_account address a s = s\<lparr>sd_accounts := (sd_accounts s)(address \<mapsto> a)\<rparr>"

definition apply_account :: "h160 \<Rightarrow> account_info_change_set \<Rightarrow> sub_state_data \<Rightarrow> sub_state_data" where
  "apply_account address change s =
     (case change of
        Created new \<Rightarrow>
          (case sd_accounts s address of
             None \<Rightarrow> set_account address (created_account new) s
           | Some a \<Rightarrow> set_account address ((inc_storage_counter a)\<lparr>as_info := new\<rparr>) s)
      | Destroyed _ \<Rightarrow>
          set_account address
            ((inc_storage_counter (or_default address s))\<lparr>as_info := default_account, as_storage := Map.empty\<rparr>) s
      | Changed new old \<Rightarrow> set_account address ((or_default address s)\<lparr>as_info := old\<rparr>) s
      | NoChange is_empty \<Rightarrow> if is_empty then set_account address (or_default address s) s else s)"

definition apply_storage :: "h160 \<Rightarrow> (u256, u256 \<times> u256) btree \<Rightarrow> sub_state_data \<Rightarrow> sub_state_data" where
  "apply_storage address storage s =
     (case sd_accounts s address of
        None \<Rightarrow> s
      | Some a \<Rightarrow>
          set_account address
            (a\<lparr>as_storage := fold (\<lambda>(key, _, new) m. m(to_be_bytes key \<mapsto> new)) storage (as_storage a)\<rparr>) s)"

definition revert_storage :: "h160 \<Rightarrow> (u256, u256 \<times> u256) btree \<Rightarrow> sub_state_data \<Rightarrow> sub_state_data" where
  "revert_storage address storage s =
     (case sd_accounts s address of
        None \<Rightarrow> s
      | Some a \<Rightarrow>
          set_account address
            (a\<lparr>as_storage := fold (\<lambda>(key, old, _) m. m(to_be_bytes key \<mapsto> old)) storage (as_storage a)\<rparr>) s)"

definition revert_account :: "h160 \<Rightarrow> account_info_change_set \<Rightarrow> sub_state_data \<Rightarrow> sub_state_data option" where
  "revert_account address change s =
     (case change of
        Created _ \<Rightarrow>
          (case sd_accounts s address of
             None \<Rightarrow> None
           | Some val \<Rightarrow>
               (let (cleared, val) = decr_storage_counter val
                in if cleared then Some (s\<lparr>sd_accounts := (sd_accounts s)(address := None)\<rparr>)
                   else Some (set_account address (val\<lparr>as_info := default_account, as_storage := Map.empty\<rparr>) s)))
      | Destroyed old \<Rightarrow>
          (case sd_accounts s address of
             None \<Rightarrow> None
           | Some val \<Rightarrow> Some (set_account address ((snd (decr_storage_counter val))\<lparr>as_info := old\<rparr>) s))
      | Changed new old \<Rightarrow> Some (set_account address ((or_default address s)\<lparr>as_info := old\<rparr>) s)
      | NoChange _ \<Rightarrow> Some s)"

text \<open>The number of references of a bytecode.\<close>

definition apply_bytecode :: "h256 \<times> bytes \<Rightarrow> sub_state_data \<Rightarrow> sub_state_data" where
  "apply_bytecode e s =
     (let (hash, bytecode) = e;
          (cnt, code) = (case sd_bytecodes s hash of Some c \<Rightarrow> c | None \<Rightarrow> (0, bytecode))
      in s\<lparr>sd_bytecodes := (sd_bytecodes s)(hash \<mapsto> (cnt + 1, code))\<rparr>)"

definition revert_bytecode :: "h256 \<Rightarrow> sub_state_data \<Rightarrow> sub_state_data option" where
  "revert_bytecode hash s =
     (case sd_bytecodes s hash of
        None \<Rightarrow> None
      | Some (cnt, code) \<Rightarrow>
          (let cnt = cnt - 1
           in if cnt = 0 then Some (s\<lparr>sd_bytecodes := (sd_bytecodes s)(hash := None)\<rparr>)
              else Some (s\<lparr>sd_bytecodes := (sd_bytecodes s)(hash \<mapsto> (cnt, code))\<rparr>)))"

definition apply_tx :: "transaction_change_set \<Rightarrow> sub_state_data \<Rightarrow> sub_state_data" where
  "apply_tx tx s =
     fold apply_bytecode (tc_new_bytecodes tx)
       (fold (\<lambda>(address, c) s. apply_storage address (ac_storage c) (apply_account address (ac_account c) s))
          (tc_changeset tx) s)"

definition apply_one :: "execution_result \<Rightarrow> sub_state_data \<Rightarrow> sub_state_data" where
  "apply_one r s =
     fold (\<lambda>(address, c). apply_account address c) (er_block_changesets r)
       (fold apply_tx (er_tx_changesets r) s)"

definition substate_apply :: "execution_result list \<Rightarrow> sub_state_data \<Rightarrow> sub_state_data" where
  "substate_apply changesets s = fold apply_one changesets s"

text \<open>A loop whose body may panic.\<close>

fun fold_option :: "('a \<Rightarrow> 's \<Rightarrow> 's option) \<Rightarrow> 'a list \<Rightarrow> 's \<Rightarrow> 's option" where
  "fold_option f [] s = Some s"
| "fold_option f (x # xs) s = Option.bind (f x s) (fold_option f xs)"

definition revert_tx :: "transaction_change_set \<Rightarrow> sub_state_data \<Rightarrow> sub_state_data option" where
  "revert_tx tx s =
     Option.bind (fold_option (\<lambda>(hash, _). revert_bytecode hash) (tc_new_bytecodes tx) s)
       (fold_option
          (\<lambda>(address, c) s. map_option (revert_storage address (ac_storage c)) (revert_account address (ac_account c) s))
          (tc_changeset tx))"

text \<open>The changesets of a block come last first, the transactions of a block in their order.\<close>

definition revert_one :: "execution_result \<Rightarrow> sub_state_data \<Rightarrow> sub_state_data option" where
  "revert_one r s =
     Option.bind (fold_option (\<lambda>(address, c). revert_account address c) (er_block_changesets r) s)
       (fold_option revert_tx (er_tx_changesets r))"

definition revert :: "execution_result list \<Rightarrow> sub_state_data \<Rightarrow> sub_state_data option" where
  "revert changesets s = fold_option revert_one (rev changesets) s"

section \<open>Reading through the substate\<close>

text \<open>The state provider below the substate is a parameter; its answers come with its errors \<open>'e\<close>.\<close>

record 'e state_provider =
  sp_basic_account :: "h160 \<Rightarrow> 'e + account option"
  sp_storage :: "h160 \<Rightarrow> h256 \<Rightarrow> 'e + u256 option"
  sp_bytecode_by_hash :: "h256 \<Rightarrow> 'e + bytes option"

definition substate_basic_account :: "'e state_provider \<Rightarrow> sub_state_data \<Rightarrow> h160 \<Rightarrow> 'e + account option" where
  "substate_basic_account provider s address =
     (case sd_accounts s address of Some a \<Rightarrow> Inr (Some (as_info a)) | None \<Rightarrow> sp_basic_account provider address)"

definition substate_storage :: "'e state_provider \<Rightarrow> sub_state_data \<Rightarrow> h160 \<Rightarrow> h256 \<Rightarrow> 'e + u256 option" where
  "substate_storage provider s address key =
     (case sd_accounts s address of
        Some a \<Rightarrow>
          (case as_storage a key of
             Some v \<Rightarrow> Inr (Some v)
           | None \<Rightarrow> if \<not> ask_provider a then Inr (Some 0) else sp_storage provider address key)
      | None \<Rightarrow> sp_storage provider address key)"

definition substate_bytecode_by_hash :: "'e state_provider \<Rightarrow> sub_state_data \<Rightarrow> h256 \<Rightarrow> 'e + bytes option" where
  "substate_bytecode_by_hash provider s hash =
     (case sd_bytecodes s hash of Some (_, code) \<Rightarrow> Inr (Some code) | None \<Rightarrow> sp_bytecode_by_hash provider hash)"

text \<open>Block hashes of the side chain hide the ones of the canonical chain; \<^term>\<open>Inl ()\<close> is the error of an unknown number.\<close>

definition substate_block_hash :: "(u64, h256) btree \<Rightarrow> (u64, h256) btree \<Rightarrow> u256 \<Rightarrow> unit + h256 option" where
  "substate_block_hash sidechain canonical number =
     (let block_number = ucast number
      in case btree_get sidechain block_number of
           Some h \<Rightarrow> Inr (Some h)
         | None \<Rightarrow> (case btree_get canonical block_number of Some h \<Rightarrow> Inr (Some h) | None \<Rightarrow> Inl ()))"

section \<open>Properties\<close>

definition tx_change :: "receipt \<Rightarrow> h160 \<Rightarrow> account_info_change_set \<Rightarrow> transaction_change_set" where
  "tx_change receipt address change =
     \<lparr>tc_receipt = receipt,
      tc_changeset = [(address, \<lparr>ac_account = change, ac_storage = [], ac_wipe_storage = False\<rparr>)],
      tc_new_bytecodes = []\<rparr>"

text \<open>The substate does not follow the state of the side chain. After a block whose transaction changed an
  account, the account reads as it was before the change, because \<^verbatim>\<open>apply_account\<close> stores the old value. And
  a block that creates an account and changes it in a second transaction is not undone: the transactions of
  a block are reverted in the order of their execution, so that the account is removed first and then comes back
  with the value it had between the two transactions. An account that was destroyed and created in the same
  chain is not removed either, since the counter is not decremented.\<close>

theorem substate_loses_changes:
  "substate_basic_account provider
     (apply_one \<lparr>er_tx_changesets = [tx_change rc a (Changed new old)], er_block_changesets = []\<rparr> s) a = Inr (Some old) \<and>
   (let r = \<lparr>er_tx_changesets = [tx_change rc a (Created acc), tx_change rc a (Changed new acc)], er_block_changesets = []\<rparr>
    in \<exists>s'. revert [r] (substate_apply [r] sub_state_default) = Some s' \<and> substate_basic_account provider s' a = Inr (Some acc)) \<and>
   (let rs = [\<lparr>er_tx_changesets = [tx_change rc a (Created acc)], er_block_changesets = []\<rparr>,
              \<lparr>er_tx_changesets = [tx_change rc a (Destroyed acc)], er_block_changesets = []\<rparr>]
    in \<exists>s'. revert rs (substate_apply rs sub_state_default) = Some s' \<and>
         substate_basic_account provider s' a = Inr (Some default_account))"
  by (simp add: Let_def tx_change_def substate_basic_account_def revert_def revert_one_def revert_tx_def substate_apply_def
      apply_one_def apply_tx_def apply_account_def apply_storage_def revert_account_def revert_storage_def set_account_def
      created_account_def decr_storage_counter_def inc_storage_counter_def or_default_def sub_state_default_def
      split: option.split)

end
