(* ===== verification/BlockIndices.thy ===== *)
theory BlockIndices
  imports Substate
begin

text \<open>
  The chains of the blockchain tree and the indices over them: \<^verbatim>\<open>chain.rs\<close> and \<^verbatim>\<open>block_indices.rs\<close> of
  \<^verbatim>\<open>crates/executor/src/blockchain_tree\<close>. The trait objects and type parameters of the sources, which are
  the consensus rules, the executor of a block and the database, are the fields of a record of parameters.
  \<^term>\<open>None\<close> is a panic.
\<close>

section \<open>Parameters\<close>

text \<open>
  \<open>'db\<close> is a state of the database, \<open>'sp\<close> a view of the state of the canonical chain after some block, and \<open>'e\<close>
  the type of their errors.
\<close>

record ('db, 'sp, 'e) externals =
  ex_validate_header :: "sealed_header \<Rightarrow> u256 \<Rightarrow> 'e + unit"
  ex_pre_validate_header :: "sealed_header \<Rightarrow> sealed_header \<Rightarrow> 'e + unit"
  ex_pre_validate_block :: "sealed_block \<Rightarrow> 'e + unit"
  ex_execute :: "sub_state_data \<Rightarrow> 'sp \<Rightarrow> (u64, h256) btree \<Rightarrow> (u64, h256) btree \<Rightarrow> block \<Rightarrow> u256 \<Rightarrow> h160 list \<Rightarrow>
    'e + execution_result"
  db_header :: "'db \<Rightarrow> h256 \<Rightarrow> 'e + header option"
  db_latest :: "'db \<Rightarrow> 'e + 'sp"
  db_history_by_block_number :: "'db \<Rightarrow> u64 \<Rightarrow> 'e + 'sp"
  db_walk_back :: "'db \<Rightarrow> 'e + (u64 \<times> h256) list"
  db_begin :: "'db \<Rightarrow> 'e + 'db"
  db_insert_block :: "sealed_block_with_senders \<Rightarrow> execution_result \<Rightarrow> 'db \<Rightarrow> 'e + 'db"
  db_take_block_and_execution_range :: "u64 \<Rightarrow> 'db \<Rightarrow> 'e + (sealed_block_with_senders \<times> execution_result) list \<times> 'db"
  db_update_pipeline_stages :: "u64 \<Rightarrow> 'db \<Rightarrow> 'e + 'db"
  db_commit :: "'db \<Rightarrow> 'e + 'db"

datatype 'e tree_error =
    External 'e
  | SenderRecoveryError
  | BlockChainIdConsistency u64
  | AppendChainDoesntConnect "u64 \<times> h256" "u64 \<times> h256"
  | CanonicalChain h256
  | PendingBlockIsFinalized h256 u64 u64
  | PendingBlockIsInFuture h256 u64 u64
  | BlockNumberNotFoundInChain u64
  | BlockHashNotFoundInChain h256
  | CanonicalRevert 'e
  | CanonicalCommit 'e
  | PipelineStatusUpdate 'e

definition map_err :: "('e \<Rightarrow> 'f) \<Rightarrow> 'e + 'a \<Rightarrow> 'f + 'a" where
  "map_err f r = (case r of Inl e \<Rightarrow> Inl (f e) | Inr x \<Rightarrow> Inr x)"

section \<open>Chains\<close>

abbreviation bk_header :: "sealed_block_with_senders \<Rightarrow> sealed_header" where
  "bk_header b \<equiv> sb_header (ss_block b)"

abbreviation bk_number :: "sealed_block_with_senders \<Rightarrow> u64" where
  "bk_number b \<equiv> h_number (sh_header (sb_header (ss_block b)))"

abbreviation bk_parent_hash :: "sealed_block_with_senders \<Rightarrow> h256" where
  "bk_parent_hash b \<equiv> h_parent_hash (sh_header (sb_header (ss_block b)))"

abbreviation bk_hash :: "sealed_block_with_senders \<Rightarrow> h256" where
  "bk_hash b \<equiv> sh_hash (sb_header (ss_block b))"

record chain =
  ch_substate :: sub_state_data
  ch_changesets :: "execution_result list"
  ch_blocks :: "(u64, sealed_block_with_senders) btree"

record fork_block =
  fb_number :: u64
  fb_hash :: h256

definition chain_first :: "chain \<Rightarrow> sealed_block_with_senders option" where
  "chain_first c = (case ch_blocks c of [] \<Rightarrow> None | e # _ \<Rightarrow> Some (snd e))"

definition chain_last :: "chain \<Rightarrow> sealed_block_with_senders option" where
  "chain_last c = (if ch_blocks c = [] then None else Some (snd (last (ch_blocks c))))"

definition chain_fork_block :: "chain \<Rightarrow> fork_block option" where
  "chain_fork_block c =
     map_option (\<lambda>tip. \<lparr>fb_number = saturating_sub (bk_number tip) 1, fb_hash = bk_parent_hash tip\<rparr>) (chain_first c)"

definition chain_new :: "(sealed_block_with_senders \<times> execution_result) list \<Rightarrow> chain" where
  "chain_new bs =
     \<lparr>ch_substate = substate_apply (map snd bs) sub_state_default, ch_changesets = map snd bs,
      ch_blocks = fold (\<lambda>b. btree_insert (bk_number b) b) (map fst bs) []\<rparr>"

definition validate_and_execute ::
    "('db, 'sp, 'e) externals \<Rightarrow> sealed_block_with_senders \<Rightarrow> sealed_header \<Rightarrow> sub_state_data \<Rightarrow> 'sp \<Rightarrow>
     (u64, h256) btree \<Rightarrow> (u64, h256) btree \<Rightarrow> 'e tree_error + execution_result" where
  "validate_and_execute ext b parent_block substate provider side canonical =
     and_then (map_err External (ex_validate_header ext (bk_header b) (- 1))) (\<lambda>_.
     and_then (map_err External (ex_pre_validate_header ext (bk_header b) parent_block)) (\<lambda>_.
     and_then (map_err External (ex_pre_validate_block ext (ss_block b))) (\<lambda>_.
       map_err External
         (ex_execute ext substate provider side canonical (block_unseal (ss_block b)) (- 1) (ss_senders b)))))"

definition new_canonical_fork ::
    "('db, 'sp, 'e) externals \<Rightarrow> sealed_block_with_senders \<Rightarrow> sealed_header \<Rightarrow> (u64, h256) btree \<Rightarrow> 'sp \<Rightarrow>
     'e tree_error + chain" where
  "new_canonical_fork ext b parent_header canonical provider =
     and_then (validate_and_execute ext b parent_header sub_state_default provider [] canonical) (\<lambda>changeset.
       Inr (chain_new [(b, changeset)]))"

text \<open>The subtraction of lengths wraps around, and the slice is out of range then.\<close>

definition new_chain_fork ::
    "('db, 'sp, 'e) externals \<Rightarrow> chain \<Rightarrow> sealed_block_with_senders \<Rightarrow> (u64, h256) btree \<Rightarrow> (u64, h256) btree \<Rightarrow> 'sp \<Rightarrow>
     ('e tree_error + chain) option" where
  "new_chain_fork ext c b side canonical provider =
     (let parent_number = bk_number b - 1
      in case btree_get (ch_blocks c) parent_number of
           None \<Rightarrow> Some (Inl (BlockNumberNotFoundInChain parent_number))
         | Some parent \<Rightarrow>
             Option.bind (chain_last c) (\<lambda>tip.
               let reverted = unat (bk_number tip - bk_number parent) in
               if reverted > length (ch_changesets c) then None
               else
                 Option.bind (revert (drop (length (ch_changesets c) - reverted) (ch_changesets c)) (ch_substate c)) (\<lambda>substate.
                   Some
                     (and_then (validate_and_execute ext b (bk_header parent) substate provider side canonical) (\<lambda>changeset.
                       Inr \<lparr>ch_substate = apply_one changeset substate, ch_changesets = [changeset],
                            ch_blocks = [(bk_number b, b)]\<rparr>)))))"

definition append_block ::
    "('db, 'sp, 'e) externals \<Rightarrow> chain \<Rightarrow> sealed_block_with_senders \<Rightarrow> (u64, h256) btree \<Rightarrow> (u64, h256) btree \<Rightarrow> 'sp \<Rightarrow>
     ('e tree_error + chain) option" where
  "append_block ext c b side canonical provider =
     Option.bind (chain_last c) (\<lambda>parent_block. Some
       (and_then (validate_and_execute ext b (bk_header parent_block) (ch_substate c) provider side canonical) (\<lambda>changeset.
         Inr (c\<lparr>ch_substate := apply_one changeset (ch_substate c), ch_changesets := ch_changesets c @ [changeset],
                ch_blocks := btree_insert (bk_number b) b (ch_blocks c)\<rparr>))))"

definition append_chain :: "chain \<Rightarrow> chain \<Rightarrow> ('e tree_error + chain) option" where
  "append_chain self other =
     Option.bind (chain_last self) (\<lambda>chain_tip.
     Option.bind (chain_fork_block other) (\<lambda>fork. Some
       (if bk_hash chain_tip \<noteq> fb_hash fork
        then Inl (AppendChainDoesntConnect (bk_number chain_tip, bk_hash chain_tip) (fb_number fork, fb_hash fork))
        else Inr \<lparr>ch_substate = ch_substate other, ch_changesets = ch_changesets self @ ch_changesets other,
                  ch_blocks = fold (\<lambda>(n, b). btree_insert n b) (ch_blocks other) (ch_blocks self)\<rparr>)))"

datatype split_at = SplitAt_Number u64 | SplitAt_Hash h256

datatype chain_split =
    NoSplitPending chain
  | NoSplitCanonical chain
  | Split chain chain

definition split_number :: "split_at \<Rightarrow> chain \<Rightarrow> (chain_split + u64) option" where
  "split_number at c =
     (if ch_blocks c = [] then None
      else Some
        (let chain_tip = fst (last (ch_blocks c)) in
         case at of
           SplitAt_Hash h \<Rightarrow>
             (case List.find (\<lambda>(_, b). bk_hash b = h) (ch_blocks c) of
                None \<Rightarrow> Inl (NoSplitPending c)
              | Some (n, _) \<Rightarrow> if n = chain_tip then Inl (NoSplitCanonical c) else Inr n)
         | SplitAt_Number n \<Rightarrow>
             if n \<ge> chain_tip then Inl (NoSplitCanonical c)
             else if n < fst (hd (ch_blocks c)) then Inl (NoSplitPending c)
             else Inr n))"

definition chain_split_at :: "split_at \<Rightarrow> chain \<Rightarrow> chain_split option" where
  "chain_split_at at c =
     Option.bind (split_number at c) (\<lambda>r.
       case r of
         Inl s \<Rightarrow> Some s
       | Inr n \<Rightarrow>
           (let lower = filter (\<lambda>(k, _). k < n + 1) (ch_blocks c);
                higher = filter (\<lambda>(k, _). k \<ge> n + 1) (ch_blocks c)
            in if length lower > length (ch_changesets c) then None
               else Some (Split
                 \<lparr>ch_substate = sub_state_default, ch_changesets = take (length lower) (ch_changesets c), ch_blocks = lower\<rparr>
                 \<lparr>ch_substate = ch_substate c, ch_changesets = drop (length lower) (ch_changesets c), ch_blocks = higher\<rparr>)))"

section \<open>Indices\<close>

record block_indices =
  bi_last_finalized_block :: u64
  bi_num_of_additional_canonical_block_hashes :: u64
  bi_canonical_chain :: "(u64, h256) btree"
  bi_fork_to_child :: "h256 \<rightharpoonup> h256 set"
  bi_blocks_to_chain :: "h256 \<rightharpoonup> u64"
  bi_index_number_to_block :: "u64 \<rightharpoonup> h256 set"

definition bi_new :: "u64 \<Rightarrow> u64 \<Rightarrow> (u64, h256) btree \<Rightarrow> block_indices" where
  "bi_new last_finalized_block additional canonical_chain =
     \<lparr>bi_last_finalized_block = last_finalized_block, bi_num_of_additional_canonical_block_hashes = additional,
      bi_canonical_chain = canonical_chain, bi_fork_to_child = Map.empty, bi_blocks_to_chain = Map.empty,
      bi_index_number_to_block = Map.empty\<rparr>"

definition is_block_hash_canonical :: "block_indices \<Rightarrow> h256 \<Rightarrow> bool" where
  "is_block_hash_canonical s h = list_ex (\<lambda>(n, h'). bi_last_finalized_block s \<le> n \<and> h' = h) (bi_canonical_chain s)"

definition entry_insert :: "'k \<Rightarrow> 'v \<Rightarrow> ('k \<rightharpoonup> 'v set) \<Rightarrow> ('k \<rightharpoonup> 'v set)" where
  "entry_insert k v m = m(k \<mapsto> insert v (case m k of Some s \<Rightarrow> s | None \<Rightarrow> {}))"

definition entry_remove :: "'k \<Rightarrow> 'v \<Rightarrow> ('k \<rightharpoonup> 'v set) \<Rightarrow> ('k \<rightharpoonup> 'v set)" where
  "entry_remove k v m =
     (case m k of
        None \<Rightarrow> m
      | Some s \<Rightarrow> if s - {v} = {} then m(k := None) else m(k \<mapsto> s - {v}))"

definition insert_non_fork_block :: "u64 \<Rightarrow> h256 \<Rightarrow> u64 \<Rightarrow> block_indices \<Rightarrow> block_indices" where
  "insert_non_fork_block n h i s =
     s\<lparr>bi_index_number_to_block := entry_insert n h (bi_index_number_to_block s),
       bi_blocks_to_chain := (bi_blocks_to_chain s)(h \<mapsto> i)\<rparr>"

definition bi_insert_chain :: "u64 \<Rightarrow> chain \<Rightarrow> block_indices \<Rightarrow> block_indices option" where
  "bi_insert_chain i c s =
     (let s = fold (\<lambda>(n, b) s.
            s\<lparr>bi_blocks_to_chain := (bi_blocks_to_chain s)(bk_hash b \<mapsto> i),
              bi_index_number_to_block := entry_insert n (bk_hash b) (bi_index_number_to_block s)\<rparr>) (ch_blocks c) s
      in map_option (\<lambda>first.
           s\<lparr>bi_fork_to_child := entry_insert (bk_parent_hash first) (bk_hash first) (bi_fork_to_child s)\<rparr>) (chain_first c))"

text \<open>The chains of the given blocks, and the index without the blocks.\<close>

definition remove_children :: "h256 set \<Rightarrow> block_indices \<Rightarrow> u64 set \<times> block_indices" where
  "remove_children hs s =
     ((\<lambda>h. the (bi_blocks_to_chain s h)) ` Set.filter (\<lambda>h. bi_blocks_to_chain s h \<noteq> None) hs,
      s\<lparr>bi_blocks_to_chain := (\<lambda>h. if h \<in> hs then None else bi_blocks_to_chain s h)\<rparr>)"

definition remove_block :: "u64 \<Rightarrow> h256 \<Rightarrow> block_indices \<Rightarrow> u64 set \<times> block_indices" where
  "remove_block n h s =
     (let s = s\<lparr>bi_index_number_to_block := entry_remove n h (bi_index_number_to_block s)\<rparr>;
          s = s\<lparr>bi_blocks_to_chain := (bi_blocks_to_chain s)(h := None)\<rparr>
      in case bi_fork_to_child s h of
           None \<Rightarrow> ({}, s)
         | Some children \<Rightarrow> remove_children children (s\<lparr>bi_fork_to_child := (bi_fork_to_child s)(h := None)\<rparr>))"

definition remove_blocks :: "(u64 \<times> h256) list \<Rightarrow> u64 set \<Rightarrow> block_indices \<Rightarrow> u64 set \<times> block_indices" where
  "remove_blocks bs lose s =
     fold (\<lambda>(n, h) (lose, s). let (l, s) = remove_block n h s in (lose \<union> l, s)) bs (lose, s)"

definition remove_chain :: "chain \<Rightarrow> block_indices \<Rightarrow> u64 set \<times> block_indices" where
  "remove_chain c s = remove_blocks (map (\<lambda>(n, b). (n, bk_hash b)) (ch_blocks c)) {} s"

text \<open>The walk over both lists of hashes: the entries of the old one that the new one does not have.\<close>

fun mismatches :: "(u64, h256) btree \<Rightarrow> (u64, h256) btree \<Rightarrow> (u64 \<times> h256) list" where
  "mismatches new [] = []"
| "mismatches [] (old # olds) = old # olds"
| "mismatches ((n, h) # news) ((n', h') # olds) =
     (if n < n' then mismatches news ((n', h') # olds)
      else if n = n' then (if h \<noteq> h' then (n', h') # mismatches news olds else mismatches news olds)
      else (n', h') # mismatches ((n, h) # news) olds)"

definition update_block_hashes :: "(u64, h256) btree \<Rightarrow> block_indices \<Rightarrow> u64 set \<times> block_indices" where
  "update_block_hashes hashes s =
     remove_blocks (mismatches hashes (bi_canonical_chain s)) {} (s\<lparr>bi_canonical_chain := hashes\<rparr>)"

definition canonicalize_blocks :: "(u64, sealed_block_with_senders) btree \<Rightarrow> block_indices \<Rightarrow> block_indices" where
  "canonicalize_blocks blocks s =
     (case blocks of
        [] \<Rightarrow> s
      | (first_number, _) # _ \<Rightarrow>
          (let s = s\<lparr>bi_canonical_chain := filter (\<lambda>(n, _). n < first_number) (bi_canonical_chain s)\<rparr>;
               s = fold (\<lambda>(_, b) s.
                     s\<lparr>bi_blocks_to_chain := (bi_blocks_to_chain s)(bk_hash b := None),
                       bi_index_number_to_block := entry_remove (bk_number b) (bk_hash b) (bi_index_number_to_block s),
                       bi_fork_to_child := entry_remove (bk_parent_hash b) (bk_hash b) (bi_fork_to_child s)\<rparr>) blocks s
           in s\<lparr>bi_canonical_chain := fold (\<lambda>(n, b). btree_insert n (bk_hash b)) blocks (bi_canonical_chain s)\<rparr>))"

definition finalize_canonical_blocks :: "u64 \<Rightarrow> block_indices \<Rightarrow> u64 set \<times> block_indices" where
  "finalize_canonical_blocks finalized_block s =
     (let finalized_blocks = map snd (filter (\<lambda>(n, _). n \<ge> bi_last_finalized_block s \<and> n < finalized_block)
            (bi_canonical_chain s));
          remove_until = saturating_sub finalized_block (bi_num_of_additional_canonical_block_hashes s);
          s = s\<lparr>bi_canonical_chain := filter (\<lambda>(n, _). n \<ge> remove_until) (bi_canonical_chain s)\<rparr>;
          (lose_chains, s) = fold (\<lambda>h (lose, s).
            case bi_fork_to_child s h of
              None \<Rightarrow> (lose, s)
            | Some children \<Rightarrow>
                (let (l, s) = remove_children children (s\<lparr>bi_fork_to_child := (bi_fork_to_child s)(h := None)\<rparr>)
                 in (lose \<union> l, s))) finalized_blocks ({}, s)
      in (lose_chains, s\<lparr>bi_last_finalized_block := finalized_block\<rparr>))"

definition canonical_hash :: "block_indices \<Rightarrow> u64 \<Rightarrow> h256 option" where
  "canonical_hash s n = btree_get (bi_canonical_chain s) n"

definition canonical_tip :: "block_indices \<Rightarrow> fork_block option" where
  "canonical_tip s =
     (if bi_canonical_chain s = [] then None
      else (let (n, h) = last (bi_canonical_chain s) in Some \<lparr>fb_number = n, fb_hash = h\<rparr>))"

end
