(* ===== verification/BlockTree.thy ===== *)
theory BlockTree
  imports BlockIndices
begin

text \<open>
  \<^verbatim>\<open>BlockchainTree\<close> of \<^verbatim>\<open>crates/executor/src/blockchain_tree/mod.rs\<close>: the side chains that are kept in memory, how a block
  joins them, and how a side chain becomes canonical. An operation returns its result, which may be an error,
  together with the tree it leaves behind; \<^term>\<open>None\<close> is a panic or, for the two loops that follow the fork
  blocks and the one that discards chains, that the loop does not end.
\<close>

section \<open>The tree\<close>

record 'db blockchain_tree =
  bt_chains :: "u64 \<rightharpoonup> chain"
  bt_block_chain_id_generator :: u64
  bt_block_indices :: block_indices
  bt_max_blocks_in_chain :: u64
  bt_max_reorg_depth :: u64
  bt_db :: 'db

type_synonym ('db, 'e, 'a) tree_result = "(('e tree_error + 'a) \<times> 'db blockchain_tree) option"

definition tree_bind ::
    "('db, 'e, 'a) tree_result \<Rightarrow> ('a \<Rightarrow> 'db blockchain_tree \<Rightarrow> ('db, 'e, 'b) tree_result) \<Rightarrow> ('db, 'e, 'b) tree_result" where
  "tree_bind m f =
     (case m of None \<Rightarrow> None | Some (Inl e, t) \<Rightarrow> Some (Inl e, t) | Some (Inr a, t) \<Rightarrow> f a t)"

definition try_tree ::
    "'e tree_error + 'a \<Rightarrow> ('a \<Rightarrow> ('db, 'e, 'b) tree_result) \<Rightarrow> 'db blockchain_tree \<Rightarrow> ('db, 'e, 'b) tree_result" where
  "try_tree r f t = (case r of Inl e \<Rightarrow> Some (Inl e, t) | Inr a \<Rightarrow> f a)"

text \<open>The hashes that the cursor over the canonical headers yields, from the tip downwards.\<close>

definition bt_new ::
    "('db, 'sp, 'e) externals \<Rightarrow> 'db \<Rightarrow> u64 \<Rightarrow> u64 \<Rightarrow> u64 \<Rightarrow> ('e tree_error + 'db blockchain_tree) option" where
  "bt_new ext db max_reorg_depth max_blocks_in_chain additional =
     (if max_reorg_depth > max_blocks_in_chain then None
      else Some (and_then (map_err External (db_walk_back ext db)) (\<lambda>headers.
        let last_canonical_hashes = take (unat (max_reorg_depth + additional)) headers;
            (last_finalized_block_number, _) =
              (if length last_canonical_hashes > unat max_reorg_depth then last_canonical_hashes ! unat max_reorg_depth
               else if last_canonical_hashes = [] then (0, replicate 32 0)
               else last last_canonical_hashes)
        in Inr \<lparr>bt_chains = Map.empty, bt_block_chain_id_generator = 0,
                bt_block_indices = bi_new last_finalized_block_number additional
                  (fold (\<lambda>(n, h). btree_insert n h) last_canonical_hashes []),
                bt_max_blocks_in_chain = max_blocks_in_chain, bt_max_reorg_depth = max_reorg_depth, bt_db = db\<rparr>)))"

definition tree_insert_chain :: "chain \<Rightarrow> 'db blockchain_tree \<Rightarrow> (u64 \<times> 'db blockchain_tree) option" where
  "tree_insert_chain c t =
     (let chain_id = bt_block_chain_id_generator t;
          t = t\<lparr>bt_block_chain_id_generator := bt_block_chain_id_generator t + 1\<rparr>
      in map_option (\<lambda>indices.
           (chain_id, t\<lparr>bt_block_indices := indices, bt_chains := (bt_chains t)(chain_id \<mapsto> c)\<rparr>))
           (bi_insert_chain chain_id c (bt_block_indices t)))"

section \<open>Following the fork blocks\<close>

partial_function (option) all_chain_hashes_loop ::
    "(u64 \<rightharpoonup> chain) \<Rightarrow> block_indices \<Rightarrow> u64 \<Rightarrow> (u64, h256) btree \<Rightarrow> (u64, h256) btree option" where
  "all_chain_hashes_loop cs indices chain_id hashes =
     (case cs chain_id of
        None \<Rightarrow> Some hashes
      | Some c \<Rightarrow>
          (let hashes = fold (\<lambda>(_, b). btree_insert (bk_number b) (bk_hash b)) (ch_blocks c) hashes
           in case chain_fork_block c of
                None \<Rightarrow> None
              | Some fork \<Rightarrow>
                  (case bi_blocks_to_chain indices (fb_hash fork) of
                     Some next_chain_id \<Rightarrow> all_chain_hashes_loop cs indices next_chain_id hashes
                   | None \<Rightarrow> Some hashes)))"

definition all_chain_hashes :: "'db blockchain_tree \<Rightarrow> u64 \<Rightarrow> (u64, h256) btree option" where
  "all_chain_hashes t chain_id = all_chain_hashes_loop (bt_chains t) (bt_block_indices t) chain_id []"

partial_function (option) canonical_fork_loop ::
    "(u64 \<rightharpoonup> chain) \<Rightarrow> block_indices \<Rightarrow> u64 \<Rightarrow> fork_block option option" where
  "canonical_fork_loop cs indices chain_id =
     (case cs chain_id of
        None \<Rightarrow> Some None
      | Some c \<Rightarrow>
          (case chain_fork_block c of
             None \<Rightarrow> None
           | Some fork \<Rightarrow>
               (case bi_blocks_to_chain indices (fb_hash fork) of
                  Some fork_chain_id \<Rightarrow> canonical_fork_loop cs indices fork_chain_id
                | None \<Rightarrow>
                    Some (if canonical_hash indices (fb_number fork) = Some (fb_hash fork) then Some fork else None))))"

definition canonical_fork :: "'db blockchain_tree \<Rightarrow> u64 \<Rightarrow> fork_block option option" where
  "canonical_fork t chain_id = canonical_fork_loop (bt_chains t) (bt_block_indices t) chain_id"

section \<open>Inserting a block\<close>

definition last_canonical_hash :: "block_indices \<Rightarrow> h256" where
  "last_canonical_hash s = (if bi_canonical_chain s = [] then replicate 32 0 else snd (last (bi_canonical_chain s)))"

definition fork_side_chain ::
    "('db, 'sp, 'e) externals \<Rightarrow> sealed_block_with_senders \<Rightarrow> u64 \<Rightarrow> 'db blockchain_tree \<Rightarrow> ('db, 'e, unit) tree_result" where
  "fork_side_chain ext b chain_id t =
     Option.bind (all_chain_hashes t chain_id) (\<lambda>block_hashes.
     Option.bind (canonical_fork t chain_id) (\<lambda>fork.
       try_tree (ok_or fork (BlockChainIdConsistency chain_id)) (\<lambda>canonical_fork.
       try_tree (ok_or (bt_chains t chain_id) (BlockChainIdConsistency chain_id)) (\<lambda>parent_chain.
       Option.bind (chain_last parent_chain) (\<lambda>tip.
       let canonical_block_hashes = bi_canonical_chain (bt_block_indices t) in
       try_tree (map_err External
           (if fb_hash canonical_fork = last_canonical_hash (bt_block_indices t) then db_latest ext (bt_db t)
            else db_history_by_block_number ext (bt_db t) (fb_number canonical_fork))) (\<lambda>provider.
       if bk_hash tip = bk_parent_hash b then
         Option.bind (append_block ext parent_chain b block_hashes canonical_block_hashes provider) (\<lambda>r.
           try_tree r (\<lambda>c. Some (Inr (),
             t\<lparr>bt_chains := (bt_chains t)(chain_id \<mapsto> c),
               bt_block_indices := insert_non_fork_block (bk_number b) (bk_hash b) chain_id (bt_block_indices t)\<rparr>)) t)
       else
         Option.bind (new_chain_fork ext parent_chain b block_hashes canonical_block_hashes provider) (\<lambda>r.
           try_tree r (\<lambda>c. Option.bind (tree_insert_chain c t) (\<lambda>(_, t). Some (Inr (), t))) t)) t)) t) t))"

definition fork_canonical_chain ::
    "('db, 'sp, 'e) externals \<Rightarrow> sealed_block_with_senders \<Rightarrow> 'db blockchain_tree \<Rightarrow> ('db, 'e, unit) tree_result" where
  "fork_canonical_chain ext b t =
     try_tree (map_err External (db_header ext (bt_db t) (bk_parent_hash b))) (\<lambda>h.
     try_tree (ok_or h (CanonicalChain (bk_parent_hash b))) (\<lambda>parent_header.
     try_tree (map_err External
         (if bk_parent_hash b = last_canonical_hash (bt_block_indices t) then db_latest ext (bt_db t)
          else db_history_by_block_number ext (bt_db t) (bk_number b - 1))) (\<lambda>provider.
     try_tree (new_canonical_fork ext b \<lparr>sh_header = parent_header, sh_hash = bk_parent_hash b\<rparr>
         (bi_canonical_chain (bt_block_indices t)) provider) (\<lambda>c.
       Option.bind (tree_insert_chain c t) (\<lambda>(_, t). Some (Inr (), t))) t) t) t) t"

definition insert_block_with_senders ::
    "('db, 'sp, 'e) externals \<Rightarrow> sealed_block_with_senders \<Rightarrow> 'db blockchain_tree \<Rightarrow> ('db, 'e, bool) tree_result" where
  "insert_block_with_senders ext b t =
     (let indices = bt_block_indices t; last_finalized_block = bi_last_finalized_block indices in
      if bk_number b \<le> last_finalized_block
      then Some (Inl (PendingBlockIsFinalized (bk_hash b) (bk_number b) last_finalized_block), t)
      else if bk_number b > last_finalized_block + bt_max_blocks_in_chain t
      then Some (Inl (PendingBlockIsInFuture (bk_hash b) (bk_number b) last_finalized_block), t)
      else if bi_blocks_to_chain indices (bk_hash b) \<noteq> None then Some (Inr True, t)
      else if canonical_hash indices (bk_number b) = Some (bk_hash b) then Some (Inr True, t)
      else
        (case bi_blocks_to_chain indices (bk_parent_hash b) of
           Some parent_chain \<Rightarrow> tree_bind (fork_side_chain ext b parent_chain t) (\<lambda>_ t. Some (Inr True, t))
         | None \<Rightarrow>
             if Some (bk_parent_hash b) = canonical_hash indices (bk_number b - 1)
             then tree_bind (fork_canonical_chain ext b t) (\<lambda>_ t. Some (Inr True, t))
             else Some (Inr False, t)))"

text \<open>The recovery of the senders is the one of \<^verbatim>\<open>SealedBlock\<close>.\<close>

definition insert_block ::
    "(bytes \<Rightarrow> h256) \<Rightarrow> (bytes \<Rightarrow> u8 \<Rightarrow> h256 \<Rightarrow> bytes option) \<Rightarrow> ('db, 'sp, 'e) externals \<Rightarrow> sealed_block \<Rightarrow>
     'db blockchain_tree \<Rightarrow> ('db, 'e, bool) tree_result" where
  "insert_block keccak256 recover_ecdsa ext b t =
     try_tree (ok_or (seal_with_senders keccak256 recover_ecdsa b) SenderRecoveryError) (\<lambda>b.
       insert_block_with_senders ext b t) t"

section \<open>Discarding chains\<close>

text \<open>Every round removes a chain from the tree or an identifier from the set.\<close>

function discard_chains :: "u64 set \<Rightarrow> 'db blockchain_tree \<Rightarrow> 'db blockchain_tree" where
  "discard_chains remove_chains t =
     (if remove_chains = {} then t
      else
        (let chain_id = Min remove_chains; remove_chains = remove_chains - {chain_id}
         in case bt_chains t chain_id of
              None \<Rightarrow> discard_chains remove_chains t
            | Some c \<Rightarrow>
                (let t = t\<lparr>bt_chains := (bt_chains t)(chain_id := None)\<rparr>;
                     (lose, indices) = remove_chain c (bt_block_indices t)
                 in discard_chains (remove_chains \<union> lose) (t\<lparr>bt_block_indices := indices\<rparr>))))"
  by pat_completeness auto

termination
proof (relation "measures [\<lambda>(r, t). card (dom (bt_chains t)), \<lambda>(r, t). card r]", goal_cases)
  case (2 r t i r')
  then have "i \<in> r"
    by (simp add: Min_in)
  then show ?case
    using 2 by (simp add: card_gt_0_iff)
next
  case (3 r t i r' c t' p lose indices)
  then have "i \<in> dom (bt_chains t)"
    by auto
  then have "card (dom ((bt_chains t)(i := None))) < card (dom (bt_chains t))"
    by (intro psubset_card_mono) auto
  then show ?case
    using 3 by (simp del: fun_upd_apply)
qed simp

definition finalize_block :: "u64 \<Rightarrow> 'db blockchain_tree \<Rightarrow> 'db blockchain_tree" where
  "finalize_block finalized_block t =
     (let (remove_chains, indices) = finalize_canonical_blocks finalized_block (bt_block_indices t)
      in discard_chains remove_chains (t\<lparr>bt_block_indices := indices\<rparr>))"

text \<open>This loop looks at the least identifier and leaves it in the set.\<close>

partial_function (option) discard_first ::
    "u64 set \<Rightarrow> 'db blockchain_tree \<Rightarrow> 'db blockchain_tree option" where
  "discard_first remove_chains t =
     (if remove_chains = {} then Some t
      else
        (let chain_id = Min remove_chains
         in case bt_chains t chain_id of
              None \<Rightarrow> discard_first remove_chains t
            | Some c \<Rightarrow>
                (let t = t\<lparr>bt_chains := (bt_chains t)(chain_id := None)\<rparr>;
                     p = remove_chain c (bt_block_indices t)
                 in discard_first (remove_chains \<union> fst p) (t\<lparr>bt_block_indices := snd p\<rparr>))))"

definition update_canonical_hashes ::
    "('db, 'sp, 'e) externals \<Rightarrow> u64 \<Rightarrow> 'db blockchain_tree \<Rightarrow> ('db, 'e, unit) tree_result" where
  "update_canonical_hashes ext last_finalized_block t =
     (let t = finalize_block last_finalized_block t;
          num_of_canonical_hashes =
            bt_max_reorg_depth t + bi_num_of_additional_canonical_block_hashes (bt_block_indices t)
      in try_tree (map_err External (db_walk_back ext (bt_db t))) (\<lambda>headers.
           let hashes = fold (\<lambda>(n, h). btree_insert n h) (take (unat num_of_canonical_hashes) headers) [];
               (remove_chains, indices) = update_block_hashes hashes (bt_block_indices t)
           in Option.bind (discard_first remove_chains (t\<lparr>bt_block_indices := indices\<rparr>)) (\<lambda>t. Some (Inr (), t))) t)"

section \<open>Making a block canonical\<close>

definition split_chain :: "u64 \<Rightarrow> chain \<Rightarrow> split_at \<Rightarrow> 'db blockchain_tree \<Rightarrow> (chain \<times> 'db blockchain_tree) option" where
  "split_chain chain_id c at t =
     Option.bind (chain_split_at at c) (\<lambda>s.
       case s of
         Split canonical pending \<Rightarrow>
           map_option (\<lambda>indices.
             (canonical, t\<lparr>bt_block_indices := indices, bt_chains := (bt_chains t)(chain_id \<mapsto> pending)\<rparr>))
             (bi_insert_chain chain_id pending (bt_block_indices t))
       | NoSplitCanonical canonical \<Rightarrow> Some (canonical, t)
       | NoSplitPending _ \<Rightarrow> None)"

text \<open>The chains from the wanted block down to the canonical chain, the lowest one last.\<close>

partial_function (option) promote_loop ::
    "fork_block \<Rightarrow> u64 \<Rightarrow> chain list \<Rightarrow> 'db blockchain_tree \<Rightarrow> (chain list \<times> 'db blockchain_tree) option" where
  "promote_loop block_fork block_fork_number chains_to_promote t =
     (case bi_blocks_to_chain (bt_block_indices t) (fb_hash block_fork) of
        None \<Rightarrow> Some (chains_to_promote, t)
      | Some chain_id \<Rightarrow>
          Option.bind (bt_chains t chain_id) (\<lambda>c.
          Option.bind (chain_fork_block c) (\<lambda>block_fork.
          Option.bind (split_chain chain_id c (SplitAt_Number block_fork_number)
              (t\<lparr>bt_chains := (bt_chains t)(chain_id := None)\<rparr>)) (\<lambda>p.
          Option.bind (chain_fork_block (fst p)) (\<lambda>fork.
            promote_loop block_fork (fb_number fork) (chains_to_promote @ [fst p]) (snd p))))))"

fun append_all :: "chain \<Rightarrow> chain list \<Rightarrow> chain option" where
  "append_all c [] = Some c"
| "append_all c (d # ds) =
     Option.bind (append_chain c d :: (unit tree_error + chain) option) (\<lambda>r.
       case r of Inl _ \<Rightarrow> None | Inr c \<Rightarrow> append_all c ds)"

fun insert_blocks ::
    "('db, 'sp, 'e) externals \<Rightarrow> (sealed_block_with_senders \<times> execution_result) list \<Rightarrow> 'db \<Rightarrow> 'e tree_error + 'db" where
  "insert_blocks ext [] tx = Inr tx"
| "insert_blocks ext ((b, changeset) # bs) tx =
     and_then (map_err CanonicalCommit (db_insert_block ext b changeset tx)) (insert_blocks ext bs)"

definition commit_canonical ::
    "('db, 'sp, 'e) externals \<Rightarrow> chain \<Rightarrow> 'db blockchain_tree \<Rightarrow> ('db, 'e, unit) tree_result" where
  "commit_canonical ext c t =
     try_tree (map_err External (db_begin ext (bt_db t))) (\<lambda>tx.
     Option.bind (chain_last c) (\<lambda>tip.
     try_tree (insert_blocks ext (zip (map snd (ch_blocks c)) (ch_changesets c)) tx) (\<lambda>tx.
     try_tree (map_err PipelineStatusUpdate (db_update_pipeline_stages ext (bk_number tip) tx)) (\<lambda>tx.
     try_tree (map_err External (db_commit ext tx)) (\<lambda>db. Some (Inr (), t\<lparr>bt_db := db\<rparr>)) t) t) t)) t"

definition revert_canonical ::
    "('db, 'sp, 'e) externals \<Rightarrow> u64 \<Rightarrow> 'db blockchain_tree \<Rightarrow> ('db, 'e, chain) tree_result" where
  "revert_canonical ext revert_until t =
     try_tree (map_err External (db_begin ext (bt_db t))) (\<lambda>tx.
     try_tree (map_err CanonicalRevert (db_take_block_and_execution_range ext (revert_until + 1) tx)) (\<lambda>(bs, tx).
     try_tree (map_err PipelineStatusUpdate (db_update_pipeline_stages ext revert_until tx)) (\<lambda>tx.
     try_tree (map_err External (db_commit ext tx)) (\<lambda>db. Some (Inr (chain_new bs), t\<lparr>bt_db := db\<rparr>)) t) t) t) t"

definition make_canonical ::
    "('db, 'sp, 'e) externals \<Rightarrow> h256 \<Rightarrow> 'db blockchain_tree \<Rightarrow> ('db, 'e, unit) tree_result" where
  "make_canonical ext hash t =
     (case bi_blocks_to_chain (bt_block_indices t) hash of
        None \<Rightarrow>
          if is_block_hash_canonical (bt_block_indices t) hash then Some (Inr (), t)
          else Some (Inl (BlockHashNotFoundInChain hash), t)
      | Some chain_id \<Rightarrow>
          Option.bind (bt_chains t chain_id) (\<lambda>c.
          Option.bind (split_chain chain_id c (SplitAt_Hash hash) (t\<lparr>bt_chains := (bt_chains t)(chain_id := None)\<rparr>))
            (\<lambda>(canonical, t).
          Option.bind (chain_fork_block canonical) (\<lambda>fork.
          Option.bind (promote_loop fork (fb_number fork) [canonical] t) (\<lambda>(chains_to_promote, t).
          Option.bind (canonical_tip (bt_block_indices t)) (\<lambda>old_tip.
          if chains_to_promote = [] then None else
          Option.bind (append_all (last chains_to_promote) (rev (butlast chains_to_promote))) (\<lambda>new_canon_chain.
          let t = t\<lparr>bt_block_indices := canonicalize_blocks (ch_blocks new_canon_chain) (bt_block_indices t)\<rparr> in
          Option.bind (chain_fork_block new_canon_chain) (\<lambda>canon_fork.
          if fb_hash canon_fork = fb_hash old_tip then commit_canonical ext new_canon_chain t
          else if canonical_hash (bt_block_indices t) (fb_number canon_fork) \<noteq> Some (fb_hash canon_fork) then None
          else
            tree_bind (revert_canonical ext (fb_number canon_fork) t) (\<lambda>old_canon_chain t.
            tree_bind (commit_canonical ext new_canon_chain t) (\<lambda>_ t.
              Option.bind (tree_insert_chain old_canon_chain t) (\<lambda>(_, t). Some (Inr (), t))))))))))))"

end
