(* ===== verification/TreeChains.thy ===== *)
theory TreeChains
  imports BlockTree
begin

text \<open>
  Chains of linked blocks. A hash determines the number of its block: \<open>height\<close> is that function, and a block fits
  it when its own number and the one of its parent agree with it. The lemmas describe splitting and
  joining of such chains, and the walk that compares two lists of canonical hashes.
\<close>

section \<open>Canonical hashes\<close>

lemma mismatches_filter:
  "btree_wf new \<Longrightarrow> btree_wf old \<Longrightarrow> mismatches new old = filter (\<lambda>(n, h). btree_get new n \<noteq> Some h) old"
proof (induction new old rule: mismatches.induct)
  case (3 n h news n' h' olds)
  have wf: "btree_wf news" "btree_wf olds" "\<forall>k \<in> fst ` set news. n < k" "\<forall>k \<in> fst ` set olds. n' < k"
    using "3.prems" by (auto simp: btree_wf_def)
  have keep: "filter (\<lambda>(k, x). btree_get ((n, h) # news) k \<noteq> Some x) olds = filter (\<lambda>(k, x). btree_get news k \<noteq> Some x) olds"
    if "n \<le> n'"
  proof (rule filter_cong [OF refl])
    fix x
    assume "x \<in> set olds"
    then have "n < fst x"
      using wf(4) that by force
    then show "(case x of (k, x) \<Rightarrow> btree_get ((n, h) # news) k \<noteq> Some x) = (case x of (k, x) \<Rightarrow> btree_get news k \<noteq> Some x)"
      by (cases x) (auto simp: btree_get_def)
  qed
  consider "n < n'" | "n = n'" | "n' < n"
    by fastforce
  then show ?case
  proof cases
    case 1
    then show ?thesis
      using "3.IH"(1) keep wf "3.prems"(2) by (auto simp: btree_get_def)
  next
    case 2
    have "map_of news n = None"
      using wf(3) by (force simp: map_of_eq_None_iff)
    then show ?thesis
      using 2 "3.IH"(2,3) keep wf by (auto simp: btree_get_def)
  next
    case 3
    have "map_of news n' = None"
      using 3 wf(3) by (force simp: map_of_eq_None_iff)
    then show ?thesis
      using 3 "3.IH"(4) "3.prems"(1) wf by (auto simp: btree_get_def)
  qed
qed (auto simp: btree_get_def)

section \<open>Linked chains\<close>

definition block_ok :: "(h256 \<Rightarrow> u64) \<Rightarrow> sealed_block_with_senders \<Rightarrow> bool" where
  "block_ok height b \<longleftrightarrow>
     height (bk_hash b) = bk_number b \<and> unat (height (bk_parent_hash b)) + 1 = unat (bk_number b)"

definition blocks_of :: "chain \<Rightarrow> sealed_block_with_senders list" where
  "blocks_of c = map snd (ch_blocks c)"

abbreviation by_number :: "sealed_block_with_senders list \<Rightarrow> (u64, sealed_block_with_senders) btree" where
  "by_number bs \<equiv> map (\<lambda>b. (bk_number b, b)) bs"

definition linked :: "(h256 \<Rightarrow> u64) \<Rightarrow> sealed_block_with_senders list \<Rightarrow> bool" where
  "linked height bs \<longleftrightarrow> list_all (block_ok height) bs \<and> successively (\<lambda>b b'. bk_parent_hash b' = bk_hash b) bs"

definition chain_wf :: "(h256 \<Rightarrow> u64) \<Rightarrow> chain \<Rightarrow> bool" where
  "chain_wf height c \<longleftrightarrow>
     blocks_of c \<noteq> [] \<and> ch_blocks c = by_number (blocks_of c) \<and> linked height (blocks_of c) \<and>
     length (ch_changesets c) = length (blocks_of c)"

lemma linked_simps [simp]:
  "linked height []"
  "linked height [b] = block_ok height b"
  by (simp_all add: linked_def)

lemma linked_Cons:
  "linked height (b # bs) \<longleftrightarrow> block_ok height b \<and> linked height bs \<and> (bs = [] \<or> bk_parent_hash (hd bs) = bk_hash b)"
  by (auto simp: linked_def successively_Cons)

lemma linked_append:
  "linked height (xs @ ys) \<longleftrightarrow>
     linked height xs \<and> linked height ys \<and> (xs = [] \<or> ys = [] \<or> bk_parent_hash (hd ys) = bk_hash (last xs))"
  by (auto simp: linked_def successively_append_iff)

lemma linked_number_step: "block_ok height b \<Longrightarrow> block_ok height b' \<Longrightarrow> bk_parent_hash b' = bk_hash b \<Longrightarrow> bk_number b < bk_number b'"
  by (simp add: block_ok_def word_less_nat_alt)

lemma linked_sorted: "linked height bs \<Longrightarrow> sorted_wrt (\<lambda>b b'. bk_number b < bk_number b') bs"
proof -
  assume l: "linked height bs"
  have "successively (\<lambda>b b'. bk_number b < bk_number b') bs"
    using l
  proof (induction bs)
    case (Cons b bs)
    then show ?case
      by (cases bs) (auto simp: linked_Cons intro: linked_number_step)
  qed simp
  then show ?thesis
    by (subst (asm) successively_conv_sorted_wrt) (auto simp: transp_def)
qed

lemma btree_wf_by_number: "btree_wf (by_number bs) = sorted_wrt (\<lambda>b b'. bk_number b < bk_number b') bs"
  by (simp add: btree_wf_def sorted_wrt_map comp_def)

lemma linked_wf: "linked height bs \<Longrightarrow> btree_wf (by_number bs)"
  by (simp add: btree_wf_by_number linked_sorted)

lemma linked_block: "linked height bs \<Longrightarrow> b \<in> set bs \<Longrightarrow> block_ok height b"
  by (simp add: linked_def list_all_iff)

lemma linked_less: "linked height (xs @ ys) \<Longrightarrow> b \<in> set xs \<Longrightarrow> b' \<in> set ys \<Longrightarrow> bk_number b < bk_number b'"
  using linked_sorted [of height "xs @ ys"] by (auto simp: sorted_wrt_append)

text \<open>Blocks of a chain with the same hash, or the same number, are the same block.\<close>

lemma linked_number_inj:
  assumes "linked height bs" and "b \<in> set bs" and "b' \<in> set bs" and "bk_number b = bk_number b'"
  shows "b = b'"
  using linked_sorted [OF assms(1)] assms(2-4) by (induction bs) auto

lemma linked_hash_inj:
  assumes "linked height bs" and "b \<in> set bs" and "b' \<in> set bs" and "bk_hash b = bk_hash b'"
  shows "b = b'"
  using linked_number_inj [OF assms(1-3)] linked_block [OF assms(1,2)] linked_block [OF assms(1,3)] assms(4)
  by (simp add: block_ok_def)

text \<open>The first block has the least number, and its parent is not in the chain.\<close>

lemma linked_first_le: "linked height (b # bs) \<Longrightarrow> b' \<in> set (b # bs) \<Longrightarrow> bk_number b \<le> bk_number b'"
  using linked_sorted [of height "b # bs"] by auto

section \<open>Parts of a chain\<close>

lemma chain_wfD:
  assumes "chain_wf height c"
  shows "ch_blocks c = by_number (blocks_of c)" "linked height (blocks_of c)" "blocks_of c \<noteq> []"
    "length (ch_changesets c) = length (blocks_of c)" "ch_blocks c \<noteq> []" "btree_wf (ch_blocks c)"
  using assms linked_wf [of height "blocks_of c"] by (auto simp: chain_wf_def blocks_of_def)

lemma chain_first_wf: "chain_wf height c \<Longrightarrow> chain_first c = Some (hd (blocks_of c))"
  by (cases "ch_blocks c") (auto simp: chain_wf_def chain_first_def blocks_of_def)

lemma chain_last_wf: "chain_wf height c \<Longrightarrow> chain_last c = Some (last (blocks_of c))"
  by (auto simp: chain_wf_def chain_last_def blocks_of_def last_map)

lemma chain_fork_block_wf:
  "chain_wf height c \<Longrightarrow> chain_fork_block c =
     Some \<lparr>fb_number = height (bk_parent_hash (hd (blocks_of c))), fb_hash = bk_parent_hash (hd (blocks_of c))\<rparr>"
proof -
  assume c: "chain_wf height c"
  let ?b = "hd (blocks_of c)"
  have "block_ok height ?b"
    using chain_wfD [OF c] by (auto intro: linked_block)
  then have "unat (saturating_sub (bk_number ?b) 1) = unat (height (bk_parent_hash ?b))"
    by (auto simp: block_ok_def unat_saturating_sub)
  then show ?thesis
    by (simp add: chain_fork_block_def chain_first_wf [OF c] word_unat_eq_iff)
qed

definition part :: "sub_state_data \<Rightarrow> execution_result list \<Rightarrow> sealed_block_with_senders list \<Rightarrow> chain" where
  "part substate changesets bs = \<lparr>ch_substate = substate, ch_changesets = changesets, ch_blocks = by_number bs\<rparr>"

lemma blocks_of_part [simp]: "blocks_of (part substate changesets bs) = bs"
  by (simp add: part_def blocks_of_def comp_def)

lemma chain_wf_part:
  "chain_wf height (part substate changesets bs) \<longleftrightarrow> bs \<noteq> [] \<and> linked height bs \<and> length changesets = length bs"
  by (auto simp: chain_wf_def) (auto simp: part_def)

text \<open>Splitting below a block: the entries up to its number, and the ones above.\<close>

lemma filter_upto:
  assumes l: "linked height (xs @ ys)" and "xs \<noteq> []" and "ys \<noteq> []"
  shows "filter (\<lambda>(k, _). k < bk_number (last xs) + 1) (by_number (xs @ ys)) = by_number xs"
    and "filter (\<lambda>(k, _). k \<ge> bk_number (last xs) + 1) (by_number (xs @ ys)) = by_number ys"
proof -
  have "bk_number (last xs) < bk_number (hd ys)"
    using linked_less [OF l, of "last xs" "hd ys"] assms by simp
  then have step: "(k < bk_number (last xs) + 1) = (k \<le> bk_number (last xs))" for k
    using unat_incr [of "bk_number (last xs)"] by (auto simp: word_less_nat_alt word_le_nat_alt)
  have xs: "bk_number b \<le> bk_number (last xs)" if "b \<in> set xs" for b
  proof -
    obtain zs where zs: "xs = zs @ [last xs]"
      using append_butlast_last_id [OF assms(2), symmetric] by blast
    have "linked height xs"
      using l by (simp add: linked_append)
    then have "linked height (zs @ [last xs])"
      using zs by argo
    then have "bk_number b < bk_number (last xs)" if "b \<in> set zs"
      using linked_less [of height zs "[last xs]" b "last xs"] that by simp
    moreover have "b \<in> set (zs @ [last xs])"
      using \<open>b \<in> set xs\<close> zs by simp
    ultimately show ?thesis
      by (auto intro: order.strict_implies_order)
  qed
  have ys: "\<not> bk_number b \<le> bk_number (last xs)" if "b \<in> set ys" for b
    using linked_less [OF l, of "last xs" b] that assms by (simp add: not_le)
  show "filter (\<lambda>(k, _). k < bk_number (last xs) + 1) (by_number (xs @ ys)) = by_number xs"
    using xs ys by (simp add: step filter_map comp_def)
  show "filter (\<lambda>(k, _). k \<ge> bk_number (last xs) + 1) (by_number (xs @ ys)) = by_number ys"
    using xs ys by (simp add: step filter_map comp_def flip: not_less)
qed

lemma find_unique: "x \<in> set xs \<Longrightarrow> P x \<Longrightarrow> (\<And>y. y \<in> set xs \<Longrightarrow> P y \<Longrightarrow> y = x) \<Longrightarrow> List.find P xs = Some x"
proof (induction xs)
  case (Cons y ys)
  show ?case
  proof (cases "P y")
    case True
    then show ?thesis
      using Cons.prems(3) [of y] by simp
  next
    case False
    then have "x \<in> set ys"
      using Cons.prems(1,2) by auto
    then have "List.find P ys = Some x"
      using Cons.prems(2,3) by (intro Cons.IH) (blast intro: list.set_intros(2))+
    then show ?thesis
      using False by simp
  qed
qed simp

text \<open>The number or the hash of a block of the chain select the same place.\<close>

lemma split_number_wf:
  assumes c: "chain_wf height c" and bs: "blocks_of c = xs @ ys" and "xs \<noteq> []"
    and at: "at \<in> {SplitAt_Hash (bk_hash (last xs)), SplitAt_Number (bk_number (last xs))}"
  shows "split_number at c = Some (if ys = [] then Inl (NoSplitCanonical c) else Inr (bk_number (last xs)))"
proof -
  note wf = chain_wfD [OF c]
  let ?b = "last xs"
  have b: "?b \<in> set (blocks_of c)"
    using assms by simp
  have found: "List.find (\<lambda>(_, b). bk_hash b = bk_hash ?b) (ch_blocks c) = Some (bk_number ?b, ?b)"
    unfolding wf(1) using b by (intro find_unique) (auto dest: linked_hash_inj [OF wf(2) _ b])
  have tip: "fst (last (ch_blocks c)) = bk_number (last (blocks_of c))" "fst (hd (ch_blocks c)) = bk_number (hd (blocks_of c))"
    using wf(3) by (subst wf(1), simp add: last_map hd_map)+
  have first: "bk_number (hd (blocks_of c)) \<le> bk_number ?b"
    using wf(2) b by (cases "blocks_of c") (auto dest: linked_first_le)
  show ?thesis
  proof (cases "ys = []")
    case True
    then show ?thesis
      using at found tip wf(5) bs by (auto simp: split_number_def Let_def)
  next
    case False
    then have "bk_number ?b < bk_number (last (blocks_of c))"
      using linked_less [of height xs ys ?b "last ys"] wf(2) bs assms(3) by simp
    then show ?thesis
      using at found tip wf(5) first False by (auto simp: split_number_def Let_def)
  qed
qed

lemma chain_split_wf:
  assumes c: "chain_wf height c" and b: "b \<in> set (blocks_of c)"
    and at: "at \<in> {SplitAt_Hash (bk_hash b), SplitAt_Number (bk_number b)}"
  shows "\<exists>xs ys c1. blocks_of c = xs @ ys \<and> xs \<noteq> [] \<and> last xs = b \<and> chain_wf height c1 \<and> blocks_of c1 = xs \<and>
    (if ys = [] then c1 = c \<and> chain_split_at at c = Some (NoSplitCanonical c1)
     else \<exists>c2. chain_wf height c2 \<and> blocks_of c2 = ys \<and> chain_split_at at c = Some (Split c1 c2))"
proof -
  obtain zs ys where split: "blocks_of c = zs @ b # ys"
    using split_list [OF b] by blast
  let ?xs = "zs @ [b]"
  have bs: "blocks_of c = ?xs @ ys"
    using split by simp
  note wf = chain_wfD [OF c]
  have n: "split_number at c = Some (if ys = [] then Inl (NoSplitCanonical c) else Inr (bk_number b))"
    using split_number_wf [OF c bs, of at] at by simp
  show ?thesis
  proof (cases "ys = []")
    case True
    then show ?thesis
      using n bs c by (intro exI [of _ ?xs] exI [of _ ys] exI [of _ c]) (simp add: chain_split_at_def)
  next
    case False
    have l: "linked height (?xs @ ys)"
      using wf(2) bs by simp
    let ?c1 = "part sub_state_default (take (length ?xs) (ch_changesets c)) ?xs"
    let ?c2 = "part (ch_substate c) (drop (length ?xs) (ch_changesets c)) ys"
    have lower: "filter (\<lambda>(k, _). k < bk_number b + 1) (ch_blocks c) = by_number ?xs"
      using filter_upto(1) [OF l] False by (simp only: wf(1) bs last_snoc) simp
    have higher: "filter (\<lambda>(k, _). k \<ge> bk_number b + 1) (ch_blocks c) = by_number ys"
      using filter_upto(2) [OF l] False by (simp only: wf(1) bs last_snoc) simp
    have "chain_split_at at c = Some (Split ?c1 ?c2)"
      using n False wf(4) bs unfolding chain_split_at_def by (simp add: Let_def part_def lower higher)
    moreover have "chain_wf height ?c1" "chain_wf height ?c2"
      using l wf(4) bs False by (simp_all add: chain_wf_part linked_append linked_Cons)
    ultimately show ?thesis
      using bs False by (intro exI [of _ ?xs] exI [of _ ys] exI [of _ ?c1]) auto
  qed
qed

lemma fold_insert_after:
  assumes "linked height (xs @ ys)"
  shows "fold (\<lambda>(n, b). btree_insert n (f b)) (by_number ys) (map (\<lambda>b. (bk_number b, f b)) xs) =
    map (\<lambda>b. (bk_number b, f b)) (xs @ ys)"
  using assms
proof (induction ys arbitrary: xs)
  case (Cons y ys)
  have "btree_insert (bk_number y) (f y) (map (\<lambda>b. (bk_number b, f b)) xs) = map (\<lambda>b. (bk_number b, f b)) (xs @ [y])"
    using linked_less [OF Cons.prems] by (subst btree_insert_last) auto
  then show ?case
    using Cons.IH [of "xs @ [y]"] Cons.prems by simp
qed simp

lemma append_chain_wf:
  assumes c: "chain_wf height c" and d: "chain_wf height d"
    and "bk_parent_hash (hd (blocks_of d)) = bk_hash (last (blocks_of c))"
  shows "\<exists>e. append_chain c d = Some (Inr e) \<and> chain_wf height e \<and> blocks_of e = blocks_of c @ blocks_of d"
proof -
  note wf = chain_wfD [OF c] chain_wfD [OF d]
  have l: "linked height (blocks_of c @ blocks_of d)"
    using wf assms(3) by (simp add: linked_append)
  let ?e = "part (ch_substate d) (ch_changesets c @ ch_changesets d) (blocks_of c @ blocks_of d)"
  have "append_chain c d = Some (Inr ?e)"
  proof -
    have "fold (\<lambda>(n, b). btree_insert n b) (ch_blocks d) (ch_blocks c) = by_number (blocks_of c @ blocks_of d)"
      unfolding chain_wfD(1) [OF c] chain_wfD(1) [OF d] by (rule fold_insert_after [OF l, of "\<lambda>b. b"])
    then show ?thesis
      using assms(3) by (simp add: append_chain_def chain_last_wf [OF c] chain_fork_block_wf [OF d] part_def)
  qed
  moreover have "chain_wf height ?e"
    using l wf by (simp add: chain_wf_part)
  ultimately show ?thesis
    by auto
qed

end
