(* ===== verification/TreeInv.thy ===== *)
theory TreeInv
  imports TreeChains
begin

text \<open>
  The invariant of the blockchain tree and how the parts of its operations keep it. \<open>promoted\<close> are the
  blocks that have left their chains on the way to the canonical chain, and \<open>orphans\<close> the hashes of blocks that have left
  the canonical chain and are not in a chain yet; both are empty between operations.
\<close>

section \<open>Sets under a key\<close>

definition children :: "('k \<rightharpoonup> 'v set) \<Rightarrow> 'k \<Rightarrow> 'v set" where
  "children m k = (case m k of Some s \<Rightarrow> s | None \<Rightarrow> {})"

definition no_empty :: "('k \<rightharpoonup> 'v set) \<Rightarrow> bool" where
  "no_empty m \<longleftrightarrow> (\<forall>k. m k \<noteq> Some {})"

lemma children_insert [simp]:
  "children (entry_insert k v m) p = (if p = k then insert v (children m p) else children m p)"
  by (auto simp: children_def entry_insert_def)

lemma children_remove [simp]:
  "children (entry_remove k v m) p = (if p = k then children m p - {v} else children m p)"
  by (auto simp: children_def entry_remove_def split: option.splits)

lemma no_empty_insert [simp]: "no_empty m \<Longrightarrow> no_empty (entry_insert k v m)"
  by (auto simp: no_empty_def entry_insert_def)

lemma no_empty_remove [simp]: "no_empty m \<Longrightarrow> no_empty (entry_remove k v m)"
  by (auto simp: no_empty_def entry_remove_def split: option.split)

lemma children_delete [simp]: "children (m(k := None)) p = (if p = k then {} else children m p)"
  by (auto simp: children_def)

lemma no_empty_delete [simp]: "no_empty m \<Longrightarrow> no_empty (m(k := None))"
  by (auto simp: no_empty_def)

section \<open>Effects on the indices\<close>

lemma insert_blocks_index:
  fixes s :: block_indices
  defines "f \<equiv> \<lambda>i (n, b) s.
            s\<lparr>bi_blocks_to_chain := (bi_blocks_to_chain s)(bk_hash b \<mapsto> i),
              bi_index_number_to_block := entry_insert n (bk_hash b) (bi_index_number_to_block s)\<rparr>"
  shows "bi_blocks_to_chain (fold (f i) es s) h = (if h \<in> (\<lambda>e. bk_hash (snd e)) ` set es then Some i else bi_blocks_to_chain s h)"
    "bi_canonical_chain (fold (f i) es s) = bi_canonical_chain s"
    "bi_last_finalized_block (fold (f i) es s) = bi_last_finalized_block s"
    "bi_num_of_additional_canonical_block_hashes (fold (f i) es s) = bi_num_of_additional_canonical_block_hashes s"
    "bi_fork_to_child (fold (f i) es s) = bi_fork_to_child s"
  by (induction es arbitrary: s) (auto simp: f_def)

lemma bi_insert_chain_wf:
  assumes "chain_wf height c"
  shows "\<exists>s'. bi_insert_chain i c s = Some s' \<and>
    (\<forall>h. bi_blocks_to_chain s' h = (if h \<in> bk_hash ` set (blocks_of c) then Some i else bi_blocks_to_chain s h)) \<and>
    bi_canonical_chain s' = bi_canonical_chain s \<and> bi_last_finalized_block s' = bi_last_finalized_block s \<and>
    bi_fork_to_child s' =
      entry_insert (bk_parent_hash (hd (blocks_of c))) (bk_hash (hd (blocks_of c))) (bi_fork_to_child s)"
proof -
  have "(\<lambda>e. bk_hash (snd e)) ` set (ch_blocks c) = bk_hash ` set (blocks_of c)"
    by (simp add: blocks_of_def image_image)
  then show ?thesis
    by (simp add: bi_insert_chain_def Let_def chain_first_wf [OF assms] insert_blocks_index)
qed

lemma canonicalize_fold:
  fixes s :: block_indices
  defines "f \<equiv> \<lambda>(n :: u64, b) s.
                     s\<lparr>bi_blocks_to_chain := (bi_blocks_to_chain s)(bk_hash b := None),
                       bi_index_number_to_block := entry_remove (bk_number b) (bk_hash b) (bi_index_number_to_block s),
                       bi_fork_to_child := entry_remove (bk_parent_hash b) (bk_hash b) (bi_fork_to_child s)\<rparr>"
  shows "bi_blocks_to_chain (fold f (by_number bs) s) h = (if h \<in> bk_hash ` set bs then None else bi_blocks_to_chain s h)"
    "bi_canonical_chain (fold f (by_number bs) s) = bi_canonical_chain s"
    "bi_last_finalized_block (fold f (by_number bs) s) = bi_last_finalized_block s"
    "children (bi_fork_to_child (fold f (by_number bs) s)) p =
       children (bi_fork_to_child s) p - {bk_hash b | b. b \<in> set bs \<and> bk_parent_hash b = p}"
    "no_empty (bi_fork_to_child s) \<Longrightarrow> no_empty (bi_fork_to_child (fold f (by_number bs) s))"
  by (induction bs arbitrary: s) (auto simp: f_def)

lemma fold_insert_above:
  assumes "linked height bs" and "\<forall>k \<in> fst ` set m. \<forall>b \<in> set bs. k < bk_number b"
  shows "fold (\<lambda>(n, b). btree_insert n (bk_hash b)) (by_number bs) m = m @ map (\<lambda>b. (bk_number b, bk_hash b)) bs"
  using assms
proof (induction bs arbitrary: m)
  case (Cons b bs)
  have "btree_insert (bk_number b) (bk_hash b) m = m @ [(bk_number b, bk_hash b)]"
    using Cons.prems(2) by (intro btree_insert_last) auto
  moreover have "\<forall>k \<in> fst ` set (m @ [(bk_number b, bk_hash b)]). \<forall>b \<in> set bs. k < bk_number b"
    using Cons.prems linked_less [of height "[b]" bs] by auto
  ultimately show ?case
    using Cons.IH [of "m @ [(bk_number b, bk_hash b)]"] Cons.prems(1) by (simp add: linked_Cons)
qed simp

lemma canonicalize_blocks_eq:
  fixes s :: block_indices
  assumes l: "linked height bs" and "bs \<noteq> []"
  defines "s' \<equiv> canonicalize_blocks (by_number bs) s"
  shows "\<forall>h. bi_blocks_to_chain s' h = (if h \<in> bk_hash ` set bs then None else bi_blocks_to_chain s h)"
    "bi_canonical_chain s' =
       filter (\<lambda>(n, _). n < bk_number (hd bs)) (bi_canonical_chain s) @ map (\<lambda>b. (bk_number b, bk_hash b)) bs"
    "bi_last_finalized_block s' = bi_last_finalized_block s"
    "\<forall>p. children (bi_fork_to_child s') p =
       children (bi_fork_to_child s) p - {bk_hash b | b. b \<in> set bs \<and> bk_parent_hash b = p}"
    "no_empty (bi_fork_to_child s) \<Longrightarrow> no_empty (bi_fork_to_child s')"
proof -
  let ?m = "filter (\<lambda>(n, _). n < bk_number (hd bs)) (bi_canonical_chain s)"
  have "bk_number (hd bs) \<le> bk_number b" if "b \<in> set bs" for b
    using l that by (cases bs) (auto dest: linked_first_le)
  then have "\<forall>k \<in> fst ` set ?m. \<forall>b \<in> set bs. k < bk_number b"
    by fastforce
  note above = fold_insert_above [OF l this]
  have s': "s' = (let s = s\<lparr>bi_canonical_chain := ?m\<rparr>;
               s = fold (\<lambda>(_, b) s.
                     s\<lparr>bi_blocks_to_chain := (bi_blocks_to_chain s)(bk_hash b := None),
                       bi_index_number_to_block := entry_remove (bk_number b) (bk_hash b) (bi_index_number_to_block s),
                       bi_fork_to_child := entry_remove (bk_parent_hash b) (bk_hash b) (bi_fork_to_child s)\<rparr>) (by_number bs) s
           in s\<lparr>bi_canonical_chain := fold (\<lambda>(n, b). btree_insert n (bk_hash b)) (by_number bs) (bi_canonical_chain s)\<rparr>)"
    using assms(2) by (cases bs) (simp_all add: s'_def canonicalize_blocks_def)
  show "\<forall>h. bi_blocks_to_chain s' h = (if h \<in> bk_hash ` set bs then None else bi_blocks_to_chain s h)"
    "bi_canonical_chain s' = ?m @ map (\<lambda>b. (bk_number b, bk_hash b)) bs"
    "bi_last_finalized_block s' = bi_last_finalized_block s"
    "\<forall>p. children (bi_fork_to_child s') p =
       children (bi_fork_to_child s) p - {bk_hash b | b. b \<in> set bs \<and> bk_parent_hash b = p}"
    unfolding s' by (simp_all add: Let_def canonicalize_fold above)
  show "no_empty (bi_fork_to_child s')" if "no_empty (bi_fork_to_child s)"
    unfolding s' using that by (simp add: Let_def canonicalize_fold(5))
qed

section \<open>The invariant\<close>

definition in_chain :: "(u64 \<rightharpoonup> chain) \<Rightarrow> u64 \<Rightarrow> h256 \<Rightarrow> bool" where
  "in_chain cs i h \<longleftrightarrow> (\<exists>c b. cs i = Some c \<and> b \<in> set (blocks_of c) \<and> bk_hash b = h)"

definition starts :: "(u64 \<rightharpoonup> chain) \<Rightarrow> h256 \<Rightarrow> h256 \<Rightarrow> bool" where
  "starts cs p h \<longleftrightarrow>
     (\<exists>i c. cs i = Some c \<and> bk_parent_hash (hd (blocks_of c)) = p \<and> bk_hash (hd (blocks_of c)) = h)"

definition tree_wf ::
    "(h256 \<Rightarrow> u64) \<Rightarrow> sealed_block_with_senders list \<Rightarrow> h256 set \<Rightarrow> 'db blockchain_tree \<Rightarrow> bool" where
  "tree_wf height promoted orphans t \<longleftrightarrow>
     (let cs = bt_chains t; s = bt_block_indices t; m = bi_canonical_chain s in
      (\<forall>i c. cs i = Some c \<longrightarrow> chain_wf height c \<and> i < bt_block_chain_id_generator t) \<and>
      (\<forall>h i. h \<notin> bk_hash ` set promoted \<longrightarrow> (bi_blocks_to_chain s h = Some i) = in_chain cs i h) \<and>
      (\<forall>i h. in_chain cs i h \<longrightarrow> h \<notin> bk_hash ` set promoted) \<and>
      btree_wf m \<and> m \<noteq> [] \<and>
      (\<forall>n h. (n, h) \<in> set m \<longrightarrow> height h = n \<and> h \<notin> bk_hash ` set promoted \<and> (\<forall>i. \<not> in_chain cs i h)) \<and>
      (\<forall>i c. cs i = Some c \<longrightarrow>
         bi_last_finalized_block s < bk_number (hd (blocks_of c)) \<and>
         (let p = bk_parent_hash (hd (blocks_of c)) in
          (height p, p) \<in> set m \<or> (\<exists>j. in_chain cs j p) \<or> p \<in> bk_hash ` set promoted \<or> p \<in> orphans)) \<and>
      no_empty (bi_fork_to_child s) \<and>
      (\<forall>p h. h \<in> children (bi_fork_to_child s) p \<longrightarrow>
         starts cs p h \<or> (\<exists>b \<in> set promoted. bk_hash b = h \<and> bk_parent_hash b = p)) \<and>
      (\<forall>p h. starts cs p h \<longrightarrow> h \<in> children (bi_fork_to_child s) p))"

lemma tree_wfD:
  assumes "tree_wf height promoted orphans t"
  shows "bt_chains t i = Some c \<Longrightarrow> chain_wf height c"
    "bt_chains t i = Some c \<Longrightarrow> i < bt_block_chain_id_generator t"
    "h \<notin> bk_hash ` set promoted \<Longrightarrow> (bi_blocks_to_chain (bt_block_indices t) h = Some i) = in_chain (bt_chains t) i h"
    "in_chain (bt_chains t) i h \<Longrightarrow> h \<notin> bk_hash ` set promoted"
    "btree_wf (bi_canonical_chain (bt_block_indices t))"
    "bi_canonical_chain (bt_block_indices t) \<noteq> []"
    "(n, h) \<in> set (bi_canonical_chain (bt_block_indices t)) \<Longrightarrow>
       height h = n \<and> h \<notin> bk_hash ` set promoted \<and> \<not> in_chain (bt_chains t) i h"
    "bt_chains t i = Some c \<Longrightarrow> bi_last_finalized_block (bt_block_indices t) < bk_number (hd (blocks_of c))"
    "bt_chains t i = Some c \<Longrightarrow> p = bk_parent_hash (hd (blocks_of c)) \<Longrightarrow>
       (height p, p) \<in> set (bi_canonical_chain (bt_block_indices t)) \<or> (\<exists>j. in_chain (bt_chains t) j p) \<or>
       p \<in> bk_hash ` set promoted \<or> p \<in> orphans"
    "no_empty (bi_fork_to_child (bt_block_indices t))"
    "h \<in> children (bi_fork_to_child (bt_block_indices t)) p \<Longrightarrow>
       starts (bt_chains t) p h \<or> (\<exists>b \<in> set promoted. bk_hash b = h \<and> bk_parent_hash b = p)"
    "starts (bt_chains t) p h \<Longrightarrow> h \<in> children (bi_fork_to_child (bt_block_indices t)) p"
  using assms by (simp_all add: tree_wf_def Let_def)

lemma tree_wfI:
  assumes "\<And>i c. bt_chains t i = Some c \<Longrightarrow> chain_wf height c \<and> i < bt_block_chain_id_generator t"
    "\<And>h i. h \<notin> bk_hash ` set promoted \<Longrightarrow> (bi_blocks_to_chain (bt_block_indices t) h = Some i) = in_chain (bt_chains t) i h"
    "\<And>i h. in_chain (bt_chains t) i h \<Longrightarrow> h \<notin> bk_hash ` set promoted"
    "btree_wf (bi_canonical_chain (bt_block_indices t))"
    "bi_canonical_chain (bt_block_indices t) \<noteq> []"
    "\<And>n h. (n, h) \<in> set (bi_canonical_chain (bt_block_indices t)) \<Longrightarrow>
       height h = n \<and> h \<notin> bk_hash ` set promoted \<and> (\<forall>i. \<not> in_chain (bt_chains t) i h)"
    "\<And>i c. bt_chains t i = Some c \<Longrightarrow> bi_last_finalized_block (bt_block_indices t) < bk_number (hd (blocks_of c))"
    "\<And>i c p. bt_chains t i = Some c \<Longrightarrow> p = bk_parent_hash (hd (blocks_of c)) \<Longrightarrow>
       (height p, p) \<in> set (bi_canonical_chain (bt_block_indices t)) \<or> (\<exists>j. in_chain (bt_chains t) j p) \<or>
       p \<in> bk_hash ` set promoted \<or> p \<in> orphans"
    "no_empty (bi_fork_to_child (bt_block_indices t))"
    "\<And>h p. h \<in> children (bi_fork_to_child (bt_block_indices t)) p \<Longrightarrow>
       starts (bt_chains t) p h \<or> (\<exists>b \<in> set promoted. bk_hash b = h \<and> bk_parent_hash b = p)"
    "\<And>p h. starts (bt_chains t) p h \<Longrightarrow> h \<in> children (bi_fork_to_child (bt_block_indices t)) p"
  shows "tree_wf height promoted orphans t"
proof -
  have 1: "\<forall>i c. bt_chains t i = Some c \<longrightarrow> chain_wf height c \<and> i < bt_block_chain_id_generator t"
    using assms(1) by blast
  have 2: "\<forall>h i. h \<notin> bk_hash ` set promoted \<longrightarrow>
      (bi_blocks_to_chain (bt_block_indices t) h = Some i) = in_chain (bt_chains t) i h"
    using assms(2) by blast
  have 3: "\<forall>i h. in_chain (bt_chains t) i h \<longrightarrow> h \<notin> bk_hash ` set promoted"
    using assms(3) by blast
  have 6: "\<forall>n h. (n, h) \<in> set (bi_canonical_chain (bt_block_indices t)) \<longrightarrow>
      height h = n \<and> h \<notin> bk_hash ` set promoted \<and> (\<forall>i. \<not> in_chain (bt_chains t) i h)"
    using assms(6) by blast
  have 7: "\<forall>i c. bt_chains t i = Some c \<longrightarrow>
         bi_last_finalized_block (bt_block_indices t) < bk_number (hd (blocks_of c)) \<and>
         (let p = bk_parent_hash (hd (blocks_of c)) in
          (height p, p) \<in> set (bi_canonical_chain (bt_block_indices t)) \<or> (\<exists>j. in_chain (bt_chains t) j p) \<or>
          p \<in> bk_hash ` set promoted \<or> p \<in> orphans)"
    unfolding Let_def using assms(7) assms(8) [OF _ refl] by blast
  have 10: "\<forall>p h. h \<in> children (bi_fork_to_child (bt_block_indices t)) p \<longrightarrow>
       starts (bt_chains t) p h \<or> (\<exists>b \<in> set promoted. bk_hash b = h \<and> bk_parent_hash b = p)"
    using assms(10) by blast
  have 11: "\<forall>p h. starts (bt_chains t) p h \<longrightarrow> h \<in> children (bi_fork_to_child (bt_block_indices t)) p"
    using assms(11) by blast
  show ?thesis
    unfolding tree_wf_def Let_def using 7 [unfolded Let_def] by (intro conjI 1 2 3 6 10 11 assms(4,5,9))
qed

lemma tree_wf_cong:
  assumes "tree_wf height promoted orphans t" and "bt_chains t' = bt_chains t" and "bt_block_indices t' = bt_block_indices t"
    and "bt_block_chain_id_generator t' = bt_block_chain_id_generator t"
  shows "tree_wf height promoted orphans t'"
  using assms by (simp add: tree_wf_def)

text \<open>All blocks of the chains.\<close>

definition tree_blocks :: "(u64 \<rightharpoonup> chain) \<Rightarrow> sealed_block_with_senders set" where
  "tree_blocks cs = {b. \<exists>i c. cs i = Some c \<and> b \<in> set (blocks_of c)}"

lemma tree_blocks_upd:
  assumes "cs i = None"
  shows "tree_blocks (cs(i \<mapsto> c)) = set (blocks_of c) \<union> tree_blocks cs"
proof -
  have "(\<exists>j d. (cs(i \<mapsto> c)) j = Some d \<and> b \<in> set (blocks_of d)) \<longleftrightarrow>
      b \<in> set (blocks_of c) \<or> (\<exists>j d. cs j = Some d \<and> b \<in> set (blocks_of d))" for b
  proof
    assume "\<exists>j d. (cs(i \<mapsto> c)) j = Some d \<and> b \<in> set (blocks_of d)"
    then obtain j d where "(cs(i \<mapsto> c)) j = Some d" "b \<in> set (blocks_of d)"
      by blast
    then show "b \<in> set (blocks_of c) \<or> (\<exists>j d. cs j = Some d \<and> b \<in> set (blocks_of d))"
      by (cases "j = i") auto
  next
    assume "b \<in> set (blocks_of c) \<or> (\<exists>j d. cs j = Some d \<and> b \<in> set (blocks_of d))"
    then obtain j d where "(cs(i \<mapsto> c)) j = Some d" "b \<in> set (blocks_of d)"
      using assms by (metis fun_upd_apply option.distinct(1))
    then show "\<exists>j d. (cs(i \<mapsto> c)) j = Some d \<and> b \<in> set (blocks_of d)"
      by blast
  qed
  then show ?thesis
    unfolding tree_blocks_def by blast
qed

lemma tree_blocks_drop: "cs i = Some c \<Longrightarrow> tree_blocks cs = set (blocks_of c) \<union> tree_blocks (cs(i := None))"
  using tree_blocks_upd [of "cs(i := None)" i c] by (simp add: fun_upd_idem)

lemma in_chainI: "cs i = Some c \<Longrightarrow> b \<in> set (blocks_of c) \<Longrightarrow> in_chain cs i (bk_hash b)"
  by (auto simp: in_chain_def)

text \<open>A hash is in one chain only.\<close>

lemma in_chain_unique:
  assumes wf: "tree_wf height promoted orphans t" and i: "in_chain (bt_chains t) i h" and j: "in_chain (bt_chains t) j h"
  shows "i = j"
proof -
  note p = tree_wfD(4) [OF wf i]
  have "bi_blocks_to_chain (bt_block_indices t) h = Some i" "bi_blocks_to_chain (bt_block_indices t) h = Some j"
    using i j by (simp_all only: tree_wfD(3) [OF wf p])
  then show ?thesis
    by simp
qed

text \<open>The next identifier is free.\<close>

lemma tree_generator_free:
  assumes wf: "tree_wf height promoted orphans t"
  shows "bt_chains t (bt_block_chain_id_generator t) = None"
proof (rule ccontr)
  assume "bt_chains t (bt_block_chain_id_generator t) \<noteq> None"
  then obtain d where "bt_chains t (bt_block_chain_id_generator t) = Some d"
    by blast
  from tree_wfD(2) [OF wf this] show False
    by simp
qed

lemma tree_block_ok:
  assumes wf: "tree_wf height promoted orphans t" and c: "bt_chains t i = Some c" and b: "b \<in> set (blocks_of c)"
  shows "block_ok height b"
  by (rule linked_block [OF chain_wfD(2) [OF tree_wfD(1) [OF wf c]] b])

text \<open>A chain contains no block at or below the parent of its first block.\<close>

lemma tree_block_above:
  assumes wf: "tree_wf height promoted orphans t" and c: "bt_chains t i = Some c" and b: "b \<in> set (blocks_of c)"
  shows "unat (height (bk_parent_hash (hd (blocks_of c)))) < unat (height (bk_hash b))"
proof -
  note l = chain_wfD(2,3) [OF tree_wfD(1) [OF wf c]]
  have "bk_number (hd (blocks_of c)) \<le> bk_number b"
    using l b by (cases "blocks_of c") (auto dest: linked_first_le)
  moreover have "block_ok height (hd (blocks_of c))" "block_ok height b"
    using l(2) b by (auto intro: tree_block_ok [OF wf c])
  ultimately show ?thesis
    by (auto simp: block_ok_def word_le_nat_alt)
qed

section \<open>Promoting a part of a chain\<close>

lemma promote_wf:
  assumes wf: "tree_wf height promoted {} t" and c: "bt_chains t i = Some c" and bs: "blocks_of c = xs @ ys" and "xs \<noteq> []"
    and cs': "bt_chains t' = (bt_chains t)(i := d)"
    and d: "case d of None \<Rightarrow> ys = [] | Some c2 \<Rightarrow> ys \<noteq> [] \<and> chain_wf height c2 \<and> blocks_of c2 = ys"
    and f2c: "bi_fork_to_child (bt_block_indices t') =
      (if ys = [] then bi_fork_to_child (bt_block_indices t)
       else entry_insert (bk_parent_hash (hd ys)) (bk_hash (hd ys)) (bi_fork_to_child (bt_block_indices t)))"
    and b2c: "bi_blocks_to_chain (bt_block_indices t') = bi_blocks_to_chain (bt_block_indices t)"
    and canon: "bi_canonical_chain (bt_block_indices t') = bi_canonical_chain (bt_block_indices t)"
    and lf: "bi_last_finalized_block (bt_block_indices t') = bi_last_finalized_block (bt_block_indices t)"
    and gen: "bt_block_chain_id_generator t' = bt_block_chain_id_generator t"
  shows "tree_wf height (xs @ promoted) {} t'"
proof -
  note cw = tree_wfD(1) [OF wf c]
  have l: "linked height (xs @ ys)"
    using chain_wfD(2) [OF cw] bs by simp
  have apart: "bk_hash b \<noteq> bk_hash b'" if "b \<in> set xs" "b' \<in> set ys" for b b'
    using linked_hash_inj [OF l, of b b'] linked_less [OF l that] that by auto
  then have disj: "bk_hash ` set xs \<inter> bk_hash ` set ys = {}"
    by blast
  have old: "in_chain (bt_chains t) i h" if "h \<in> bk_hash ` set xs" for h
    using that c bs by (auto simp: in_chain_def)
  have ic_i: "in_chain (bt_chains t') i h \<longleftrightarrow> h \<in> bk_hash ` set ys" for h
    using cs' d by (cases d) (auto simp: in_chain_def)
  have ic: "in_chain (bt_chains t') j h \<longleftrightarrow> in_chain (bt_chains t) j h \<and> h \<notin> bk_hash ` set xs" for j h
  proof (cases "j = i")
    case True
    have "in_chain (bt_chains t) i h \<longleftrightarrow> h \<in> bk_hash ` set xs \<or> h \<in> bk_hash ` set ys"
      using c bs by (auto simp: in_chain_def)
    then show ?thesis
      using True ic_i disj by blast
  next
    case False
    then have "in_chain (bt_chains t') j h = in_chain (bt_chains t) j h"
      using cs' by (simp add: in_chain_def)
    then show ?thesis
      using False old in_chain_unique [OF wf] by blast
  qed
  have st: "starts (bt_chains t') p h \<longleftrightarrow>
      (\<exists>j c. j \<noteq> i \<and> bt_chains t j = Some c \<and> bk_parent_hash (hd (blocks_of c)) = p \<and> bk_hash (hd (blocks_of c)) = h) \<or>
      (ys \<noteq> [] \<and> p = bk_parent_hash (hd ys) \<and> h = bk_hash (hd ys))" for p h
    using cs' d by (cases d) (auto simp: starts_def)
  have first: "hd (blocks_of c) = hd xs" "hd xs \<in> set xs"
    using bs assms(4) by simp_all
  have next_parent: "bk_parent_hash (hd ys) = bk_hash (last xs)" if "ys \<noteq> []"
    using l that assms(4) by (simp add: linked_append)
  have next_number: "bk_number (hd xs) < bk_number (hd ys)" if "ys \<noteq> []"
    using linked_less [OF l first(2), of "hd ys"] that by simp
  show ?thesis
  proof (rule tree_wfI)
    fix j e
    assume e: "bt_chains t' j = Some e"
    then consider "j \<noteq> i" "bt_chains t j = Some e" | "j = i" "ys \<noteq> []" "chain_wf height e" "blocks_of e = ys"
      using cs' d by (cases "j = i"; cases d) auto
    note cases = this
    show "chain_wf height e \<and> j < bt_block_chain_id_generator t'"
      using cases tree_wfD(1,2) [OF wf] c by cases (simp_all add: gen)
    show "bi_last_finalized_block (bt_block_indices t') < bk_number (hd (blocks_of e))"
      using cases
    proof cases
      case 1
      then show ?thesis
        using tree_wfD(8) [OF wf] lf by simp
    next
      case 2
      then show ?thesis
        using tree_wfD(8) [OF wf c] lf next_number first by simp
    qed
    fix p
    assume p: "p = bk_parent_hash (hd (blocks_of e))"
    show "(height p, p) \<in> set (bi_canonical_chain (bt_block_indices t')) \<or> (\<exists>j. in_chain (bt_chains t') j p) \<or>
       p \<in> bk_hash ` set (xs @ promoted) \<or> p \<in> {}"
      using cases
    proof cases
      case 1
      then show ?thesis
        using tree_wfD(9) [OF wf 1(2) p] ic canon by auto
    next
      case 2
      then show ?thesis
        using next_parent p assms(4) by simp
    qed
  next
    fix h j
    assume "h \<notin> bk_hash ` set (xs @ promoted)"
    then show "(bi_blocks_to_chain (bt_block_indices t') h = Some j) = in_chain (bt_chains t') j h"
      using tree_wfD(3) [OF wf, of h j] by (simp add: b2c ic image_Un)
  next
    fix j h
    assume "in_chain (bt_chains t') j h"
    then show "h \<notin> bk_hash ` set (xs @ promoted)"
      using tree_wfD(4) [OF wf, of j h] by (auto simp: ic)
  next
    show "btree_wf (bi_canonical_chain (bt_block_indices t'))" "bi_canonical_chain (bt_block_indices t') \<noteq> []"
      using tree_wfD(5,6) [OF wf] by (simp_all add: canon)
  next
    fix n h
    assume "(n, h) \<in> set (bi_canonical_chain (bt_block_indices t'))"
    then have "height h = n \<and> h \<notin> bk_hash ` set promoted \<and> \<not> in_chain (bt_chains t) j h" for j
      unfolding canon by (rule tree_wfD(7) [OF wf])
    moreover from this have "h \<notin> bk_hash ` set xs"
      using old by blast
    ultimately show "height h = n \<and> h \<notin> bk_hash ` set (xs @ promoted) \<and> (\<forall>i. \<not> in_chain (bt_chains t') i h)"
      by (simp add: ic image_Un)
  next
    show "no_empty (bi_fork_to_child (bt_block_indices t'))"
      using tree_wfD(10) [OF wf] by (simp add: f2c)
  next
    fix h p
    assume "h \<in> children (bi_fork_to_child (bt_block_indices t')) p"
    then consider "ys \<noteq> []" "p = bk_parent_hash (hd ys)" "h = bk_hash (hd ys)" | "h \<in> children (bi_fork_to_child (bt_block_indices t)) p"
      by (auto simp: f2c split: if_splits)
    then show "starts (bt_chains t') p h \<or> (\<exists>b \<in> set (xs @ promoted). bk_hash b = h \<and> bk_parent_hash b = p)"
    proof cases
      case 2
      then have "starts (bt_chains t) p h \<or> (\<exists>b \<in> set promoted. bk_hash b = h \<and> bk_parent_hash b = p)"
        by (rule tree_wfD(11) [OF wf])
      then show ?thesis
      proof
        assume "starts (bt_chains t) p h"
        then obtain j e where e: "bt_chains t j = Some e" "bk_parent_hash (hd (blocks_of e)) = p" "bk_hash (hd (blocks_of e)) = h"
          unfolding starts_def by blast
        show ?thesis
        proof (cases "j = i")
          case True
          then have "hd (blocks_of e) = hd xs"
            using e(1) c first(1) by simp
          then show ?thesis
            using e(2,3) first(2) by auto
        next
          case False
          then show ?thesis
            using e by (auto simp: st)
        qed
      qed auto
    qed (simp add: st)
  next
    fix p h
    assume "starts (bt_chains t') p h"
    then consider "starts (bt_chains t) p h" | "ys \<noteq> []" "p = bk_parent_hash (hd ys)" "h = bk_hash (hd ys)"
      unfolding st using starts_def [of "bt_chains t"] by blast
    then show "h \<in> children (bi_fork_to_child (bt_block_indices t')) p"
      using tree_wfD(12) [OF wf, of p h] by cases (auto simp: f2c)
  qed
qed

lemma split_chain_wf:
  assumes wf: "tree_wf height promoted {} t" and c: "bt_chains t i = Some c" and b: "b \<in> set (blocks_of c)"
    and at: "at \<in> {SplitAt_Hash (bk_hash b), SplitAt_Number (bk_number b)}"
  shows "\<exists>c1 t'. split_chain i c at (t\<lparr>bt_chains := (bt_chains t)(i := None)\<rparr>) = Some (c1, t') \<and>
    chain_wf height c1 \<and> last (blocks_of c1) = b \<and> hd (blocks_of c1) = hd (blocks_of c) \<and>
    tree_wf height (blocks_of c1 @ promoted) {} t' \<and>
    set (blocks_of c1) \<union> tree_blocks (bt_chains t') = tree_blocks (bt_chains t) \<and>
    (\<forall>j. j \<noteq> i \<longrightarrow> bt_chains t' j = bt_chains t j) \<and>
    bi_canonical_chain (bt_block_indices t') = bi_canonical_chain (bt_block_indices t) \<and>
    bi_last_finalized_block (bt_block_indices t') = bi_last_finalized_block (bt_block_indices t) \<and>
    bt_block_chain_id_generator t' = bt_block_chain_id_generator t \<and> bt_db t' = bt_db t"
proof -
  let ?t = "t\<lparr>bt_chains := (bt_chains t)(i := None)\<rparr>"
  note cw = tree_wfD(1) [OF wf c]
  obtain xs ys c1 where xs: "blocks_of c = xs @ ys" "xs \<noteq> []" "last xs = b" "chain_wf height c1" "blocks_of c1 = xs"
    and ys: "if ys = [] then c1 = c \<and> chain_split_at at c = Some (NoSplitCanonical c1)
     else \<exists>c2. chain_wf height c2 \<and> blocks_of c2 = ys \<and> chain_split_at at c = Some (Split c1 c2)"
    using chain_split_wf [OF cw b at] by blast
  have hd: "hd (blocks_of c1) = hd (blocks_of c)"
    using xs by simp
  show ?thesis
  proof (cases "ys = []")
    case True
    then have "split_chain i c at ?t = Some (c1, ?t)"
      using ys by (simp add: split_chain_def)
    moreover have "set xs \<union> tree_blocks (bt_chains ?t) = tree_blocks (bt_chains t)"
      using tree_blocks_drop [where cs = "bt_chains t", OF c] xs(1) True by simp
    moreover have "tree_wf height (xs @ promoted) {} ?t"
      by (rule promote_wf [OF wf c xs(1,2), where d = None]) (use True in simp_all)
    ultimately show ?thesis
      using xs hd by (intro exI [of _ c1] exI [of _ ?t]) simp
  next
    case False
    then obtain c2 where c2: "chain_wf height c2" "blocks_of c2 = ys" "chain_split_at at c = Some (Split c1 c2)"
      using ys by auto
    obtain s' where s': "bi_insert_chain i c2 (bt_block_indices t) = Some s'"
      "\<forall>h. bi_blocks_to_chain s' h = (if h \<in> bk_hash ` set ys then Some i else bi_blocks_to_chain (bt_block_indices t) h)"
      "bi_canonical_chain s' = bi_canonical_chain (bt_block_indices t)"
      "bi_last_finalized_block s' = bi_last_finalized_block (bt_block_indices t)"
      "bi_fork_to_child s' = entry_insert (bk_parent_hash (hd ys)) (bk_hash (hd ys)) (bi_fork_to_child (bt_block_indices t))"
      using bi_insert_chain_wf [OF c2(1), of i "bt_block_indices t"] c2(2) by auto
    let ?t' = "t\<lparr>bt_block_indices := s', bt_chains := (bt_chains t)(i \<mapsto> c2)\<rparr>"
    have "split_chain i c at ?t = Some (c1, ?t')"
      using c2(3) s'(1) by (simp add: split_chain_def)
    moreover have b2c: "bi_blocks_to_chain s' = bi_blocks_to_chain (bt_block_indices t)"
    proof
      fix h
      have "bi_blocks_to_chain (bt_block_indices t) h = Some i" if "h \<in> bk_hash ` set ys"
      proof -
        have "in_chain (bt_chains t) i h"
          using that c xs(1) by (auto simp: in_chain_def)
        then show ?thesis
          using tree_wfD(3,4) [OF wf] by blast
      qed
      then show "bi_blocks_to_chain s' h = bi_blocks_to_chain (bt_block_indices t) h"
        using s'(2) by simp
    qed
    moreover have "set xs \<union> tree_blocks (bt_chains ?t') = tree_blocks (bt_chains t)"
      using tree_blocks_drop [where cs = "bt_chains t", OF c]
        tree_blocks_upd [of "(bt_chains t)(i := None)" i c2] xs(1) c2(2) by auto
    moreover have "tree_wf height (xs @ promoted) {} ?t'"
      by (rule promote_wf [OF wf c xs(1,2), where d = "Some c2"]) (use False c2 s' b2c in simp_all)
    ultimately show ?thesis
      using xs hd s' by (intro exI [of _ c1] exI [of _ ?t']) simp
  qed
qed

text \<open>
  The walk down to the canonical chain. \<open>cs\<close> are the promoted parts, the lowest last, and \<open>bs\<close> their blocks.
\<close>

lemma promote_loop_wf:
  assumes "tree_wf height bs {} t" and "bs = concat (map blocks_of (rev cs))" and "bs \<noteq> []" and "linked height bs"
    and "\<forall>c \<in> set cs. chain_wf height c"
    and "fb_hash fork = bk_parent_hash (hd bs)" and "n = height (fb_hash fork)"
    and "(n, fb_hash fork) \<in> set (bi_canonical_chain (bt_block_indices t)) \<or> (\<exists>j. in_chain (bt_chains t) j (fb_hash fork))"
    and "bi_last_finalized_block (bt_block_indices t) < bk_number (hd bs)"
  shows "\<exists>cs' t' bs'. promote_loop fork n cs t = Some (cs', t') \<and> tree_wf height bs' {} t' \<and>
    bs' = concat (map blocks_of (rev cs')) \<and> bs' \<noteq> [] \<and> linked height bs' \<and> (\<forall>c \<in> set cs'. chain_wf height c) \<and> cs' \<noteq> [] \<and>
    last bs' = last bs \<and> set bs' \<union> tree_blocks (bt_chains t') = set bs \<union> tree_blocks (bt_chains t) \<and>
    (height (bk_parent_hash (hd bs')), bk_parent_hash (hd bs')) \<in> set (bi_canonical_chain (bt_block_indices t')) \<and>
    bi_canonical_chain (bt_block_indices t') = bi_canonical_chain (bt_block_indices t) \<and>
    bi_last_finalized_block (bt_block_indices t') = bi_last_finalized_block (bt_block_indices t) \<and>
    bi_last_finalized_block (bt_block_indices t') < bk_number (hd bs') \<and>
    bt_block_chain_id_generator t' = bt_block_chain_id_generator t \<and> bt_db t' = bt_db t"
  using assms
proof (induction "unat n" arbitrary: fork n cs t bs rule: less_induct)
  case less
  note wf = less.prems(1)
  let ?p = "fb_hash fork"
  have below: "bk_hash b \<noteq> ?p" if "b \<in> set bs" for b
  proof -
    have "bk_number (hd bs) \<le> bk_number b" "block_ok height (hd bs)" "block_ok height b"
      using less.prems(3,4) that by (cases bs; auto dest: linked_first_le linked_block)+
    then show ?thesis
      using less.prems(6) by (auto simp: block_ok_def word_le_nat_alt)
  qed
  then have p: "?p \<notin> bk_hash ` set bs"
    by force
  show ?case
  proof (cases "bi_blocks_to_chain (bt_block_indices t) ?p")
    case None
    then have "\<not> in_chain (bt_chains t) j ?p" for j
      using tree_wfD(3) [OF wf p, of j] by simp
    then have canon: "(n, ?p) \<in> set (bi_canonical_chain (bt_block_indices t))"
      using less.prems(8) by blast
    have "promote_loop fork n cs t = Some (cs, t)"
      by (subst promote_loop.simps) (simp add: None)
    moreover have "cs \<noteq> []"
      using less.prems(2,3) by auto
    ultimately show ?thesis
      using less.prems canon by (intro exI [of _ cs] exI [of _ t] exI [of _ bs]) simp
  next
    case (Some i)
    then have "in_chain (bt_chains t) i ?p"
      using tree_wfD(3) [OF wf p, of i] by simp
    then obtain c b where c: "bt_chains t i = Some c" and b: "b \<in> set (blocks_of c)" "bk_hash b = ?p"
      unfolding in_chain_def by blast
    note cw = tree_wfD(1) [OF wf c] and ok = tree_block_ok [OF wf c b(1)]
    have n: "n = bk_number b"
      using ok b(2) less.prems(7) by (simp add: block_ok_def)
    let ?q = "bk_parent_hash (hd (blocks_of c))"
    let ?fork = "\<lparr>fb_number = height ?q, fb_hash = ?q\<rparr>"
    have q: "unat (height ?q) < unat n"
      using tree_block_above [OF wf c b(1)] b(2) less.prems(7) by simp
    obtain c1 t1 where split: "split_chain i c (SplitAt_Number n) (t\<lparr>bt_chains := (bt_chains t)(i := None)\<rparr>) = Some (c1, t1)"
      and c1: "chain_wf height c1" "last (blocks_of c1) = b" "hd (blocks_of c1) = hd (blocks_of c)"
      and t1: "tree_wf height (blocks_of c1 @ bs) {} t1"
        "set (blocks_of c1) \<union> tree_blocks (bt_chains t1) = tree_blocks (bt_chains t)" "\<forall>j. j \<noteq> i \<longrightarrow> bt_chains t1 j = bt_chains t j"
        "bi_canonical_chain (bt_block_indices t1) = bi_canonical_chain (bt_block_indices t)"
        "bi_last_finalized_block (bt_block_indices t1) = bi_last_finalized_block (bt_block_indices t)"
        "bt_block_chain_id_generator t1 = bt_block_chain_id_generator t" "bt_db t1 = bt_db t"
      using split_chain_wf [OF wf c b(1), of "SplitAt_Number n"] n by blast
    have loop: "promote_loop fork n cs t = promote_loop ?fork (height ?q) (cs @ [c1]) t1"
      by (subst promote_loop.simps)
        (simp add: Some c split chain_fork_block_wf [OF cw] chain_fork_block_wf [OF c1(1)] c1(3))
    note c1l = chain_wfD(2,3) [OF c1(1)]
    have l: "linked height (blocks_of c1 @ bs)"
      using c1l less.prems(3,4,6) c1(2) b(2) by (simp add: linked_append)
    have hd: "hd (blocks_of c1 @ bs) = hd (blocks_of c)"
      using c1l c1(3) by simp
    have inq: "(height ?q, ?q) \<in> set (bi_canonical_chain (bt_block_indices t1)) \<or> (\<exists>j. in_chain (bt_chains t1) j ?q)"
    proof -
      have notp: "?q \<notin> bk_hash ` set bs"
      proof
        assume "?q \<in> bk_hash ` set bs"
        then obtain b' where b': "b' \<in> set bs" "?q = bk_hash b'"
          by blast
        then have "bk_number (hd bs) \<le> bk_number b'" "block_ok height (hd bs)" "block_ok height b'"
          using less.prems(3,4) by (cases bs; auto dest: linked_first_le linked_block)+
        then show False
          using q b'(2) less.prems(6,7) by (auto simp: block_ok_def word_le_nat_alt)
      qed
      have keep: "in_chain (bt_chains t1) j ?q" if jq: "in_chain (bt_chains t) j ?q" for j
      proof -
        have "j \<noteq> i"
        proof
          assume "j = i"
          then obtain b' where "b' \<in> set (blocks_of c)" "bk_hash b' = ?q"
            using jq c by (auto simp: in_chain_def)
          then show False
            using tree_block_above [OF wf c, of b'] by simp
        qed
        then have "bt_chains t1 j = bt_chains t j"
          using t1(3) by blast
        then show ?thesis
          using jq by (simp add: in_chain_def)
      qed
      have "(height ?q, ?q) \<in> set (bi_canonical_chain (bt_block_indices t)) \<or> (\<exists>j. in_chain (bt_chains t) j ?q)"
        using tree_wfD(9) [OF wf c refl] notp by blast
      then show ?thesis
        unfolding t1(4) using keep by blast
    qed
    have "bi_last_finalized_block (bt_block_indices t1) < bk_number (hd (blocks_of c1 @ bs))"
      using tree_wfD(8) [OF wf c] t1(5) hd by simp
    then have ih: "\<exists>cs' t' bs'. promote_loop ?fork (height ?q) (cs @ [c1]) t1 = Some (cs', t') \<and> tree_wf height bs' {} t' \<and>
      bs' = concat (map blocks_of (rev cs')) \<and> bs' \<noteq> [] \<and> linked height bs' \<and> (\<forall>c \<in> set cs'. chain_wf height c) \<and> cs' \<noteq> [] \<and>
      last bs' = last (blocks_of c1 @ bs) \<and>
      set bs' \<union> tree_blocks (bt_chains t') = set (blocks_of c1 @ bs) \<union> tree_blocks (bt_chains t1) \<and>
      (height (bk_parent_hash (hd bs')), bk_parent_hash (hd bs')) \<in> set (bi_canonical_chain (bt_block_indices t')) \<and>
      bi_canonical_chain (bt_block_indices t') = bi_canonical_chain (bt_block_indices t1) \<and>
      bi_last_finalized_block (bt_block_indices t') = bi_last_finalized_block (bt_block_indices t1) \<and>
      bi_last_finalized_block (bt_block_indices t') < bk_number (hd bs') \<and>
      bt_block_chain_id_generator t' = bt_block_chain_id_generator t1 \<and> bt_db t' = bt_db t1"
      using less.prems(2,3,5) c1(1) l hd inq
      by (intro less.hyps [OF q t1(1)]) auto
    have "last (blocks_of c1 @ bs) = last bs"
      "set (blocks_of c1 @ bs) \<union> tree_blocks (bt_chains t1) = set bs \<union> tree_blocks (bt_chains t)"
      using less.prems(3) t1(2) by auto
    then show ?thesis
      using ih unfolding loop t1(4-7) by simp
  qed
qed

lemma append_all_wf:
  assumes "chain_wf height c" and "\<forall>d \<in> set ds. chain_wf height d" and "linked height (concat (map blocks_of (c # ds)))"
  shows "\<exists>e. append_all c ds = Some e \<and> chain_wf height e \<and> blocks_of e = concat (map blocks_of (c # ds))"
  using assms
proof (induction ds arbitrary: c)
  case (Cons d ds)
  have d: "chain_wf height d" "blocks_of d \<noteq> []" "blocks_of c \<noteq> []"
    using Cons.prems(1,2) chain_wfD(3) by auto
  then have "bk_parent_hash (hd (blocks_of d)) = bk_hash (last (blocks_of c))"
    using Cons.prems(3) by (simp add: linked_append)
  then obtain e where e: "append_chain c d = (Some (Inr e) :: (unit tree_error + chain) option)" "chain_wf height e"
      "blocks_of e = blocks_of c @ blocks_of d"
    using append_chain_wf [OF Cons.prems(1) d(1)] by blast
  then show ?case
    using Cons.IH [OF e(2)] Cons.prems by simp
qed simp

end
