(* ===== verification/TreeOps.thy ===== *)
theory TreeOps
  imports TreeInv
begin

text \<open>
  What the operations of the blockchain tree do to a well-formed tree: changing the canonical chain, inserting a
  chain or a block, finalizing blocks, and discarding chains.
\<close>

section \<open>Changing the canonical chain\<close>

text \<open>The entries that leave the canonical chain become orphans.\<close>

lemma canonicalize_wf:
  assumes wf: "tree_wf height bs {} t" and l: "linked height bs" and "bs \<noteq> []"
    and t': "t' = t\<lparr>bt_block_indices := canonicalize_blocks (by_number bs) (bt_block_indices t)\<rparr>"
  shows "tree_wf height [] (snd ` {e \<in> set (bi_canonical_chain (bt_block_indices t)). \<not> fst e < bk_number (hd bs)}) t'"
proof -
  let ?s = "bt_block_indices t"
  note eq = canonicalize_blocks_eq [OF l assms(3), of ?s]
  have cs: "bt_chains t' = bt_chains t" "bt_block_chain_id_generator t' = bt_block_chain_id_generator t"
    and s': "bt_block_indices t' = canonicalize_blocks (by_number bs) ?s"
    by (simp_all add: t')
  have first: "bk_number (hd bs) \<le> bk_number b" if "b \<in> set bs" for b
    using l that by (cases bs) (auto dest: linked_first_le)
  let ?low = "filter (\<lambda>(n, _). n < bk_number (hd bs)) (bi_canonical_chain ?s)"
  have wfm: "btree_wf (?low @ map (\<lambda>b. (bk_number b, bk_hash b)) bs)"
  proof -
    have "btree_wf ?low"
      using tree_wfD(5) [OF wf] by (simp add: btree_wf_filter)
    moreover have "sorted_wrt (<) (map bk_number bs)"
      using linked_sorted [OF l] by (simp add: sorted_wrt_map)
    ultimately show ?thesis
      using first by (fastforce simp: btree_wf_def sorted_wrt_append comp_def)
  qed
  show ?thesis
  proof (rule tree_wfI)
    fix i c
    assume c: "bt_chains t' i = Some c"
    then show "chain_wf height c \<and> i < bt_block_chain_id_generator t'"
      using tree_wfD(1,2) [OF wf] cs by simp
    show "bi_last_finalized_block (bt_block_indices t') < bk_number (hd (blocks_of c))"
      using tree_wfD(8) [OF wf] c cs eq(3) s' by simp
    fix p
    assume p: "p = bk_parent_hash (hd (blocks_of c))"
    have "(height p, p) \<in> set (bi_canonical_chain ?s) \<or> (\<exists>j. in_chain (bt_chains t) j p) \<or> p \<in> bk_hash ` set bs"
      using tree_wfD(9) [OF wf _ p] c cs(1) by simp
    moreover have "(height p, p) \<in> (\<lambda>b. (bk_number b, bk_hash b)) ` set bs" if "p \<in> bk_hash ` set bs"
      using that linked_block [OF l] by (force simp: block_ok_def)
    ultimately show "(height p, p) \<in> set (bi_canonical_chain (bt_block_indices t')) \<or> (\<exists>j. in_chain (bt_chains t') j p) \<or>
       p \<in> bk_hash ` set [] \<or> p \<in> snd ` {e \<in> set (bi_canonical_chain ?s). \<not> fst e < bk_number (hd bs)}"
      unfolding s' eq(2) cs by (cases "height p < bk_number (hd bs)") force+
  next
    fix h i
    show "(bi_blocks_to_chain (bt_block_indices t') h = Some i) = in_chain (bt_chains t') i h"
      using tree_wfD(3) [OF wf, of h i] tree_wfD(4) [OF wf, of i h] eq(1) s' cs by auto
  next
    show "btree_wf (bi_canonical_chain (bt_block_indices t'))" "bi_canonical_chain (bt_block_indices t') \<noteq> []"
      using wfm assms(3) by (simp_all add: s' eq(2))
  next
    fix n h
    assume "(n, h) \<in> set (bi_canonical_chain (bt_block_indices t'))"
    then consider "(n, h) \<in> set (bi_canonical_chain ?s)" | b where "b \<in> set bs" "n = bk_number b" "h = bk_hash b"
      by (auto simp: s' eq(2))
    then show "height h = n \<and> h \<notin> bk_hash ` set [] \<and> (\<forall>i. \<not> in_chain (bt_chains t') i h)"
    proof cases
      case 1
      then show ?thesis
        using tree_wfD(7) [OF wf 1] cs by simp
    next
      case 2
      then have "h \<in> bk_hash ` set bs" "height h = n"
        using linked_block [OF l] by (auto simp: block_ok_def)
      then show ?thesis
        using tree_wfD(4) [OF wf] cs by auto
    qed
  next
    show "no_empty (bi_fork_to_child (bt_block_indices t'))"
      using tree_wfD(10) [OF wf] eq(5) s' by simp
  next
    fix h p
    assume "h \<in> children (bi_fork_to_child (bt_block_indices t')) p"
    then have "h \<in> children (bi_fork_to_child ?s) p" "\<not> (\<exists>b \<in> set bs. bk_hash b = h \<and> bk_parent_hash b = p)"
      by (auto simp: s' eq(4))
    then show "starts (bt_chains t') p h \<or> (\<exists>b \<in> set []. bk_hash b = h \<and> bk_parent_hash b = p)"
      using tree_wfD(11) [OF wf] cs by auto
  next
    fix p h
    assume st: "starts (bt_chains t') p h"
    then have "\<exists>i. in_chain (bt_chains t) i h"
      using cs tree_wfD(1) [OF wf] chain_wfD(3) unfolding starts_def in_chain_def by (metis hd_in_set)
    then have "h \<notin> bk_hash ` set bs"
      using tree_wfD(4) [OF wf] by blast
    then show "h \<in> children (bi_fork_to_child (bt_block_indices t')) p"
      using tree_wfD(12) [OF wf] st cs by (auto simp: s' eq(4))
  qed simp
qed

lemma starts_upd:
  assumes "cs i = None"
  shows "starts (cs(i \<mapsto> c)) q h \<longleftrightarrow>
    (q = bk_parent_hash (hd (blocks_of c)) \<and> h = bk_hash (hd (blocks_of c))) \<or> starts cs q h"
proof
  assume "starts (cs(i \<mapsto> c)) q h"
  then obtain j d where d: "(cs(i \<mapsto> c)) j = Some d" "bk_parent_hash (hd (blocks_of d)) = q" "bk_hash (hd (blocks_of d)) = h"
    unfolding starts_def by blast
  then show "(q = bk_parent_hash (hd (blocks_of c)) \<and> h = bk_hash (hd (blocks_of c))) \<or> starts cs q h"
    unfolding starts_def by (cases "j = i") auto
next
  assume "(q = bk_parent_hash (hd (blocks_of c)) \<and> h = bk_hash (hd (blocks_of c))) \<or> starts cs q h"
  then show "starts (cs(i \<mapsto> c)) q h"
  proof
    assume "starts cs q h"
    then obtain j d where d: "cs j = Some d" "bk_parent_hash (hd (blocks_of d)) = q" "bk_hash (hd (blocks_of d)) = h"
      unfolding starts_def by blast
    then have "(cs(i \<mapsto> c)) j = Some d"
      using assms by auto
    with d(2,3) show ?thesis
      unfolding starts_def by blast
  next
    assume "q = bk_parent_hash (hd (blocks_of c)) \<and> h = bk_hash (hd (blocks_of c))"
    moreover have "(cs(i \<mapsto> c)) i = Some c"
      by simp
    ultimately show ?thesis
      unfolding starts_def by blast
  qed
qed

text \<open>A new chain next to the others, forking off a block that is known.\<close>

lemma tree_insert_chain_wf:
  assumes wf: "tree_wf height [] orphans t" and c: "chain_wf height c"
    and gen: "bt_block_chain_id_generator t \<noteq> - 1"
    and new: "\<forall>b \<in> set (blocks_of c). (\<forall>i. \<not> in_chain (bt_chains t) i (bk_hash b)) \<and>
      bk_hash b \<notin> snd ` set (bi_canonical_chain (bt_block_indices t))"
    and lf: "bi_last_finalized_block (bt_block_indices t) < bk_number (hd (blocks_of c))"
    and p: "p = bk_parent_hash (hd (blocks_of c))"
      "(height p, p) \<in> set (bi_canonical_chain (bt_block_indices t)) \<or> (\<exists>j. in_chain (bt_chains t) j p)"
  shows "\<exists>t'. tree_insert_chain c t = Some (bt_block_chain_id_generator t, t') \<and>
    tree_wf height [] (orphans - bk_hash ` set (blocks_of c)) t' \<and>
    bt_chains t' = (bt_chains t)(bt_block_chain_id_generator t \<mapsto> c) \<and>
    bi_canonical_chain (bt_block_indices t') = bi_canonical_chain (bt_block_indices t) \<and>
    bi_last_finalized_block (bt_block_indices t') = bi_last_finalized_block (bt_block_indices t) \<and> bt_db t' = bt_db t"
proof -
  let ?i = "bt_block_chain_id_generator t" and ?s = "bt_block_indices t"
  obtain s' where s': "bi_insert_chain ?i c ?s = Some s'"
    "\<forall>h. bi_blocks_to_chain s' h = (if h \<in> bk_hash ` set (blocks_of c) then Some ?i else bi_blocks_to_chain ?s h)"
    "bi_canonical_chain s' = bi_canonical_chain ?s" "bi_last_finalized_block s' = bi_last_finalized_block ?s"
    "bi_fork_to_child s' = entry_insert (bk_parent_hash (hd (blocks_of c))) (bk_hash (hd (blocks_of c))) (bi_fork_to_child ?s)"
    using bi_insert_chain_wf [OF c, of ?i ?s] by blast
  define t' where "t' = t\<lparr>bt_block_chain_id_generator := ?i + 1, bt_block_indices := s', bt_chains := (bt_chains t)(?i \<mapsto> c)\<rparr>"
  have t': "bt_chains t' = (bt_chains t)(?i \<mapsto> c)" "bt_block_indices t' = s'" "bt_block_chain_id_generator t' = ?i + 1"
    "bt_db t' = bt_db t"
    by (simp_all add: t'_def)
  note free = tree_generator_free [OF wf]
  have ids: "j < ?i \<Longrightarrow> j < ?i + 1" "?i < ?i + 1" for j
    using unat_incr [of ?i "- 1"] gen by (simp_all add: word_order.not_eq_extremum word_less_nat_alt)
  have ic: "in_chain (bt_chains t') j h \<longleftrightarrow> (if j = ?i then h \<in> bk_hash ` set (blocks_of c) else in_chain (bt_chains t) j h)" for j h
    by (auto simp: t' in_chain_def)
  have ic_free: "\<not> in_chain (bt_chains t) ?i h" for h
    using free by (simp add: in_chain_def)
  have st: "starts (bt_chains t') q h \<longleftrightarrow>
      (q = bk_parent_hash (hd (blocks_of c)) \<and> h = bk_hash (hd (blocks_of c))) \<or> starts (bt_chains t) q h" for q h
    using starts_upd [where cs = "bt_chains t", OF free] by (simp add: t')
  have "tree_wf height [] (orphans - bk_hash ` set (blocks_of c)) t'"
  proof (rule tree_wfI)
    fix j e
    assume e: "bt_chains t' j = Some e"
    then consider "j = ?i" "e = c" | "j \<noteq> ?i" "bt_chains t j = Some e"
      by (auto simp: t' split: if_splits)
    note cases = this
    show "chain_wf height e \<and> j < bt_block_chain_id_generator t'"
      using cases c ids tree_wfD(1,2) [OF wf] by cases (simp_all add: t')
    show "bi_last_finalized_block (bt_block_indices t') < bk_number (hd (blocks_of e))"
      using cases tree_wfD(8) [OF wf] lf s'(4) by cases (simp_all add: t')
    fix q
    assume q: "q = bk_parent_hash (hd (blocks_of e))"
    have "(height q, q) \<in> set (bi_canonical_chain ?s) \<or> (\<exists>j. in_chain (bt_chains t) j q) \<or> q \<in> orphans"
      using cases
    proof cases
      case 2
      then show ?thesis
        using tree_wfD(9) [OF wf 2(2) q] by simp
    qed (use p q in blast)
    moreover have "in_chain (bt_chains t') j q" if "in_chain (bt_chains t) j q" for j
      using that ic ic_free by auto
    ultimately show "(height q, q) \<in> set (bi_canonical_chain (bt_block_indices t')) \<or> (\<exists>j. in_chain (bt_chains t') j q) \<or>
       q \<in> bk_hash ` set [] \<or> q \<in> orphans - bk_hash ` set (blocks_of c)"
      using s'(3) ic [of ?i q] by (cases "q \<in> bk_hash ` set (blocks_of c)") (auto simp: t'(2))
  next
    fix h j
    show "(bi_blocks_to_chain (bt_block_indices t') h = Some j) = in_chain (bt_chains t') j h"
    proof (cases "h \<in> bk_hash ` set (blocks_of c)")
      case True
      then show ?thesis
        using new s'(2) by (auto simp: ic t'(2))
    next
      case False
      then show ?thesis
        using tree_wfD(3) [OF wf, of h j] s'(2) ic_free by (auto simp: ic t'(2))
    qed
  next
    show "btree_wf (bi_canonical_chain (bt_block_indices t'))" "bi_canonical_chain (bt_block_indices t') \<noteq> []"
      using tree_wfD(5,6) [OF wf] s'(3) by (simp_all add: t'(2))
  next
    fix n h
    assume "(n, h) \<in> set (bi_canonical_chain (bt_block_indices t'))"
    then have nh: "(n, h) \<in> set (bi_canonical_chain ?s)"
      using s'(3) by (simp add: t'(2))
    then have "h \<notin> bk_hash ` set (blocks_of c)"
      using new by force
    then show "height h = n \<and> h \<notin> bk_hash ` set [] \<and> (\<forall>i. \<not> in_chain (bt_chains t') i h)"
      using tree_wfD(7) [OF wf nh] by (simp add: ic)
  next
    show "no_empty (bi_fork_to_child (bt_block_indices t'))"
      using tree_wfD(10) [OF wf] s'(5) by (simp add: t'(2))
  next
    fix h q
    assume "h \<in> children (bi_fork_to_child (bt_block_indices t')) q"
    then show "starts (bt_chains t') q h \<or> (\<exists>b \<in> set []. bk_hash b = h \<and> bk_parent_hash b = q)"
      using tree_wfD(11) [OF wf, of h q] s'(5) unfolding st t'(2) by (auto split: if_splits)
  next
    fix q h
    assume "starts (bt_chains t') q h"
    then show "h \<in> children (bi_fork_to_child (bt_block_indices t')) q"
      using tree_wfD(12) [OF wf, of q h] s'(5) unfolding st t'(2) by auto
  qed simp
  then show ?thesis
    using s' t' by (intro exI [of _ t']) (simp add: tree_insert_chain_def Let_def t'_def)
qed

end
