(* ===== verification/Spec2Isabelle.thy ===== *)
theory Spec2Isabelle
  imports Prelude Rlp Compact ChainSpec Transactions Consensus TxPool PeerSlots TreeOps
begin

text \<open>
  A verification development of reth, the Ethereum node under \<^verbatim>\<open>src/\<close>. Each theory models one part
  of the program.

  \<^item> \<^verbatim>\<open>Prelude\<close>: result and byte-string operations and the lemmas the components share.
  \<^item> \<^verbatim>\<open>Rlp\<close>: the RLP codec, \<^verbatim>\<open>crates/rlp/src\<close>.
  \<^item> \<^verbatim>\<open>Compact\<close>: the codec of the database, \<^verbatim>\<open>crates/storage/codecs/src\<close>.
\<close>

end
